(* ===== verification/Vox_Prelude.thy ===== *)
theory Vox_Prelude
  imports Main "HOL-Library.Word" "HOL-Library.Sublist"
begin

text \<open>
  Shared vocabulary of the development: machine-integer types, C strings, the parts of the C
  string library the SDK calls, the parameters that stand for libre (the SDK's third-party
  base library, which is not part of the repository), and the small effect calculus in which
  the handlers of the re_main thread are written.

  C strings are HOL strings without the terminating NUL; a \<open>const char *\<close> that may be NULL
  is a \<open>string option\<close>; a fixed buffer is the string it holds.
\<close>

unbundle bit_operations_syntax

section \<open>Machine integers and strings\<close>

type_synonym u8 = "8 word"
type_synonym u16 = "16 word"
type_synonym u32 = "32 word"
type_synonym u64 = "64 word"

type_synonym cptr = "string option"

named_theorems cstr \<open>defining equations of the C string library\<close>
named_theorems vox_defs \<open>definitions of handlers, unfolded when a proof follows the code\<close>

subsection \<open>The C string library\<close>

text \<open>\<open>strchr(s, c)\<close>: the offset of the first \<open>c\<close>, \<open>None\<close> for NULL.\<close>

fun strchr :: "char \<Rightarrow> string \<Rightarrow> nat option" where
  "strchr c [] = None"
| "strchr c (x # xs) = (if x = c then Some 0 else map_option Suc (strchr c xs))"

text \<open>\<open>strrchr(s, c)\<close>: the offset of the last \<open>c\<close>.\<close>

fun strrchr :: "char \<Rightarrow> string \<Rightarrow> nat option" where
  "strrchr c [] = None"
| "strrchr c (x # xs) =
     (case strrchr c xs of
        Some i \<Rightarrow> Some (Suc i)
      | None \<Rightarrow> if x = c then Some 0 else None)"

text \<open>\<open>memchr(p, c, n)\<close> on the first \<open>n\<close> bytes.\<close>

definition memchr :: "char \<Rightarrow> nat \<Rightarrow> string \<Rightarrow> nat option" where
  "memchr c n s = strchr c (take n s)"

text \<open>\<open>strncmp(s, p, strlen(p)) == 0\<close>.\<close>

definition starts_with :: "string \<Rightarrow> string \<Rightarrow> bool" where
  "starts_with p s \<longleftrightarrow> take (length p) s = p"

text \<open>ASCII case folding, as \<open>strcasecmp\<close> does it in the C locale.\<close>

definition tolower :: "char \<Rightarrow> char" where
  "tolower c = (let n = of_char c :: nat in if 65 \<le> n \<and> n \<le> 90 then char_of (n + 32) else c)"

definition lower :: "string \<Rightarrow> string" where
  "lower s = map tolower s"

definition starts_with_ci :: "string \<Rightarrow> string \<Rightarrow> bool" where
  "starts_with_ci p s \<longleftrightarrow> lower (take (length p) s) = lower p"

definition strcasecmp_eq :: "string \<Rightarrow> string \<Rightarrow> bool" where
  "strcasecmp_eq a b \<longleftrightarrow> lower a = lower b"

text \<open>\<open>strstr(s, p)\<close>: the offset of the first occurrence of \<open>p\<close>.\<close>

fun strstr :: "string \<Rightarrow> string \<Rightarrow> nat option" where
  "strstr p [] = (if p = [] then Some 0 else None)"
| "strstr p (x # xs) =
     (if starts_with p (x # xs) then Some 0 else map_option Suc (strstr p xs))"

subsubsection \<open>Numbers in decimal\<close>

definition is_digit :: "char \<Rightarrow> bool" where
  "is_digit c \<longleftrightarrow> 48 \<le> (of_char c :: nat) \<and> (of_char c :: nat) \<le> 57"

definition digit_val :: "char \<Rightarrow> nat" where
  "digit_val c = of_char c - 48"

definition is_space :: "char \<Rightarrow> bool" where
  "is_space c \<longleftrightarrow> (of_char c :: nat) = 32 \<or> (9 \<le> (of_char c :: nat) \<and> (of_char c :: nat) \<le> 13)"

definition digits_val :: "string \<Rightarrow> nat" where
  "digits_val s = foldl (\<lambda>a c. 10 * a + digit_val c) 0 s"

text \<open>
  \<open>strtol\<close>/\<open>strtoul\<close> to base 10: skip white space, one optional sign, then the longest run
  of digits. The result is the sign, the digits' value and the number of characters consumed;
  no digits means nothing is consumed.
\<close>

definition scan_int :: "string \<Rightarrow> bool \<times> nat \<times> nat" where
  "scan_int s =
     (let sp = takeWhile is_space s;
          r = drop (length sp) s;
          neg = (r \<noteq> [] \<and> hd r = CHR ''-'');
          sgnlen = (if r \<noteq> [] \<and> (hd r = CHR ''-'' \<or> hd r = CHR ''+'') then 1 else 0);
          ds = takeWhile is_digit (drop sgnlen r)
      in if ds = [] then (False, 0, 0)
         else (neg, digits_val ds, length sp + sgnlen + length ds))"

text \<open>
  \<open>strtoul(s, NULL, 10)\<close> with a 64-bit \<open>unsigned long\<close>: saturates at \<open>ULONG_MAX\<close>; a minus
  sign negates modulo the width.
\<close>

definition strtoul :: "string \<Rightarrow> u64" where
  "strtoul s =
     (case scan_int s of
        (neg, v, _) \<Rightarrow>
          if 2 ^ 64 \<le> v then - 1
          else if neg then - of_nat v else of_nat v)"

lemma strtoul_code [code]:
  "strtoul s =
     (case scan_int s of
        (neg, v, _) \<Rightarrow>
          if 18446744073709551616 \<le> int v then - 1
          else if neg then - of_int (int v) else of_int (int v))"
  by (simp add: strtoul_def split: prod.splits)

text \<open>\<open>strtol(s, &end, 10)\<close>: the value, saturated, and the offset of \<open>end\<close>.\<close>

definition strtol :: "string \<Rightarrow> int \<times> nat" where
  "strtol s =
     (case scan_int s of
        (neg, v, n) \<Rightarrow>
          (if neg then max (- int v) (- (2 ^ 63)) else min (int v) (2 ^ 63 - 1), n))"

definition port_of :: "string \<Rightarrow> u16" where
  "port_of s = ucast (strtoul s)"

text \<open>\<open>%u\<close>.\<close>

fun show_nat :: "nat \<Rightarrow> string" where
  "show_nat n = (if n < 10 then [char_of (48 + n)] else show_nat (n div 10) @ [char_of (48 + n mod 10)])"

declare show_nat.simps [simp del]

text \<open>The same over \<open>int\<close>, by which it is evaluated.\<close>

function show_dec :: "int \<Rightarrow> string" where
  "show_dec i = (if i < 10 then [char_of (48 + nat i)] else show_dec (i div 10) @ [char_of (48 + nat (i mod 10))])"
  by auto
termination by (relation "measure nat") auto

declare show_dec.simps [simp del]

lemma show_nat_dec [code]: "show_nat n = show_dec (int n)"
proof (induction n rule: show_nat.induct)
  case (1 n)
  show ?case
  proof (cases "n < 10")
    case False
    then have "show_nat (n div 10) = show_dec (int n div 10)" using 1 by (simp add: zdiv_int)
    moreover have "nat (int n mod 10) = n mod 10" by (simp add: nat_mod_distrib)
    ultimately show ?thesis using False by (simp add: show_nat.simps [of n] show_dec.simps [of "int n"])
  qed (simp add: show_nat.simps [of n] show_dec.simps [of "int n"])
qed

subsection \<open>Generic lemmas\<close>

lemma strchr_None_iff [simp]: "strchr c s = None \<longleftrightarrow> c \<notin> set s"
  by (induction s) auto

lemma strchr_notin [simp]: "c \<notin> set s \<Longrightarrow> strchr c s = None"
  by simp

lemma strchr_Some_less: "strchr c s = Some i \<Longrightarrow> i < length s"
  by (induction s arbitrary: i) (auto split: if_splits)

lemma strchr_Some_nth: "strchr c s = Some i \<Longrightarrow> s ! i = c \<and> c \<notin> set (take i s)"
  by (induction s arbitrary: i) (auto split: if_splits)

lemma strchr_append_first [simp]:
  "c \<notin> set a \<Longrightarrow> strchr c (a @ c # b) = Some (length a)"
  by (induction a) auto

lemma strchr_append_notin: "c \<notin> set a \<Longrightarrow> strchr c (a @ b) = map_option ((+) (length a)) (strchr c b)"
  by (induction a) (auto simp: option.map_comp comp_def option.map_ident cong: option.map_cong)

lemma strrchr_None_iff [simp]: "strrchr c s = None \<longleftrightarrow> c \<notin> set s"
  by (induction s) (auto split: option.splits)

lemma strrchr_append_last [simp]:
  "c \<notin> set b \<Longrightarrow> strrchr c (a @ c # b) = Some (length a)"
  by (induction a) (auto split: option.splits simp flip: strrchr_None_iff)

lemma starts_with_append [simp]: "starts_with p (p @ s)"
  by (simp add: starts_with_def)

lemma lower_append [simp]: "lower (a @ b) = lower a @ lower b"
  by (simp add: lower_def)

lemma length_lower [simp]: "length (lower s) = length s"
  by (simp add: lower_def)

lemma digit_val_char_of [simp]: "(n :: nat) < 10 \<Longrightarrow> digit_val (char_of (48 + n)) = n"
  by (simp add: digit_val_def)

lemma is_digit_char_of [simp]: "(n :: nat) < 10 \<Longrightarrow> is_digit (char_of (48 + n))"
  by (simp add: is_digit_def)

lemma digits_val_snoc [simp]: "digits_val (s @ [c]) = 10 * digits_val s + digit_val c"
  by (simp add: digits_val_def)

lemma show_nat_digits: "\<forall>c \<in> set (show_nat n). is_digit c"
proof (induction n rule: show_nat.induct)
  case (1 n)
  then show ?case by (cases "n < 10") (simp_all add: show_nat.simps [of n])
qed

lemma show_nat_nonempty [simp]: "show_nat n \<noteq> []"
  by (subst show_nat.simps) simp

lemma digits_val_show_nat [simp]: "digits_val (show_nat n) = n"
proof (induction n rule: show_nat.induct)
  case (1 n)
  show ?case
  proof (cases "n < 10")
    case True
    then show ?thesis by (simp add: show_nat.simps [of n] digits_val_def)
  next
    case False
    with 1 show ?thesis by (simp add: show_nat.simps [of n])
  qed
qed

lemma takeWhile_digits_show_nat:
  "r = [] \<or> \<not> is_digit (hd r) \<Longrightarrow> takeWhile is_digit (show_nat n @ r) = show_nat n"
proof -
  assume r: "r = [] \<or> \<not> is_digit (hd r)"
  have "takeWhile is_digit (show_nat n @ r) = show_nat n @ takeWhile is_digit r"
    using show_nat_digits [of n] by (simp add: takeWhile_append2)
  also have "takeWhile is_digit r = []"
    using r by (cases r) auto
  finally show ?thesis by simp
qed

lemma digit_not_space: "is_digit c \<Longrightarrow> \<not> is_space c"
  by (auto simp: is_digit_def is_space_def)

lemma digit_not_sign: "is_digit c \<Longrightarrow> c \<noteq> CHR ''-'' \<and> c \<noteq> CHR ''+''"
  by (auto simp: is_digit_def)

text \<open>Printing a number and scanning it back gives the number and the length printed.\<close>

lemma scan_int_show_nat:
  assumes "r = [] \<or> \<not> is_digit (hd r)"
  shows "scan_int (show_nat n @ r) = (False, n, length (show_nat n))"
proof -
  obtain c cs where s: "show_nat n = c # cs" by (cases "show_nat n") auto
  have d: "is_digit c" using show_nat_digits [of n] s by simp
  have "takeWhile is_space (show_nat n @ r) = []"
    using s digit_not_space [OF d] by simp
  moreover have "takeWhile is_digit (c # cs @ r) = c # cs"
    using takeWhile_digits_show_nat [OF assms, of n] s by simp
  ultimately show ?thesis
    using s digit_not_sign [OF d] digits_val_show_nat [of n]
    by (simp add: scan_int_def Let_def)
qed

lemma strtoul_show_nat:
  assumes "r = [] \<or> \<not> is_digit (hd r)" and "n < 2 ^ 64"
  shows "strtoul (show_nat n @ r) = of_nat n"
  using assms by (simp add: strtoul_def scan_int_show_nat)

lemma port_of_show_nat:
  assumes "r = [] \<or> \<not> is_digit (hd r)"
  shows "port_of (show_nat (unat (p :: u16)) @ r) = p"
proof -
  have lt: "unat p < 2 ^ 16" using unsigned_less [of p, where ?'a = nat] by simp
  then have "unat p < 2 ^ 64" by simp
  then have "strtoul (show_nat (unat p) @ r) = of_nat (unat p)"
    using assms by (simp add: strtoul_show_nat)
  moreover have "ucast (of_nat (unat p) :: u64) = p"
    using lt by (intro word_unat_eq_iff [THEN iffD2]) (simp add: unsigned_ucast_eq unsigned_of_nat take_bit_nat_eq_self take_bit_word_eq_self)
  ultimately show ?thesis by (simp add: port_of_def)
qed

subsection \<open>libre, the library under the SDK\<close>

text \<open>
  The SDK is built on libre and baresip, which the repository takes as git submodules. Their
  functions are parameters here, the fields of a record that the definitions take as their
  argument \<open>L\<close>:
  \<^item> \<open>lb_ncpy n s\<close> is what \<open>str_ncpy(dst, s, n)\<close> leaves in \<open>dst\<close>;
  \<^item> \<open>lb_snprintf n s\<close> is what \<open>re_snprintf(buf, n, ...)\<close> leaves in \<open>buf\<close> when the format
    expands to \<open>s\<close>, with its return value;
  \<^item> \<open>lb_casecmp a b\<close> is \<open>str_casecmp(a, b)\<close>;
  \<^item> \<open>lb_sa_set_str s\<close> is \<open>sa_set_str(&sa, s, 0)\<close>: \<open>None\<close> when \<open>s\<close> is no address literal,
    otherwise whether \<open>sa_is_loopback\<close> and \<open>sa_is_any\<close> hold of the address.
  \<open>libre_laws\<close> states the documented behaviour the SDK relies on.
\<close>

record libre =
  lb_ncpy :: "nat \<Rightarrow> string \<Rightarrow> string"
  lb_snprintf :: "nat \<Rightarrow> string \<Rightarrow> string \<times> int"
  lb_casecmp :: "string \<Rightarrow> string \<Rightarrow> int"
  lb_sa_set_str :: "string \<Rightarrow> (bool \<times> bool) option"

definition libre_laws :: "libre \<Rightarrow> bool" where
  "libre_laws L \<longleftrightarrow>
     (\<forall>n s. 0 < n \<longrightarrow> lb_ncpy L n s = take (n - 1) s) \<and>
     (\<forall>n s. length s < n \<longrightarrow> lb_snprintf L n s = (s, int (length s))) \<and>
     (\<forall>n s. n \<le> length s \<longrightarrow> snd (lb_snprintf L n s) < 0) \<and>
     (\<forall>n s. 0 < n \<longrightarrow> length (fst (lb_snprintf L n s)) < n) \<and>
     (\<forall>a b. lb_casecmp L a b = 0 \<longleftrightarrow> strcasecmp_eq a b)"

text \<open>A concrete library with this behaviour, for evaluating the model.\<close>

definition libre_ref :: "libre" where
  "libre_ref = \<lparr>
     lb_ncpy = (\<lambda>n s. take (n - 1) s),
     lb_snprintf = (\<lambda>n s. if length s < n then (s, int (length s)) else (take (n - 1) s, -1)),
     lb_casecmp = (\<lambda>a b. if strcasecmp_eq a b then 0 else 1),
     lb_sa_set_str = (\<lambda>s.
       if s = ''127.0.0.1'' then Some (True, False)
       else if s = ''0.0.0.0'' then Some (False, True)
       else if s = ''10.0.0.1'' then Some (False, False)
       else None)\<rparr>"

lemma libre_ref_laws: "libre_laws libre_ref"
  by (auto simp: libre_laws_def libre_ref_def)

lemma libre_ncpy: "libre_laws L \<Longrightarrow> 0 < n \<Longrightarrow> lb_ncpy L n s = take (n - 1) s"
  by (simp add: libre_laws_def)

lemma libre_ncpy_fits: "libre_laws L \<Longrightarrow> length s < n \<Longrightarrow> lb_ncpy L n s = s"
  by (simp add: libre_laws_def)

lemma libre_snprintf_fits:
  "libre_laws L \<Longrightarrow> length s < n \<Longrightarrow> lb_snprintf L n s = (s, int (length s))"
  by (simp add: libre_laws_def)

lemma libre_snprintf_over: "libre_laws L \<Longrightarrow> n \<le> length s \<Longrightarrow> snd (lb_snprintf L n s) < 0"
  by (simp add: libre_laws_def)

lemma libre_casecmp: "libre_laws L \<Longrightarrow> lb_casecmp L a b = 0 \<longleftrightarrow> strcasecmp_eq a b"
  by (simp add: libre_laws_def)

section \<open>Handlers and their effects\<close>

text \<open>
  A handler of the re_main thread changes the state it is given and performs a sequence of
  externally visible effects (events posted, requests handed to the SIP stack, timers of the
  host). It is a function from the state to the new state and the effects in order.
\<close>

type_synonym ('s, 'e) act = "'s \<Rightarrow> 's \<times> 'e list"

definition skip :: "('s, 'e) act" where
  "skip s = (s, [])"

definition emit :: "'e \<Rightarrow> ('s, 'e) act" where
  "emit e s = (s, [e])"

definition upd :: "('s \<Rightarrow> 's) \<Rightarrow> ('s, 'e) act" where
  "upd f s = (f s, [])"

definition andthen :: "('s, 'e) act \<Rightarrow> ('s, 'e) act \<Rightarrow> ('s, 'e) act" where
  "andthen f g s = (case f s of (s', es) \<Rightarrow> case g s' of (s'', es') \<Rightarrow> (s'', es @ es'))"

definition onlyif :: "bool \<Rightarrow> ('s, 'e) act \<Rightarrow> ('s, 'e) act" where
  "onlyif b f = (if b then f else skip)"

lemmas act_defs = skip_def emit_def upd_def andthen_def onlyif_def

lemma fst_andthen [simp]: "fst (andthen f g s) = fst (g (fst (f s)))"
  by (simp add: andthen_def split: prod.splits)

lemma snd_andthen [simp]: "snd (andthen f g s) = snd (f s) @ snd (g (fst (f s)))"
  by (simp add: andthen_def split: prod.splits)

lemma act_simps [simp]:
  "fst (skip s) = s" "snd (skip s) = []"
  "fst (emit e s) = s" "snd (emit e s) = [e]"
  "fst (upd f s) = f s" "snd (upd f s) = []"
  "onlyif True g = g" "onlyif False g = skip"
  by (simp_all add: skip_def emit_def upd_def onlyif_def)

lemma andthen_skip [simp]: "andthen skip f = f" "andthen f skip = f"
  by (auto simp: act_defs fun_eq_iff split: prod.splits)

lemma andthen_assoc: "andthen (andthen f g) h = andthen f (andthen g h)"
  by (auto simp: act_defs fun_eq_iff split: prod.splits)

text \<open>A run of a deterministic machine: the effects of the steps, in order.\<close>

fun run_acts :: "('i \<Rightarrow> ('s, 'e) act) \<Rightarrow> 'i list \<Rightarrow> ('s, 'e) act" where
  "run_acts step [] = skip"
| "run_acts step (i # is) = andthen (step i) (run_acts step is)"

text \<open>The inputs of a run that the environment may give, each judged in the state it meets.\<close>

fun legal_run :: "('i \<Rightarrow> ('s, 'e) act) \<Rightarrow> ('i \<Rightarrow> 's \<Rightarrow> bool) \<Rightarrow> 'i list \<Rightarrow> 's \<Rightarrow> bool" where
  "legal_run step ok [] s = True"
| "legal_run step ok (i # is) s = (ok i s \<and> legal_run step ok is (fst (step i s)))"

text \<open>
  The contract of an invariant: it holds of the state the machine starts in and every step
  keeps it. Components prove the two laws and get the invariant for every run.
\<close>

locale invariant_machine =
  fixes step :: "'i \<Rightarrow> ('s, 'e) act"
    and ok :: "'i \<Rightarrow> 's \<Rightarrow> bool"
    and inv :: "'s \<Rightarrow> bool"
  assumes step_inv: "inv s \<Longrightarrow> ok i s \<Longrightarrow> inv (fst (step i s))"
begin

lemma run_inv: "inv s \<Longrightarrow> legal_run step ok is s \<Longrightarrow> inv (fst (run_acts step is s))"
proof (induction "is" arbitrary: s)
  case Nil
  then show ?case by (simp add: skip_def)
next
  case (Cons i "is")
  then have "inv (fst (run_acts step is (fst (step i s))))"
    by (auto intro: step_inv)
  then show ?case by simp
qed

lemma run_inv_always: "(\<And>i s. ok i s) \<Longrightarrow> inv s \<Longrightarrow> inv (fst (run_acts step is s))"
proof -
  assume a: "\<And>i s. ok i s" and i: "inv s"
  have "legal_run step ok is s" by (induction "is" arbitrary: s) (auto simp: a)
  with i show ?thesis by (rule run_inv)
qed

end

end
