(* ===== verification/Vox_Types.thy ===== *)
theory Vox_Types
  imports Complex_Main Vox_Prelude
begin

text \<open>
  The public enumerations of \<^verbatim>\<open>include/voxsdk.h\<close>, the SDK's error codes with their strings
  (\<^verbatim>\<open>src/error.c\<close>), the POSIX error numbers the code returns, and the event union that every
  component posts. Enumerations whose code has a reachable \<open>default:\<close> branch for values
  outside the enumerators carry an extra constructor for them.
\<close>

section \<open>Enumerations\<close>

datatype transport = TP_UDP | TP_TCP | TP_TLS | TP_WS | TP_WSS

datatype media_enc = MENC_NONE | MENC_SDES | MENC_DTLS_SRTP

datatype codec = CODEC_OPUS | CODEC_PCMU | CODEC_PCMA | CODEC_G722 | CODEC_G726_32 | CODEC_other int

datatype media_dir = DIR_RX | DIR_TX

datatype dtmf_mode = DTMF_RFC4733 | DTMF_SIP_INFO | DTMF_AUTO | DTMF_other int

datatype push_provider = PUSH_NONE | PUSH_APNS | PUSH_APNS_SANDBOX | PUSH_FCM | PUSH_other int

datatype call_state =
    CALL_CALLING | CALL_RINGING | CALL_ESTABLISHED | CALL_HELD
  | CALL_ENDED | CALL_CANCELLED | CALL_FAILED

datatype reg_state =
    REG_UNREGISTERED | REG_REGISTERING | REG_REGISTERED | REG_FAILED
  | REG_UNREGISTERING | REG_RECONNECTING

datatype quality_issue =
    QUALITY_MOS | QUALITY_LOSS | QUALITY_JITTER | QUALITY_RTT | QUALITY_MEDIA_STALL

datatype presence_status = PRESENCE_UNKNOWN | PRESENCE_OPEN | PRESENCE_CLOSED | PRESENCE_BUSY

datatype net_event =
    NET_CHANGE_DETECTED | NET_DOWN | NET_UP | NET_TRANSPORT_RESET | NET_REREGISTERING
  | NET_CALL_MIGRATING | NET_CALL_MIGRATE_ACCEPTED | NET_CALL_MIGRATED
  | NET_CALL_MIGRATION_FAILED | NET_CALL_DEFERRED | NET_HANDOVER_FAILED | NET_CALL_ICE_STALE

section \<open>Errors\<close>

datatype vox_error =
    VOX_OK | ERR_INVAL | ERR_NOMEM | ERR_STATE | ERR_DNS | ERR_TRANSPORT | ERR_AUTH
  | ERR_SERVER_5XX | ERR_WS_PROTOCOL_REJECTED | ERR_TIMEOUT | ERR_ALREADY

definition err_code :: "vox_error \<Rightarrow> int" where
  "err_code e =
     (case e of VOX_OK \<Rightarrow> 0 | ERR_INVAL \<Rightarrow> -1 | ERR_NOMEM \<Rightarrow> -2 | ERR_STATE \<Rightarrow> -3
      | ERR_DNS \<Rightarrow> -4 | ERR_TRANSPORT \<Rightarrow> -5 | ERR_AUTH \<Rightarrow> -6 | ERR_SERVER_5XX \<Rightarrow> -7
      | ERR_WS_PROTOCOL_REJECTED \<Rightarrow> -8 | ERR_TIMEOUT \<Rightarrow> -9 | ERR_ALREADY \<Rightarrow> -10)"

definition show_int :: "int \<Rightarrow> string" where
  "show_int i = (if i < 0 then CHR ''-'' # show_nat (nat (- i)) else show_nat (nat i))"

text \<open>
  \<open>voxsdk_strerror\<close>: the \<open>switch\<close> on the code, with the 32-byte buffer of its \<open>default:\<close>
  branch filled by libre's formatter.
\<close>

definition voxsdk_strerror :: "libre \<Rightarrow> int \<Rightarrow> string" where
  "voxsdk_strerror L err =
     (if err = 0 then ''ok''
      else if err = -1 then ''invalid argument''
      else if err = -2 then ''out of memory''
      else if err = -3 then ''wrong lifecycle state''
      else if err = -4 then ''DNS resolution failed''
      else if err = -5 then ''transport error''
      else if err = -6 then ''authentication failed''
      else if err = -7 then ''server error (5xx)''
      else if err = -8 then ''WebSocket protocol rejected''
      else if err = -9 then ''timeout''
      else if err = -10 then ''already initialized''
      else fst (lb_snprintf L 32 (''unknown error '' @ show_int err)))"

datatype errno = EINVAL | ENOENT | ENOMEM | ENOTSUP | EALREADY | EIO | ETIMEDOUT | EHOSTUNREACH | EOTHER nat

text \<open>The codes are distinct: a consumer can tell every error from every other by its number.\<close>

lemma err_code_inj: "err_code a = err_code b \<longleftrightarrow> a = b"
  by (cases a; cases b) (simp_all add: err_code_def)

section \<open>Events\<close>

text \<open>
  Handles to accounts and calls are numbers. The event union is parametric in what stands for
  a \<open>const char *\<close>: the components that build events use the text itself (\<open>string option\<close>),
  the queue, which copies events between buffers, uses pointers. Two members are cut: the
  numeric block of the media statistics, and the arrays \<open>rejected_codecs\<close> and \<open>warnings\<close> of
  the SDP event, which nothing fills. Fields are in the order of the structs.
\<close>

type_synonym acct_id = nat
type_synonym call_id = nat

datatype 's reg_ev = RegEv
  (reg_account: "acct_id option") (reg_st: reg_state) (reg_err: vox_error)
  (reg_retry_attempt: u32) (reg_retry_delay_ms: u32) (reg_str: 's)

datatype 's event =
    EV_LOG 's
  | EV_REG_STATE "'s reg_ev"
  | EV_INCOMING_CALL "acct_id option" "call_id option" 's 's
  | EV_CALL_STATE "acct_id option" "call_id option" call_state vox_error 's
  | EV_CALL_DTMF "call_id option" char
  | EV_SDP_NEGOTIATION "call_id option" 's 's 's 's
  | EV_SIP_TRACE media_dir 's 's 's u64
  | EV_MEDIA_STATS "call_id option" 's
  | EV_REGISTRAR_WARNING 's
  | EV_TRANSFER_REQUEST "acct_id option" "call_id option" 's bool bool
  | EV_MWI "acct_id option" bool u32 u32 u32 u32 's
  | EV_MESSAGE "acct_id option" 's 's 's
  | EV_PRESENCE_STATE "acct_id option" 's presence_status
  | EV_QUALITY_ALERT "call_id option" quality_issue rat rat bool
  | EV_NETWORK net_event "call_id option" "acct_id option" 's u32 u32 u32 bool vox_error
  | EV_TRANSFER_FAILED "acct_id option" "call_id option" 's

end
