(* ===== verification/Vox_Transport.thy ===== *)
theory Vox_Transport
  imports Vox_Types
begin

text \<open>
  \<^verbatim>\<open>src/transport.c\<close>: the server-URL parser and the outbound-proxy string that baresip is
  given. Offsets stand for the pointers of the C code; every copy into a caller's buffer is
  bounded as the code bounds it.
\<close>

section \<open>Operations\<close>

definition vox_transport_str :: "transport \<Rightarrow> string" where
  "vox_transport_str t =
     (case t of TP_UDP \<Rightarrow> ''udp'' | TP_TCP \<Rightarrow> ''tcp'' | TP_TLS \<Rightarrow> ''tls''
      | TP_WS \<Rightarrow> ''ws'' | TP_WSS \<Rightarrow> ''wss'')"

definition vox_mediaenc_str :: "media_enc \<Rightarrow> cptr" where
  "vox_mediaenc_str e =
     (case e of MENC_SDES \<Rightarrow> Some ''srtp'' | MENC_DTLS_SRTP \<Rightarrow> Some ''dtls_srtp''
      | MENC_NONE \<Rightarrow> None)"

text \<open>The scheme: transport, default port and what follows it.\<close>

definition skip_slashes :: "string \<Rightarrow> string" where
  "skip_slashes r = (if starts_with ''//'' r then drop 2 r else r)"

definition url_scheme :: "string \<Rightarrow> transport \<times> u16 \<times> string" where
  "url_scheme url =
     (if starts_with ''wss://'' url then (TP_WSS, 443, drop 6 url)
      else if starts_with ''ws://'' url then (TP_WS, 80, drop 5 url)
      else if starts_with ''sips:'' url then (TP_TLS, 5061, skip_slashes (drop 5 url))
      else if starts_with ''sip:'' url then (TP_UDP, 5060, skip_slashes (drop 4 url))
      else (TP_UDP, 5060, url))"

text \<open>The \<open>;transport=\<close> override of the scheme's transport and default port.\<close>

definition url_transport_override :: "string \<Rightarrow> transport \<times> u16 \<Rightarrow> transport \<times> u16" where
  "url_transport_override rest d =
     (case strstr '';transport='' rest of
        None \<Rightarrow> d
      | Some i \<Rightarrow>
          (let tv = drop (i + 11) rest in
           if starts_with_ci ''wss'' tv then (TP_WSS, 443)
           else if starts_with_ci ''ws'' tv then (TP_WS, 80)
           else if starts_with_ci ''tls'' tv then (TP_TLS, 5061)
           else if starts_with_ci ''tcp'' tv then (TP_TCP, 5060)
           else if starts_with_ci ''udp'' tv then (TP_UDP, 5060)
           else d))"

text \<open>The authority ends at the first \<open>/\<close> or \<open>;\<close>.\<close>

definition authority_len :: "string \<Rightarrow> nat" where
  "authority_len rest =
     (case (strchr (CHR ''/'') rest, strchr (CHR '';'') rest) of
        (Some a, Some b) \<Rightarrow> min a b
      | (Some a, None) \<Rightarrow> a
      | (None, Some b) \<Rightarrow> b
      | (None, None) \<Rightarrow> length rest)"

text \<open>The path: from a \<open>/\<close> that precedes any \<open>;\<close>, unless nothing meaningful follows it.\<close>

definition url_path :: "libre \<Rightarrow> string \<Rightarrow> nat \<Rightarrow> string" where
  "url_path L rest path_sz =
     (case strchr (CHR ''/'') rest of
        None \<Rightarrow> []
      | Some a \<Rightarrow>
          (let before_semi = (case strchr (CHR '';'') rest of Some b \<Rightarrow> a < b | None \<Rightarrow> True);
               next = drop (Suc a) rest
           in if before_semi \<and> next \<noteq> [] \<and> hd next \<noteq> CHR '';''
              then lb_ncpy L path_sz (drop a rest) else []))"

text \<open>
  \<open>vox_parse_server_url\<close>: \<open>EINVAL\<close> for a NULL URL, otherwise the transport, host, port and
  path it stores through its output pointers (which its callers never pass as NULL).
\<close>

definition vox_parse_server_url ::
  "libre \<Rightarrow> cptr \<Rightarrow> nat \<Rightarrow> nat \<Rightarrow> errno + transport \<times> string \<times> u16 \<times> string" where
  "vox_parse_server_url L url host_sz path_sz =
     (case url of
        None \<Rightarrow> Inl EINVAL
      | Some u \<Rightarrow>
          (case url_scheme u of
             (t0, dp0, rest0) \<Rightarrow>
               (case url_transport_override rest0 (t0, dp0) of
                  (t, default_port) \<Rightarrow>
                    (let al0 = authority_len rest0;
                         user_len = (case memchr (CHR ''@'') al0 rest0 of
                                       Some i \<Rightarrow> Suc i | None \<Rightarrow> 0);
                         rest = drop user_len rest0;
                         al = al0 - user_len;
                         path = url_path L rest0 path_sz
                     in case memchr (CHR '':'') al rest of
                          Some c \<Rightarrow>
                            (let h_len = (if host_sz \<le> c then host_sz - 1 else c);
                                 p = port_of (drop (Suc c) rest)
                             in Inr (t, take h_len rest, if p = 0 then default_port else p, path))
                        | None \<Rightarrow>
                            (let h_len = (if host_sz \<le> al then host_sz - 1 else al)
                             in Inr (t, take h_len rest, default_port, path))))))"

definition outbound_default_port :: "transport \<Rightarrow> u16" where
  "outbound_default_port t =
     (case t of TP_TLS \<Rightarrow> 5061 | TP_WS \<Rightarrow> 80 | TP_WSS \<Rightarrow> 443 | _ \<Rightarrow> 5060)"

text \<open>
  \<open>vox_build_outbound\<close>: the text left in the caller's buffer. A server URL takes precedence
  over host and port; a host longer than the 256-byte local buffer is cut.
\<close>

definition vox_build_outbound ::
  "libre \<Rightarrow> cptr \<Rightarrow> cptr \<Rightarrow> u16 \<Rightarrow> transport \<Rightarrow> nat \<Rightarrow> string" where
  "vox_build_outbound L server_url server_host server_port t buf_sz =
     (let (tp, host, port) =
        (case server_url of
           Some u \<Rightarrow>
             (case vox_parse_server_url L (Some u) 256 256 of
                Inr (tp', h, p, _) \<Rightarrow> (tp', h, p)
              | Inl _ \<Rightarrow> (t, [], server_port))
         | None \<Rightarrow>
             (t, lb_ncpy L 256 (case server_host of Some h \<Rightarrow> h | None \<Rightarrow> []),
              if server_port = 0 then outbound_default_port t else server_port))
      in fst (lb_snprintf L buf_sz
           (''sip:'' @ host @ '':'' @ show_nat (unat port) @ '';transport='' @ vox_transport_str tp)))"

section \<open>Lemmas\<close>

text \<open>A host name the URL syntax does not cut: none of the delimiters of the grammar.\<close>

definition plain_host :: "string \<Rightarrow> bool" where
  "plain_host h \<longleftrightarrow> CHR '':'' \<notin> set h \<and> CHR ''/'' \<notin> set h \<and> CHR '';'' \<notin> set h \<and> CHR ''@'' \<notin> set h"

lemma strstr_first:
  assumes "c \<notin> set a"
  shows "strstr (c # cs) (a @ (c # cs) @ b) = Some (length a)"
  using assms by (induction a) (auto simp: starts_with_def)

lemma digit_chars:
  assumes "x \<in> set (show_nat n)"
  shows "x \<noteq> CHR '':''" "x \<noteq> CHR ''/''" "x \<noteq> CHR '';''" "x \<noteq> CHR ''@''"
  using assms show_nat_digits [of n] by (auto simp: is_digit_def)

lemma show_nat_delims [simp]:
  "CHR '':'' \<notin> set (show_nat n)" "CHR ''/'' \<notin> set (show_nat n)"
  "CHR '';'' \<notin> set (show_nat n)" "CHR ''@'' \<notin> set (show_nat n)"
  using digit_chars by blast+

lemma transport_str_delims [simp]:
  "CHR '':'' \<notin> set (vox_transport_str t)" "CHR ''/'' \<notin> set (vox_transport_str t)"
  "CHR '';'' \<notin> set (vox_transport_str t)" "CHR ''@'' \<notin> set (vox_transport_str t)"
  by (cases t; simp add: vox_transport_str_def)+

lemma length_show_nat_less: "n < 10 ^ k \<Longrightarrow> 0 < k \<Longrightarrow> length (show_nat n) \<le> k"
proof (induction k arbitrary: n)
  case 0
  then show ?case by simp
next
  case (Suc k)
  show ?case
  proof (cases "n < 10")
    case True
    then show ?thesis by (simp add: show_nat.simps [of n])
  next
    case False
    then have "0 < k" using Suc.prems by (cases k) auto
    moreover have "n div 10 < 10 ^ k" using Suc.prems by (simp add: div_less_iff_less_mult mult.commute)
    ultimately have "length (show_nat (n div 10)) \<le> k" by (intro Suc.IH)
    with False show ?thesis by (simp add: show_nat.simps [of n])
  qed
qed

lemma length_show_port: "length (show_nat (unat (p :: u16))) \<le> 5"
proof -
  have "unat p < 2 ^ 16" using unsigned_less [of p, where ?'a = nat] by simp
  then have "unat p < 10 ^ 5" by simp
  then show ?thesis by (rule length_show_nat_less) simp
qed

lemma override_own_transport:
  "url_transport_override (a @ '';transport='' @ vox_transport_str t) d =
     (t, outbound_default_port t)" if "CHR '';'' \<notin> set a"
proof -
  have "strstr '';transport='' (a @ '';transport='' @ vox_transport_str t) = Some (length a)"
    using strstr_first [OF that, of "''transport=''" "vox_transport_str t"] by simp
  then show ?thesis
    by (cases t)
      (simp_all add: url_transport_override_def vox_transport_str_def starts_with_ci_def lower_def
        tolower_def outbound_default_port_def)
qed

text \<open>The scheme and authority of an outbound URI, as the parser sees them.\<close>

lemma scheme_of_outbound:
  assumes "plain_host h"
  shows "url_scheme (''sip:'' @ h @ '':'' @ r) = (TP_UDP, 5060, h @ '':'' @ r)"
proof -
  have "\<not> starts_with ''//'' (h @ '':'' @ r)"
    using assms by (cases h) (auto simp: starts_with_def plain_host_def)
  then show ?thesis
    by (simp add: url_scheme_def starts_with_def skip_slashes_def)
qed

lemma authority_of_outbound:
  assumes "plain_host h"
  shows "authority_len (h @ '':'' @ show_nat n @ '';transport='' @ vox_transport_str t)
           = length h + 1 + length (show_nat n)"
proof -
  have "strchr (CHR ''/'') (h @ '':'' @ show_nat n @ '';transport='' @ vox_transport_str t) = None"
    using assms by (auto simp: plain_host_def)
  moreover have "CHR '';'' \<notin> set (h @ '':'' @ show_nat n)"
    using assms by (auto simp: plain_host_def)
  then have "strchr (CHR '';'') ((h @ '':'' @ show_nat n) @ CHR '';'' # ''transport='' @ vox_transport_str t)
               = Some (length (h @ '':'' @ show_nat n))"
    by (rule strchr_append_first)
  ultimately show ?thesis by (simp add: authority_len_def)
qed

lemma parse_outbound_text:
  assumes "plain_host h" and "length h < host_sz" and "p \<noteq> 0"
  shows "vox_parse_server_url L
           (Some (''sip:'' @ h @ '':'' @ show_nat (unat p) @ '';transport='' @ vox_transport_str t))
           host_sz path_sz = Inr (t, h, p, [])"
proof -
  let ?tail = "'';transport='' @ vox_transport_str t"
  let ?rest = "h @ '':'' @ show_nat (unat p) @ ?tail"
  have ov: "url_transport_override ?rest (TP_UDP, 5060) = (t, outbound_default_port t)"
    using override_own_transport [of "h @ '':'' @ show_nat (unat p)" t] assms(1)
    by (simp add: plain_host_def)
  have at: "memchr (CHR ''@'') (authority_len ?rest) ?rest = None"
    unfolding memchr_def authority_of_outbound [OF assms(1)]
    using assms(1) by (simp add: plain_host_def)
  have colon: "memchr (CHR '':'') (authority_len ?rest) ?rest = Some (length h)"
    unfolding memchr_def authority_of_outbound [OF assms(1)]
    using assms(1) by (simp add: plain_host_def)
  have path: "url_path L ?rest path_sz = []"
    using assms(1) by (simp add: url_path_def plain_host_def split: option.split)
  have port: "port_of (show_nat (unat p) @ ?tail) = p"
    by (rule port_of_show_nat) (simp add: is_digit_def)
  show ?thesis
    using scheme_of_outbound [OF assms(1)] ov at colon path port assms(2,3)
    by (simp add: vox_parse_server_url_def)
qed

lemma outbound_text_fits:
  assumes "length h < 256" and "280 \<le> buf_sz"
  shows "length (''sip:'' @ h @ '':'' @ show_nat (unat (p :: u16)) @ '';transport='' @ vox_transport_str t)
           < buf_sz"
proof -
  have "length (vox_transport_str t) \<le> 3" by (cases t) (simp_all add: vox_transport_str_def)
  with length_show_port [of p] assms show ?thesis by simp
qed

lemma default_port_nonzero [simp]: "outbound_default_port t \<noteq> 0"
  by (cases t) (simp_all add: outbound_default_port_def)

section \<open>Properties\<close>



lemma option_min: "host_sz > 0 \<Longrightarrow> (if host_sz \<le> c then host_sz - 1 else c) < (host_sz :: nat)"
  by auto

text \<open>
  C38: Bounds. Whatever the URL, \<open>vox_parse_server_url\<close> stores a host and a path that fit the
  caller's buffers with their terminator, and a port that is never 0: a missing, zero or
  unreadable port becomes the default of the transport.
\<close>

theorem parse_server_url_bounds:
  assumes "libre_laws L" and "0 < host_sz" and "0 < path_sz"
    and "vox_parse_server_url L (Some u) host_sz path_sz = Inr (t, h, p, path)"
  shows "length h < host_sz \<and> length path < path_sz \<and> p \<noteq> 0"
proof -
  obtain t0 dp0 rest0 where sch: "url_scheme u = (t0, dp0, rest0)" by (metis prod_cases3)
  have dp0: "dp0 \<noteq> 0" using sch by (auto simp: url_scheme_def split: if_splits)
  obtain t' dp where ov: "url_transport_override rest0 (t0, dp0) = (t', dp)" by fastforce
  have dp: "dp \<noteq> 0"
    using ov dp0 by (auto simp: url_transport_override_def Let_def split: option.splits if_splits)
  have "length (url_path L rest0 path_sz) < path_sz"
    using assms(1,3) by (auto simp: url_path_def Let_def libre_ncpy split: option.splits)
  then show ?thesis
    using assms(2,4) dp
    by (auto simp: vox_parse_server_url_def sch ov Let_def split: option.splits if_splits)
qed

theorem parse_server_url_bounds_witness:
  "\<exists>t h p path.
     vox_parse_server_url libre_ref (Some ''wss://pbx.example.com/ws'') 4 3 = Inr (t, h, p, path) \<and>
     length h < 4 \<and> length path < 3 \<and> p \<noteq> 0"
proof -
  have "vox_parse_server_url libre_ref (Some ''wss://pbx.example.com/ws'') 4 3
          = Inr (TP_WSS, ''pbx'', 443, ''/w'')"
    by code_simp
  with parse_server_url_bounds [OF libre_ref_laws, of 4 3 "''wss://pbx.example.com/ws''"]
  show ?thesis by fastforce
qed

end
