(* ===== verification/Vox_Dns.thy ===== *)
theory Vox_Dns
  imports Vox_Transport "HOL-Library.Multiset"
begin

text \<open>
  \<^verbatim>\<open>src/dns.c\<close>: RFC 3263 server location. One lookup is a state machine on the re_main
  thread: the NAPTR answer starts SRV queries, every SRV answer adds targets, the last one
  sorts them and calls the completion handler. The DNS client itself (\<open>dnsc_query\<close>) is
  libre's: whether a query could be started is an input of the step that starts it, and the
  answers, in whatever order they arrive, are inputs of the handlers.
\<close>

section \<open>Data\<close>

record dns_target =
  tg_transport :: transport
  tg_host :: string
  tg_port :: u16
  tg_priority :: u16
  tg_weight :: u16

record dns_result =
  res_targets :: "dns_target list"
  res_err :: "errno option"

record srv_slot =
  sl_name :: string
  sl_transport :: transport

record dns_lookup =
  lk_domain :: string
  lk_transport_hint :: transport
  lk_port_hint :: u16
  lk_pending :: int
  lk_done :: bool
  lk_result :: dns_result
  lk_srv :: "srv_slot list"

definition MAX_TARGETS :: nat where "MAX_TARGETS = 16"
definition MAX_SRV :: nat where "MAX_SRV = 8"

text \<open>Resource records as the handlers read them.\<close>

datatype dnsrr =
    RR_SRV string u16 u16 u16
  | RR_NAPTR cptr cptr string
  | RR_OTHER

datatype dns_eff =
    QueryNaptr string
  | QuerySrv string transport
  | DoneH dns_result
  | FreeLookup

text \<open>What starting one SRV query comes to: no memory for its context, refused, in flight.\<close>

datatype launch = L_NOMEM | L_REFUSED | L_OK

section \<open>Operations\<close>

definition transport_from_naptr_service :: "libre \<Rightarrow> cptr \<Rightarrow> transport option" where
  "transport_from_naptr_service L svc =
     (case svc of
        None \<Rightarrow> None
      | Some s \<Rightarrow>
          if lb_casecmp L s ''SIPS+D2T'' = 0 then Some TP_TLS
          else if lb_casecmp L s ''SIP+D2T'' = 0 then Some TP_TCP
          else if lb_casecmp L s ''SIP+D2U'' = 0 then Some TP_UDP
          else if lb_casecmp L s ''SIPS+D2W'' = 0 then Some TP_WSS
          else if lb_casecmp L s ''SIP+D2W'' = 0 then Some TP_WS
          else None)"

definition default_port_for_transport :: "transport \<Rightarrow> u16" where
  "default_port_for_transport t =
     (case t of TP_TLS \<Rightarrow> 5061 | TP_WS \<Rightarrow> 80 | TP_WSS \<Rightarrow> 443 | _ \<Rightarrow> 5060)"

definition srv_prefix_for_transport :: "transport \<Rightarrow> string" where
  "srv_prefix_for_transport t =
     (case t of TP_TLS \<Rightarrow> ''_sips._tcp.'' | TP_TCP \<Rightarrow> ''_sip._tcp.'' | TP_WS \<Rightarrow> ''_sip._tcp.''
      | TP_WSS \<Rightarrow> ''_sips._tcp.'' | TP_UDP \<Rightarrow> ''_sip._udp.'')"

definition add_result ::
  "libre \<Rightarrow> transport \<Rightarrow> string \<Rightarrow> u16 \<Rightarrow> u16 \<Rightarrow> u16 \<Rightarrow> dns_lookup \<Rightarrow> dns_lookup" where
  "add_result L t host port pri weight lk =
     (if MAX_TARGETS \<le> length (res_targets (lk_result lk)) then lk
      else lk\<lparr>lk_result := (lk_result lk)\<lparr>res_targets := res_targets (lk_result lk) @
             [\<lparr>tg_transport = t, tg_host = lb_ncpy L 256 host, tg_port = port,
               tg_priority = pri, tg_weight = weight\<rparr>]\<rparr>\<rparr>)"

text \<open>The condition of the sort's inner loop: the entry before must move behind \<open>tmp\<close>.\<close>

definition must_shift :: "dns_target \<Rightarrow> dns_target \<Rightarrow> bool" where
  "must_shift prev tmp \<longleftrightarrow>
     tg_priority prev > tg_priority tmp \<or>
     (tg_priority prev = tg_priority tmp \<and> tg_weight prev < tg_weight tmp)"

text \<open>The inner loop: shift entries one up while they sort behind \<open>tmp\<close>, then store \<open>tmp\<close>.\<close>

fun sort_inner :: "dns_target list \<Rightarrow> dns_target \<Rightarrow> nat \<Rightarrow> dns_target list" where
  "sort_inner ts tmp 0 = ts[0 := tmp]"
| "sort_inner ts tmp (Suc j) =
     (if must_shift (ts ! j) tmp then sort_inner (ts[Suc j := ts ! j]) tmp j
      else ts[Suc j := tmp])"

fun sort_outer :: "nat list \<Rightarrow> dns_target list \<Rightarrow> dns_target list" where
  "sort_outer [] ts = ts"
| "sort_outer (i # is) ts = sort_outer is (sort_inner ts (ts ! i) i)"

definition sort_targets :: "dns_target list \<Rightarrow> dns_target list" where
  "sort_targets ts = sort_outer [1..<length ts] ts"

definition lookup_finish :: "(dns_lookup, dns_eff) act" where
  "lookup_finish lk =
     (if lk_done lk then (lk, [])
      else
        (let lk1 = lk\<lparr>lk_done := True\<rparr>;
             r = lk_result lk1;
             r' = (if res_targets r = [] then r\<lparr>res_err := Some ENOENT\<rparr>
                   else r\<lparr>res_targets := sort_targets (res_targets r)\<rparr>)
         in (lk1\<lparr>lk_result := r'\<rparr>, [DoneH r', FreeLookup])))"

text \<open>
  The SRV handler. Its answer section is NULL or an error (\<open>None\<close>), or a list of records;
  records of another type and the \<open>"."\<close> target are skipped.
\<close>

fun srv_answers :: "libre \<Rightarrow> transport \<Rightarrow> dnsrr list \<Rightarrow> bool \<times> dns_lookup \<Rightarrow> bool \<times> dns_lookup" where
  "srv_answers L t [] acc = acc"
| "srv_answers L t (RR_SRV target port pri weight # rrs) (found, lk) =
     (if target = ''.'' then srv_answers L t rrs (found, lk)
      else srv_answers L t rrs (True, add_result L t target port pri weight lk))"
| "srv_answers L t (_ # rrs) acc = srv_answers L t rrs acc"

definition srv_handler ::
  "libre \<Rightarrow> transport \<Rightarrow> dnsrr list option \<Rightarrow> (dns_lookup, dns_eff) act" where
  "srv_handler L t ans lk =
     (let (found, lk1) = (case ans of None \<Rightarrow> (False, lk) | Some rrs \<Rightarrow> srv_answers L t rrs (False, lk));
          lk2 = (if found then lk1
                 else add_result L t (lk_domain lk1) (default_port_for_transport t) 0 0 lk1);
          lk3 = lk2\<lparr>lk_pending := lk_pending lk2 - 1\<rparr>
      in if lk_pending lk3 = 0 then lookup_finish lk3 else (lk3, []))"

text \<open>The NAPTR records that name an SRV service, at most \<open>MAX_SRV\<close> of them.\<close>

fun naptr_answers :: "libre \<Rightarrow> dnsrr list \<Rightarrow> bool \<times> dns_lookup \<Rightarrow> bool \<times> dns_lookup" where
  "naptr_answers L [] acc = acc"
| "naptr_answers L (RR_NAPTR flags svc repl # rrs) (found, lk) =
     (if flags = None \<or> lb_casecmp L (the flags) ''S'' \<noteq> 0 then naptr_answers L rrs (found, lk)
      else case transport_from_naptr_service L svc of
        None \<Rightarrow> naptr_answers L rrs (found, lk)
      | Some t \<Rightarrow>
          if MAX_SRV \<le> length (lk_srv lk) then (found, lk)
          else naptr_answers L rrs
            (True, lk\<lparr>lk_srv := lk_srv lk @ [\<lparr>sl_name = lb_ncpy L 256 repl, sl_transport = t\<rparr>]\<rparr>))"
| "naptr_answers L (_ # rrs) acc = naptr_answers L rrs acc"

text \<open>
  The loop of \<open>start_srv_queries\<close> over the slots: \<open>pending\<close> counts the queries in flight,
  the result the ones launched.
\<close>

fun launch_srv :: "(srv_slot \<times> launch) list \<Rightarrow> nat \<Rightarrow> dns_lookup \<Rightarrow> nat \<times> dns_lookup \<times> dns_eff list" where
  "launch_srv [] n lk = (n, lk, [])"
| "launch_srv ((sl, r) # ss) n lk =
     (case r of
        L_NOMEM \<Rightarrow> launch_srv ss n lk
      | L_REFUSED \<Rightarrow>
          (case launch_srv ss n (lk\<lparr>lk_pending := lk_pending lk + 1 - 1\<rparr>) of
             (n', lk', es) \<Rightarrow> (n', lk', QuerySrv (sl_name sl) (sl_transport sl) # es))
      | L_OK \<Rightarrow>
          (case launch_srv ss (Suc n) (lk\<lparr>lk_pending := lk_pending lk + 1\<rparr>) of
             (n', lk', es) \<Rightarrow> (n', lk', QuerySrv (sl_name sl) (sl_transport sl) # es)))"

definition start_srv_queries :: "libre \<Rightarrow> (nat \<Rightarrow> launch) \<Rightarrow> (dns_lookup, dns_eff) act" where
  "start_srv_queries L lr lk =
     (case launch_srv (zip (lk_srv lk) (map lr [0..<length (lk_srv lk)])) 0 lk of
        (launched, lk1, es) \<Rightarrow>
          if launched = 0 then
            (let lk2 = add_result L (lk_transport_hint lk1) (lk_domain lk1)
                   (if lk_port_hint lk1 \<noteq> 0 then lk_port_hint lk1
                    else default_port_for_transport (lk_transport_hint lk1)) 0 0 lk1
             in if lk_pending lk2 = 0
                then (case lookup_finish lk2 of (lk3, es') \<Rightarrow> (lk3, es @ es'))
                else (lk2, es))
          else (lk1, es))"

definition naptr_handler ::
  "libre \<Rightarrow> (nat \<Rightarrow> launch) \<Rightarrow> dnsrr list option \<Rightarrow> (dns_lookup, dns_eff) act" where
  "naptr_handler L lr ans lk =
     (let (found, lk1) = (case ans of None \<Rightarrow> (False, lk) | Some rrs \<Rightarrow> naptr_answers L rrs (False, lk));
          lk2 = (if \<not> found \<and> length (lk_srv lk1) < MAX_SRV
                 then lk1\<lparr>lk_srv := lk_srv lk1 @
                   [\<lparr>sl_name = fst (lb_snprintf L 256
                        (srv_prefix_for_transport (lk_transport_hint lk1) @ lk_domain lk1)),
                     sl_transport = lk_transport_hint lk1\<rparr>]\<rparr>
                 else lk1);
          lk3 = lk2\<lparr>lk_pending := lk_pending lk2 - 1\<rparr>
      in start_srv_queries L lr lk3)"

text \<open>
  \<open>vox_dns_resolve\<close>: the error it returns at once, or the lookup it leaves behind (\<open>None\<close>
  when it completed synchronously) with its effects. The inputs are whether a DNS client
  exists, whether the lookup could be allocated and what starting the NAPTR query returned.
\<close>

definition vox_dns_resolve ::
  "libre \<Rightarrow> bool \<Rightarrow> bool \<Rightarrow> errno option \<Rightarrow> cptr \<Rightarrow> transport \<Rightarrow> u16 \<Rightarrow>
     errno + dns_lookup option \<times> dns_eff list" where
  "vox_dns_resolve L have_dnsc alloc_ok query_err domain hint port_hint =
     (case domain of
        None \<Rightarrow> Inl EINVAL
      | Some d \<Rightarrow>
          if \<not> have_dnsc then Inl ENOENT
          else if \<not> alloc_ok then Inl ENOMEM
          else
            (let lk = \<lparr>lk_domain = lb_ncpy L 256 d, lk_transport_hint = hint, lk_port_hint = port_hint,
                       lk_pending = 0, lk_done = False,
                       lk_result = \<lparr>res_targets = [], res_err = None\<rparr>, lk_srv = []\<rparr>
             in if port_hint \<noteq> 0 then
                  (let r = lk_result (add_result L hint d port_hint 0 0 lk)
                   in Inr (None, [DoneH r, FreeLookup]))
                else
                  (case query_err of
                     Some e \<Rightarrow> Inl e
                   | None \<Rightarrow> Inr (Some (lk\<lparr>lk_pending := 1\<rparr>), [QueryNaptr d]))))"

definition vox_dns_result_count :: "dns_result option \<Rightarrow> nat" where
  "vox_dns_result_count res = (case res of Some r \<Rightarrow> length (res_targets r) | None \<Rightarrow> 0)"

definition vox_dns_result_err :: "dns_result option \<Rightarrow> errno option" where
  "vox_dns_result_err res = (case res of Some r \<Rightarrow> res_err r | None \<Rightarrow> Some EINVAL)"

definition vox_dns_result_get ::
  "libre \<Rightarrow> dns_result option \<Rightarrow> nat \<Rightarrow> nat \<Rightarrow> errno + transport \<times> string \<times> u16" where
  "vox_dns_result_get L res idx host_sz =
     (case res of
        None \<Rightarrow> Inl EINVAL
      | Some r \<Rightarrow>
          if length (res_targets r) \<le> idx then Inl EINVAL
          else (let t = res_targets r ! idx
                in Inr (tg_transport t, lb_ncpy L host_sz (tg_host t), tg_port t)))"

section \<open>The sort\<close>

text \<open>
  The reference order of RFC 2782: lowest priority value first and, within one priority,
  highest weight first, as one number to compare.
\<close>

definition target_rank :: "dns_target \<Rightarrow> nat" where
  "target_rank t = unat (tg_priority t) * 65536 + (65535 - unat (tg_weight t))"

lemma must_shift_rank: "must_shift a b \<longleftrightarrow> target_rank b < target_rank a"
proof -
  have w: "unat (tg_weight x) < 65536" for x :: dns_target
    using unsigned_less [of "tg_weight x", where ?'a = nat] by simp
  show ?thesis
    using w [of a] w [of b]
    by (auto simp: must_shift_def target_rank_def word_less_nat_alt word_unat_eq_iff)
qed

lemma sort_inner_split:
  "\<exists>a b. xs = a @ b \<and> sort_inner (xs @ z # ys) tmp (length xs) = a @ tmp # b @ ys
     \<and> (\<forall>x \<in> set b. must_shift x tmp) \<and> (a \<noteq> [] \<longrightarrow> \<not> must_shift (last a) tmp)"
proof (induction xs arbitrary: z ys rule: rev_induct)
  case Nil
  show ?case by simp
next
  case (snoc x xs)
  show ?case
  proof (cases "must_shift x tmp")
    case True
    obtain a b where ab: "xs = a @ b" "sort_inner (xs @ x # x # ys) tmp (length xs) = a @ tmp # b @ x # ys"
      "\<forall>x \<in> set b. must_shift x tmp" "a \<noteq> [] \<longrightarrow> \<not> must_shift (last a) tmp"
      using snoc.IH [of x "x # ys"] by auto
    then show ?thesis
      using True by (intro exI [of _ a] exI [of _ "b @ [x]"]) (simp add: nth_append list_update_append)
  next
    case False
    then show ?thesis
      by (intro exI [of _ "xs @ [x]"] exI [of _ "[]"]) (simp add: nth_append list_update_append)
  qed
qed

lemma sort_outer_sort_key:
  "sorted (map target_rank S) \<Longrightarrow>
     sort_outer [length S..<length S + length R] (S @ R) = sort_key target_rank (S @ R)"
proof (induction R arbitrary: S)
  case Nil
  then show ?case by (simp add: sort_key_id_if_sorted)
next
  case (Cons r R)
  obtain a b where S: "S = a @ b"
    and si: "sort_inner (S @ r # R) r (length S) = a @ r # b @ R"
    and b: "\<forall>x \<in> set b. must_shift x r" and a: "a \<noteq> [] \<longrightarrow> \<not> must_shift (last a) r"
    using sort_inner_split [of S r R r] by auto
  let ?S = "a @ r # b"
  have "\<forall>x \<in> set a. target_rank x \<le> target_rank r"
  proof (cases a rule: rev_cases)
    case (snoc a' l)
    with a Cons.prems S show ?thesis by (fastforce simp: must_shift_rank sorted_append)
  qed simp
  with b Cons.prems S have sorted: "sorted (map target_rank ?S)"
    by (auto simp: must_shift_rank sorted_append order.strict_implies_order intro: order.trans)
  have filt: "filter (\<lambda>x. target_rank x = k) (?S @ R) = filter (\<lambda>x. target_rank x = k) (S @ r # R)" for k
  proof (cases "k = target_rank r")
    case True
    with b have "filter (\<lambda>x. target_rank x = k) b = []"
      by (auto simp: must_shift_rank filter_empty_conv)
    then show ?thesis by (simp add: S)
  next
    case False
    then show ?thesis by (simp add: S)
  qed
  have "sort_key target_rank (S @ r # R) = sort_key target_rank (?S @ R)"
  proof (rule properties_for_sort_key)
    show "mset (sort_key target_rank (?S @ R)) = mset (S @ r # R)" by (simp add: S)
    show "filter (\<lambda>x. target_rank k = target_rank x) (sort_key target_rank (?S @ R))
            = filter (\<lambda>x. target_rank k = target_rank x) (S @ r # R)" for k
    proof -
      have sw: "(\<lambda>x. target_rank k = target_rank x) = (\<lambda>x. target_rank x = target_rank k)" by auto
      show ?thesis unfolding sw sort_key_stable by (rule filt)
    qed
  qed simp
  moreover have "[length S..<length S + length (r # R)] = length S # [length ?S..<length ?S + length R]"
    by (simp add: S upt_rec [of "length a + length b"] del: upt_Suc)
  ultimately show ?case
    using si Cons.IH [OF sorted] by simp
qed

lemma sort_targets_sort_key: "sort_targets ts = sort_key target_rank ts"
proof (cases ts)
  case Nil
  then show ?thesis by (simp add: sort_targets_def)
next
  case (Cons t ts')
  then show ?thesis
    using sort_outer_sort_key [of "[t]" ts'] by (simp add: sort_targets_def)
qed

text \<open>
  C36: The in-place insertion sort of \<open>sort_targets\<close> computes the stable sort by the RFC 2782
  order: the result is a permutation of the answers, lowest priority value first, highest
  weight first within one priority, and targets with equal priority and weight stay in the
  order in which the answers arrived.
\<close>

theorem sort_targets_correct:
  "mset (sort_targets ts) = mset ts \<and>
   sorted_wrt (\<lambda>a b. tg_priority a < tg_priority b \<or>
     (tg_priority a = tg_priority b \<and> tg_weight a \<ge> tg_weight b)) (sort_targets ts) \<and>
   filter (\<lambda>x. tg_priority x = p \<and> tg_weight x = w) (sort_targets ts)
     = filter (\<lambda>x. tg_priority x = p \<and> tg_weight x = w) ts"
proof -
  let ?R = "\<lambda>a b. tg_priority a < tg_priority b \<or>
     (tg_priority a = tg_priority b \<and> tg_weight a \<ge> tg_weight b)"
  have rel: "?R a b \<longleftrightarrow> target_rank a \<le> target_rank b" for a b
    using must_shift_rank [of a b] by (auto simp: must_shift_def not_less)
  let ?k = "target_rank \<lparr>tg_transport = TP_UDP, tg_host = [], tg_port = 0,
                        tg_priority = p, tg_weight = w\<rparr>"
  have "(tg_priority x = p \<and> tg_weight x = w) \<longleftrightarrow> target_rank x = ?k" for x
    using rel [of x "\<lparr>tg_transport = TP_UDP, tg_host = [], tg_port = 0, tg_priority = p, tg_weight = w\<rparr>"]
      rel [of "\<lparr>tg_transport = TP_UDP, tg_host = [], tg_port = 0, tg_priority = p, tg_weight = w\<rparr>" x]
    by auto
  then have "filter (\<lambda>x. tg_priority x = p \<and> tg_weight x = w) (sort_targets ts)
     = filter (\<lambda>x. tg_priority x = p \<and> tg_weight x = w) ts"
    by (simp add: sort_targets_sort_key sort_key_stable)
  moreover have "sorted_wrt ?R (sort_targets ts)"
    using sorted_sort_key [of target_rank ts]
    by (simp add: sort_targets_sort_key sorted_wrt_map rel)
  ultimately show ?thesis by (simp add: sort_targets_sort_key)
qed

section \<open>The lookup protocol\<close>

definition done_count :: "dns_eff list \<Rightarrow> nat" where
  "done_count es = length (filter (\<lambda>e. case e of DoneH _ \<Rightarrow> True | _ \<Rightarrow> False) es)"

lemma done_count_simps [simp]:
  "done_count [] = 0" "done_count (es @ es') = done_count es + done_count es'"
  "done_count (DoneH r # es) = Suc (done_count es)" "done_count (FreeLookup # es) = done_count es"
  "done_count (QuerySrv n t # es) = done_count es" "done_count (QueryNaptr n # es) = done_count es"
  by (simp_all add: done_count_def)

text \<open>A lookup in flight: not finished, no error yet, at most \<open>MAX_TARGETS\<close> targets.\<close>

definition lk_live :: "dns_lookup \<Rightarrow> bool" where
  "lk_live lk \<longleftrightarrow> \<not> lk_done lk \<and> res_err (lk_result lk) = None
      \<and> length (res_targets (lk_result lk)) \<le> MAX_TARGETS"

definition lk_ntargets :: "dns_lookup \<Rightarrow> nat" where
  "lk_ntargets lk = length (res_targets (lk_result lk))"

text \<open>What the completion handler is given: something to try, ordered, and no error.\<close>

definition good_result :: "dns_result \<Rightarrow> bool" where
  "good_result r \<longleftrightarrow> res_err r = None \<and> res_targets r \<noteq> [] \<and> length (res_targets r) \<le> MAX_TARGETS
     \<and> sorted (map target_rank (res_targets r))"

lemma add_result_frame [simp]:
  "lk_pending (add_result L t h p pri w lk) = lk_pending lk"
  "lk_done (add_result L t h p pri w lk) = lk_done lk"
  "res_err (lk_result (add_result L t h p pri w lk)) = res_err (lk_result lk)"
  "lk_srv (add_result L t h p pri w lk) = lk_srv lk"
  "lk_domain (add_result L t h p pri w lk) = lk_domain lk"
  by (simp_all add: add_result_def)

lemma add_result_live [simp]: "lk_live lk \<Longrightarrow> lk_live (add_result L t h p pri w lk)"
  by (auto simp: lk_live_def add_result_def MAX_TARGETS_def)

lemma add_result_nonempty [simp]: "0 < lk_ntargets (add_result L t h p pri w lk)"
  by (auto simp: lk_ntargets_def add_result_def MAX_TARGETS_def)

lemma srv_answers_frame:
  "srv_answers L t rrs (found, lk) = (found', lk') \<Longrightarrow>
     lk_pending lk' = lk_pending lk \<and> (lk_live lk \<longrightarrow> lk_live lk') \<and>
     ((found \<longrightarrow> 0 < lk_ntargets lk) \<longrightarrow> found' \<longrightarrow> 0 < lk_ntargets lk')"
  by (induction L t rrs "(found, lk)" arbitrary: found lk found' lk' rule: srv_answers.induct)
    (auto split: if_splits)

lemma sort_key_Nil_iff [simp]: "sort_key f xs = [] \<longleftrightarrow> xs = []"
  by (metis length_0_conv length_sort)

lemma finish_live:
  assumes "lk_live lk" and "0 < lk_ntargets lk"
  shows "\<exists>r. snd (lookup_finish lk) = [DoneH r, FreeLookup] \<and> good_result r
    \<and> lk_pending (fst (lookup_finish lk)) = lk_pending lk"
  using assms
  by (auto simp: lookup_finish_def Let_def lk_live_def lk_ntargets_def good_result_def
      sort_targets_sort_key)

lemma lk_pending_update_frame [simp]:
  "lk_live (lk\<lparr>lk_pending := n\<rparr>) = lk_live lk" "lk_ntargets (lk\<lparr>lk_pending := n\<rparr>) = lk_ntargets lk"
  "lk_live (lk\<lparr>lk_srv := ss\<rparr>) = lk_live lk"
  by (simp_all add: lk_live_def lk_ntargets_def)

text \<open>One SRV answer: one query fewer in flight; the last one completes the lookup.\<close>

lemma srv_handler_step:
  assumes "lk_live lk"
  shows "if lk_pending lk = 1
         then \<exists>r. snd (srv_handler L t ans lk) = [DoneH r, FreeLookup] \<and> good_result r
         else snd (srv_handler L t ans lk) = [] \<and> lk_live (fst (srv_handler L t ans lk))
           \<and> lk_pending (fst (srv_handler L t ans lk)) = lk_pending lk - 1"
proof -
  obtain found lk1 where a: "(case ans of None \<Rightarrow> (False, lk) | Some rrs \<Rightarrow> srv_answers L t rrs (False, lk)) = (found, lk1)"
    by fastforce
  let ?lk2 = "if found then lk1 else add_result L t (lk_domain lk1) (default_port_for_transport t) 0 0 lk1"
  let ?lk3 = "?lk2\<lparr>lk_pending := lk_pending ?lk2 - 1\<rparr>"
  have "lk_pending lk1 = lk_pending lk \<and> lk_live lk1 \<and> (found \<longrightarrow> 0 < lk_ntargets lk1)"
    using a assms srv_answers_frame by (cases ans) fastforce+
  then have l2: "lk_pending ?lk3 = lk_pending lk - 1" "lk_live ?lk3" "0 < lk_ntargets ?lk3"
    by auto
  have eq: "srv_handler L t ans lk = (if lk_pending ?lk3 = 0 then lookup_finish ?lk3 else (?lk3, []))"
    by (simp add: srv_handler_def a Let_def)
  show ?thesis
  proof (cases "lk_pending lk = 1")
    case True
    then show ?thesis using finish_live [OF l2(2,3)] l2(1) eq by auto
  next
    case False
    then have "lk_pending ?lk3 \<noteq> 0" using l2(1) by simp
    with eq have "srv_handler L t ans lk = (?lk3, [])" by simp
    with False l2 show ?thesis by simp
  qed
qed

text \<open>The SRV answers of one lookup, in the order they arrive.\<close>

definition srv_input :: "libre \<Rightarrow> transport \<times> dnsrr list option \<Rightarrow> (dns_lookup, dns_eff) act" where
  "srv_input L i = srv_handler L (fst i) (snd i)"

lemma srv_run:
  assumes "lk_live lk" and "lk_pending lk = int (length as)" and "as \<noteq> []"
  shows "\<exists>r. snd (run_acts (srv_input L) as lk) = [DoneH r, FreeLookup] \<and> good_result r"
  using assms
proof (induction "as" arbitrary: lk)
  case Nil
  then show ?case by simp
next
  case (Cons a "as")
  show ?case
  proof (cases "as = []")
    case True
    with Cons.prems srv_handler_step [of lk L "fst a" "snd a"] show ?thesis
      by (auto simp: srv_input_def)
  next
    case False
    then have "lk_pending lk \<noteq> 1" using Cons.prems(2) by (cases "as") auto
    with srv_handler_step [OF Cons.prems(1), of L "fst a" "snd a"] Cons.prems(2)
    have st: "snd (srv_input L a lk) = []" "lk_live (fst (srv_input L a lk))"
      "lk_pending (fst (srv_input L a lk)) = int (length as)"
      by (simp_all add: srv_input_def)
    from Cons.IH [OF st(2,3) False] show ?thesis by (auto simp: st(1))
  qed
qed

lemma launch_srv_pending:
  "launch_srv ss n lk = (n', lk', es) \<Longrightarrow>
     lk_pending lk' = lk_pending lk + int n' - int n \<and> done_count es = 0 \<and>
     (lk_live lk \<longrightarrow> lk_live lk') \<and> lk_transport_hint lk' = lk_transport_hint lk"
proof (induction ss arbitrary: n lk n' lk' es)
  case Nil
  then show ?case by simp
next
  case (Cons x ss)
  obtain sl r where x: "x = (sl, r)" by fastforce
  show ?case
  proof (cases r)
    case L_NOMEM
    with Cons.prems x Cons.IH show ?thesis by simp
  next
    case L_REFUSED
    obtain es' where "launch_srv ss n (lk\<lparr>lk_pending := lk_pending lk + 1 - 1\<rparr>) = (n', lk', es')"
      "es = QuerySrv (sl_name sl) (sl_transport sl) # es'"
      using Cons.prems x L_REFUSED by (auto split: prod.splits)
    with Cons.IH [of n _ n' lk' es'] show ?thesis by fastforce
  next
    case L_OK
    obtain es' where "launch_srv ss (Suc n) (lk\<lparr>lk_pending := lk_pending lk + 1\<rparr>) = (n', lk', es')"
      "es = QuerySrv (sl_name sl) (sl_transport sl) # es'"
      using Cons.prems x L_OK by (auto split: prod.splits)
    with Cons.IH [of "Suc n" _ n' lk' es'] show ?thesis by fastforce
  qed
qed

lemma naptr_answers_frame:
  "naptr_answers L rrs (found, lk) = (found', lk') \<Longrightarrow>
     lk_pending lk' = lk_pending lk \<and> (lk_live lk \<longrightarrow> lk_live lk')"
  by (induction L rrs "(found, lk)" arbitrary: found lk found' lk' rule: naptr_answers.induct)
    (auto split: if_splits option.splits)

lemma naptr_handler_step:
  assumes "lk_live lk" and "lk_pending lk = 1"
  obtains (sync) es r where "snd (naptr_handler L lr ans lk) = es @ [DoneH r, FreeLookup]"
      "done_count es = 0" "good_result r" "lk_pending (fst (naptr_handler L lr ans lk)) = 0"
  | (async) n where "0 < n" "lk_pending (fst (naptr_handler L lr ans lk)) = int n"
      "lk_live (fst (naptr_handler L lr ans lk))" "done_count (snd (naptr_handler L lr ans lk)) = 0"
proof -
  obtain found lk1 where a: "(case ans of None \<Rightarrow> (False, lk) | Some rrs \<Rightarrow> naptr_answers L rrs (False, lk)) = (found, lk1)"
    by fastforce
  have l1: "lk_pending lk1 = 1 \<and> lk_live lk1"
    using a assms naptr_answers_frame by (cases ans) fastforce+
  define lk2 where "lk2 = (if \<not> found \<and> length (lk_srv lk1) < MAX_SRV
                 then lk1\<lparr>lk_srv := lk_srv lk1 @
                   [\<lparr>sl_name = fst (lb_snprintf L 256
                        (srv_prefix_for_transport (lk_transport_hint lk1) @ lk_domain lk1)),
                     sl_transport = lk_transport_hint lk1\<rparr>]\<rparr>
                 else lk1)"
  let ?lk3 = "lk2\<lparr>lk_pending := lk_pending lk2 - 1\<rparr>"
  have l3: "lk_pending ?lk3 = 0" "lk_live ?lk3" using l1 by (auto simp: lk2_def)
  have nh: "naptr_handler L lr ans lk = start_srv_queries L lr ?lk3"
    by (simp add: naptr_handler_def a Let_def lk2_def)
  obtain n lk4 es where la: "launch_srv (zip (lk_srv ?lk3) (map lr [0..<length (lk_srv ?lk3)])) 0 ?lk3 = (n, lk4, es)"
    by (metis prod_cases3)
  from launch_srv_pending [OF la] l3
  have l4: "lk_pending lk4 = int n" "done_count es = 0" "lk_live lk4" by auto
  show ?thesis
  proof (cases "n = 0")
    case True
    let ?lk5 = "add_result L (lk_transport_hint lk4) (lk_domain lk4)
                   (if lk_port_hint lk4 \<noteq> 0 then lk_port_hint lk4
                    else default_port_for_transport (lk_transport_hint lk4)) 0 0 lk4"
    have "naptr_handler L lr ans lk = (case lookup_finish ?lk5 of (lk6, es') \<Rightarrow> (lk6, es @ es'))"
      using la l4(1) True by (simp add: nh start_srv_queries_def Let_def)
    moreover have "lk_live ?lk5" "0 < lk_ntargets ?lk5" "lk_pending ?lk5 = 0"
      using l4(1,3) True by simp_all
    ultimately show ?thesis
      using finish_live [of ?lk5] l4(2) sync by (fastforce split: prod.splits)
  next
    case False
    then have "naptr_handler L lr ans lk = (lk4, es)"
      using la by (simp add: nh start_srv_queries_def)
    with False l4 async show ?thesis by auto
  qed
qed

section \<open>Properties of a lookup\<close>

lemma resolve_live:
  assumes "vox_dns_resolve L have_dnsc alloc_ok query_err domain hint port_hint = Inr (Some lk, es)"
  shows "lk_live lk \<and> lk_pending lk = 1"
  using assms
  by (auto simp: vox_dns_resolve_def lk_live_def Let_def split: option.splits if_splits)

text \<open>
  C20: A lookup that \<open>vox_dns_resolve\<close> started completes exactly once. Whatever the NAPTR
  answer is, whichever SRV queries can be launched, and in whatever order and with whatever
  contents their answers come, once each query in flight has been answered the completion
  handler has been called exactly once, with no error and a non-empty list of at most 16
  targets in the RFC 2782 order.
\<close>

theorem dns_lookup_completes:
  assumes "vox_dns_resolve L have_dnsc alloc_ok query_err domain hint port_hint = Inr (Some lk, es0)"
    and "naptr_handler L lr ans lk = (lk1, es1)"
    and "lk_pending lk1 = int (length srv)"
    and "snd (run_acts (srv_input L) srv lk1) = es2"
  shows "done_count (es1 @ es2) = 1 \<and> (\<exists>r. DoneH r \<in> set (es1 @ es2) \<and> good_result r)"
proof -
  have live: "lk_live lk" "lk_pending lk = 1" using resolve_live [OF assms(1)] by auto
  show ?thesis
  proof (rule naptr_handler_step [OF live, of L lr ans])
    fix es r
    assume "snd (naptr_handler L lr ans lk) = es @ [DoneH r, FreeLookup]" "done_count es = 0"
      "good_result r" "lk_pending (fst (naptr_handler L lr ans lk)) = 0"
    with assms(2-4) show ?thesis by auto
  next
    fix n
    assume "0 < n" "lk_pending (fst (naptr_handler L lr ans lk)) = int n"
      "lk_live (fst (naptr_handler L lr ans lk))" "done_count (snd (naptr_handler L lr ans lk)) = 0"
    with assms(2-4) srv_run [of lk1 srv L] show ?thesis by fastforce
  qed
qed

definition sample_lookup :: dns_lookup where
  "sample_lookup = \<lparr>lk_domain = ''example.com'', lk_transport_hint = TP_UDP, lk_port_hint = 0,
     lk_pending = 1, lk_done = False, lk_result = \<lparr>res_targets = [], res_err = None\<rparr>, lk_srv = []\<rparr>"

definition sample_naptr :: "dnsrr list" where
  "sample_naptr = [RR_NAPTR (Some ''s'') (Some ''SIPS+D2T'') ''_sips._tcp.example.com'',
                   RR_NAPTR (Some ''S'') (Some ''SIP+D2U'') ''_sip._udp.example.com'']"

definition sample_srv :: "(transport \<times> dnsrr list option) list" where
  "sample_srv = [(TP_UDP, Some [RR_SRV ''b.example.com'' 5060 20 0, RR_SRV ''a.example.com'' 5060 10 0]),
                 (TP_TLS, None)]"

theorem dns_lookup_completes_witness:
  "\<exists>es1 es2. done_count (es1 @ es2) = 1 \<and> (\<exists>r. DoneH r \<in> set (es1 @ es2) \<and> good_result r)
     \<and> es2 = snd (run_acts (srv_input libre_ref) sample_srv
                (fst (naptr_handler libre_ref (\<lambda>_. L_OK) (Some sample_naptr) sample_lookup)))"
proof -
  have a: "vox_dns_resolve libre_ref True True None (Some ''example.com'') TP_UDP 0
             = Inr (Some sample_lookup, [QueryNaptr ''example.com''])"
    by code_simp
  have b: "lk_pending (fst (naptr_handler libre_ref (\<lambda>_. L_OK) (Some sample_naptr) sample_lookup))
             = int (length sample_srv)"
    by code_simp
  show ?thesis
    using dns_lookup_completes [OF a prod.collapse [symmetric] b refl] by blast
qed

text \<open>
  The synchronous path and its errors. A NULL domain is EINVAL, a missing DNS client ENOENT
  and a failed allocation ENOMEM, with no effect; with an explicit port the lookup does no DNS
  at all and completes at once with exactly the domain, transport and port it was given.
\<close>

theorem dns_resolve_explicit_port:
  assumes "libre_laws L" and "length d < 256" and "p \<noteq> 0"
  shows "vox_dns_resolve L True True q (Some d) t p
           = Inr (None, [DoneH \<lparr>res_targets = [\<lparr>tg_transport = t, tg_host = d, tg_port = p,
                tg_priority = 0, tg_weight = 0\<rparr>], res_err = None\<rparr>, FreeLookup])
       \<and> vox_dns_resolve L c a q None t p = Inl EINVAL
       \<and> vox_dns_resolve L False a q (Some d) t p = Inl ENOENT
       \<and> vox_dns_resolve L True False q (Some d) t p = Inl ENOMEM"
  using assms by (simp add: vox_dns_resolve_def add_result_def MAX_TARGETS_def libre_ncpy_fits)

theorem dns_resolve_explicit_port_witness:
  "vox_dns_resolve libre_ref True True None (Some ''pbx.example.com'') TP_TLS 5071
     = Inr (None, [DoneH \<lparr>res_targets = [\<lparr>tg_transport = TP_TLS, tg_host = ''pbx.example.com'',
          tg_port = 5071, tg_priority = 0, tg_weight = 0\<rparr>], res_err = None\<rparr>, FreeLookup])"
  using dns_resolve_explicit_port [OF libre_ref_laws, of "''pbx.example.com''" 5071 None TP_TLS True True]
  by simp

end
