(* ===== verification/Vox_Ws.thy ===== *)
theory Vox_Ws
  imports Vox_Transport "HOL-Library.Multiset"
begin

text \<open>
  \<^verbatim>\<open>src/ws_path.c\<close>: the registry of WebSocket servers in use (reference-counted, four
  slots), the origin and path that outbound connects are pinned to, and the two interposed
  functions that read them: the connect wrapper and the in-dialog route override.
\<close>

section \<open>Data\<close>

record ws_server =
  ws_orig :: string
  ws_path :: string
  ws_refs :: u32
  ws_seq :: u64

definition ws_blank :: ws_server where
  "ws_blank = \<lparr>ws_orig = [], ws_path = [], ws_refs = 0, ws_seq = 0\<rparr>"

text \<open>The file's static state: the table, the sequence counter, the overflow flag and the pins.\<close>

record ws_reg =
  ws_srvv :: "ws_server list"
  ws_srv_seq :: u64
  ws_srv_overflow :: bool
  g_vox_ws_server :: string
  g_vox_ws_path :: string

definition VOX_WS_MAX_SERVERS :: nat where "VOX_WS_MAX_SERVERS = 4"

definition ws_reg_init :: ws_reg where
  "ws_reg_init = \<lparr>ws_srvv = replicate VOX_WS_MAX_SERVERS ws_blank, ws_srv_seq = 0,
     ws_srv_overflow = False, g_vox_ws_server = [], g_vox_ws_path = []\<rparr>"

section \<open>The registry\<close>

definition ws_origin :: "libre \<Rightarrow> nat \<Rightarrow> transport \<Rightarrow> string \<Rightarrow> u16 \<Rightarrow> string" where
  "ws_origin L sz tp host port =
     (let scheme = (if tp = TP_WSS then ''wss'' else ''ws'');
          h = (if CHR '':'' \<in> set host then ''['' @ host @ '']'' else host)
      in fst (lb_snprintf L sz (scheme @ ''://'' @ h @ '':'' @ show_nat (unat port))))"

fun find_index :: "('a \<Rightarrow> bool) \<Rightarrow> 'a list \<Rightarrow> nat option" where
  "find_index P [] = None"
| "find_index P (x # xs) = (if P x then Some 0 else map_option Suc (find_index P xs))"

definition ws_find :: "string \<Rightarrow> string \<Rightarrow> ws_server list \<Rightarrow> nat option" where
  "ws_find origin path srvv =
     find_index (\<lambda>e. ws_refs e \<noteq> 0 \<and> ws_orig e = origin \<and> ws_path e = path) srvv"

text \<open>One pass of \<open>ws_recompute\<close>'s loop: the first origin and path, and whether all agree.\<close>

record ws_scan =
  sc_origin :: cptr
  sc_path :: cptr
  sc_same_origin :: bool
  sc_same_path :: bool
  sc_n :: nat

definition ws_scan_step :: "ws_server \<Rightarrow> ws_scan \<Rightarrow> ws_scan" where
  "ws_scan_step e a =
     (if ws_refs e = 0 then a
      else a\<lparr>sc_n := Suc (sc_n a),
             sc_origin := Some (case sc_origin a of None \<Rightarrow> ws_orig e | Some x \<Rightarrow> x),
             sc_same_origin := (case sc_origin a of None \<Rightarrow> sc_same_origin a
                                | Some x \<Rightarrow> sc_same_origin a \<and> x = ws_orig e),
             sc_path := Some (case sc_path a of None \<Rightarrow> ws_path e | Some x \<Rightarrow> x),
             sc_same_path := (case sc_path a of None \<Rightarrow> sc_same_path a
                              | Some x \<Rightarrow> sc_same_path a \<and> x = ws_path e)\<rparr>)"

definition ws_scan_all :: "ws_server list \<Rightarrow> ws_scan" where
  "ws_scan_all srvv = fold ws_scan_step srvv
     \<lparr>sc_origin = None, sc_path = None, sc_same_origin = True, sc_same_path = True, sc_n = 0\<rparr>"

definition ws_recompute :: "libre \<Rightarrow> ws_reg \<Rightarrow> ws_reg" where
  "ws_recompute L r =
     (let a = ws_scan_all (ws_srvv r);
          srv = (if sc_n a \<noteq> 0 \<and> sc_same_origin a \<and> \<not> ws_srv_overflow r
                 then the (sc_origin a) else []);
          pth = (if sc_n a \<noteq> 0 \<and> sc_same_path a then the (sc_path a) else [])
      in r\<lparr>g_vox_ws_server := lb_ncpy L 288 srv, g_vox_ws_path := lb_ncpy L 256 pth,
           ws_srv_overflow := (if sc_n a = 0 then False else ws_srv_overflow r)\<rparr>)"

definition vox_ws_set_server ::
  "libre \<Rightarrow> transport \<Rightarrow> cptr \<Rightarrow> u16 \<Rightarrow> cptr \<Rightarrow> ws_reg \<Rightarrow> ws_reg" where
  "vox_ws_set_server L tp host port path r =
     (case host of
        None \<Rightarrow> r
      | Some h \<Rightarrow>
          if h = [] \<or> port = 0 then r
          else
            (let p = (case path of None \<Rightarrow> [] | Some x \<Rightarrow> x);
                 origin = ws_origin L 288 tp h port
             in case ws_find origin p (ws_srvv r) of
                  Some i \<Rightarrow>
                    ws_recompute L (r\<lparr>ws_srvv := (ws_srvv r)[i := (ws_srvv r ! i)\<lparr>ws_refs := ws_refs (ws_srvv r ! i) + 1\<rparr>]\<rparr>)
                | None \<Rightarrow>
                    (case find_index (\<lambda>e. ws_refs e = 0) (ws_srvv r) of
                       None \<Rightarrow> ws_recompute L (r\<lparr>ws_srv_overflow := True\<rparr>)
                     | Some i \<Rightarrow>
                         ws_recompute L (r\<lparr>ws_srv_seq := ws_srv_seq r + 1,
                           ws_srvv := (ws_srvv r)[i := \<lparr>ws_orig = lb_ncpy L 288 origin,
                             ws_path = lb_ncpy L 256 p, ws_refs = 1, ws_seq = ws_srv_seq r + 1\<rparr>]\<rparr>))))"

definition vox_ws_unset_server ::
  "libre \<Rightarrow> transport \<Rightarrow> cptr \<Rightarrow> u16 \<Rightarrow> cptr \<Rightarrow> ws_reg \<Rightarrow> ws_reg" where
  "vox_ws_unset_server L tp host port path r =
     (case host of
        None \<Rightarrow> r
      | Some h \<Rightarrow>
          if h = [] \<or> port = 0 then r
          else
            (let p = (case path of None \<Rightarrow> [] | Some x \<Rightarrow> x);
                 origin = ws_origin L 288 tp h port
             in case ws_find origin p (ws_srvv r) of
                  None \<Rightarrow> r
                | Some i \<Rightarrow>
                    (let n = ws_refs (ws_srvv r ! i) - 1;
                         e = (if n = 0 then ws_blank else (ws_srvv r ! i)\<lparr>ws_refs := n\<rparr>)
                     in ws_recompute L (r\<lparr>ws_srvv := (ws_srvv r)[i := e]\<rparr>))))"

definition ws_newest_step :: "ws_server \<Rightarrow> ws_server option \<Rightarrow> ws_server option" where
  "ws_newest_step e best =
     (if ws_refs e \<noteq> 0 \<and> (case best of None \<Rightarrow> True | Some b \<Rightarrow> ws_seq b < ws_seq e)
      then Some e else best)"

definition ws_newest :: "ws_reg \<Rightarrow> ws_server option" where
  "ws_newest r = (if ws_srv_overflow r then None else fold ws_newest_step (ws_srvv r) None)"

section \<open>The connect wrapper\<close>

definition ws_uri_origin :: "string \<Rightarrow> nat \<Rightarrow> string option" where
  "ws_uri_origin uri sz =
     (case strstr ''://'' uri of
        None \<Rightarrow> None
      | Some p \<Rightarrow>
          (let len = (case find_index (\<lambda>c. c = CHR ''/'' \<or> c = CHR ''?'') (drop (p + 3) uri) of
                        Some e \<Rightarrow> p + 3 + e | None \<Rightarrow> length uri)
           in if len = 0 \<or> sz \<le> len then None else Some (take len uri)))"

definition ws_uri_is_dead :: "libre \<Rightarrow> ws_reg \<Rightarrow> string \<Rightarrow> bool" where
  "ws_uri_is_dead L r uri =
     (case ws_uri_origin uri 288 of
        None \<Rightarrow> False
      | Some origin \<Rightarrow>
          if list_ex (\<lambda>e. ws_refs e \<noteq> 0 \<and> ws_orig e = origin) (ws_srvv r) then False
          else
            (let host0 = drop (the (strstr ''://'' origin) + 3) origin;
                 v6 = (host0 \<noteq> [] \<and> hd host0 = CHR ''['');
                 host = (if v6 then tl host0 else host0);
                 hlen = (case (if v6 then strchr (CHR '']'') host else strrchr (CHR '':'') host) of
                           Some e \<Rightarrow> e | None \<Rightarrow> length host);
                 hbuf = take hlen host
             in if hlen = 0 \<or> 256 \<le> hlen then False
                else if lb_casecmp L hbuf ''localhost'' = 0 then True
                else case lb_sa_set_str L hbuf of
                       None \<Rightarrow> False
                     | Some (loopback, any) \<Rightarrow> loopback \<or> any))"

text \<open>
  \<open>websock_connect\<close>, up to the call of libre's renamed function: the URI, the keepalive
  interval and the header format it passes on. The configuration fields it reads are
  arguments: \<open>ws_keepalive_ms\<close>, \<open>ws_origin\<close> and \<open>ws_extra_headers\<close>.
\<close>

definition ws_connect_uri :: "libre \<Rightarrow> ws_reg \<Rightarrow> cptr \<Rightarrow> cptr" where
  "ws_connect_uri L r uri =
     (if g_vox_ws_server r \<noteq> [] then
        (let path = (if g_vox_ws_path r \<noteq> [] then g_vox_ws_path r else ''/'');
             (patched, n) = lb_snprintf L 512 (g_vox_ws_server r @ path)
         in if 0 < n then Some patched else uri)
      else
        (case (case uri of Some u \<Rightarrow> if ws_uri_is_dead L r u then ws_newest r else None | None \<Rightarrow> None) of
           Some rescue \<Rightarrow>
             (let path = (if ws_path rescue \<noteq> [] then ws_path rescue else ''/'');
                  (patched, n) = lb_snprintf L 512 (ws_orig rescue @ path)
              in if 0 < n then Some patched else uri)
         | None \<Rightarrow>
             (if g_vox_ws_path r \<noteq> [] then
                (case uri of
                   None \<Rightarrow> uri
                 | Some u \<Rightarrow>
                     if u \<noteq> [] \<and> last u = CHR ''/'' then
                       (let (patched, n) = lb_snprintf L 512 (butlast u @ g_vox_ws_path r)
                        in if 0 < n then Some patched else uri)
                     else uri)
              else uri)))"

definition ws_append_extra :: "libre \<Rightarrow> string \<Rightarrow> string \<Rightarrow> string" where
  "ws_append_extra L text extra = extra @ fst (lb_snprintf L (1024 - length extra) text)"

definition crlf :: string where "crlf = [CHR 0x0D, CHR 0x0A]"

definition ws_connect_headers :: "libre \<Rightarrow> cptr \<Rightarrow> string list \<Rightarrow> string \<Rightarrow> string" where
  "ws_connect_headers L cfg_origin cfg_extra fmt =
     (let e0 = (case cfg_origin of
                  Some o' \<Rightarrow> if o' \<noteq> [] then ws_append_extra L (''Origin: '' @ o' @ crlf) [] else []
                | None \<Rightarrow> []);
          extra = fold (\<lambda>h e. ws_append_extra L (h @ crlf) e) cfg_extra e0
      in if extra \<noteq> [] then fst (lb_snprintf L 2048 (fmt @ extra)) else fmt)"

definition websock_connect ::
  "libre \<Rightarrow> ws_reg \<Rightarrow> u32 \<Rightarrow> cptr \<Rightarrow> string list \<Rightarrow> cptr \<Rightarrow> u32 \<Rightarrow> string \<Rightarrow> cptr \<times> u32 \<times> string" where
  "websock_connect L r keepalive_ms cfg_origin cfg_extra uri kaint fmt =
     (ws_connect_uri L r uri,
      if keepalive_ms \<noteq> 0 then keepalive_ms else kaint,
      ws_connect_headers L cfg_origin cfg_extra fmt)"

section \<open>The in-dialog route\<close>

text \<open>A decoded SIP URI, as far as the override reads it; \<open>uri_decode\<close> is libre's.\<close>

record sip_uri =
  su_host :: string
  su_port :: u16
  su_transport :: cptr

text \<open>The text of the substitute route built from the pinned server.\<close>

definition ws_route_text :: "libre \<Rightarrow> string \<Rightarrow> string option" where
  "ws_route_text L server =
     (if server = [] then None
      else
        (case (if starts_with ''wss://'' server then Some (''wss'', drop 6 server)
               else if starts_with ''ws://'' server then Some (''ws'', drop 5 server)
               else None) of
           None \<Rightarrow> None
         | Some (scheme, rest) \<Rightarrow>
             (case strrchr (CHR '':'') rest of
                None \<Rightarrow> None
              | Some c \<Rightarrow>
                  if c = 0 \<or> 256 \<le> c then None
                  else
                    (let port = (ucast (strtoul (drop (Suc c) rest)) :: u32);
                         (buf, n) = lb_snprintf L 352
                           (''sip:'' @ take c rest @ '':'' @ show_nat (unat port) @ '';transport='' @ scheme @ '';lr'')
                     in if port = 0 \<or> n < 0 then None else Some buf))))"

definition ws_route_is_websocket :: "libre \<Rightarrow> sip_uri \<Rightarrow> bool" where
  "ws_route_is_websocket L route =
     (case su_transport route of
        None \<Rightarrow> False
      | Some t \<Rightarrow> lb_casecmp L t ''ws'' = 0 \<or> lb_casecmp L t ''wss'' = 0)"

text \<open>
  \<open>vox_ws_route_override\<close>. The cache of the C code (\<open>s_route_ok\<close>, \<open>s_route_uri\<close>) is rebuilt
  whenever the cached host differs from the pinned server string, which carries a scheme and
  a port and so is never a bare host: the rebuild happens on every call, and the model
  rebuilds.
\<close>

definition vox_ws_route_override ::
  "libre \<Rightarrow> (string \<Rightarrow> sip_uri option) \<Rightarrow> ws_reg \<Rightarrow> sip_uri option \<Rightarrow> sip_uri option" where
  "vox_ws_route_override L uri_decode r route =
     (case route of
        None \<Rightarrow> None
      | Some rt \<Rightarrow>
          if g_vox_ws_server r = [] \<or> \<not> ws_route_is_websocket L rt then route
          else
            (case Option.bind (ws_route_text L (g_vox_ws_server r)) uri_decode of
               None \<Rightarrow> route
             | Some flow \<Rightarrow>
                 if su_host rt = su_host flow \<and> su_port rt = su_port flow then route
                 else Some flow))"

section \<open>The registry as a multiset of claims\<close>

subsection \<open>The interface\<close>

text \<open>
  What an owner of claims relies on: claiming adds one occurrence of the claim's key,
  releasing takes one away, and a well-formed registry stays well-formed. \<open>room\<close> says when a
  claim can be recorded.
\<close>

datatype 'c reg_op = Claim 'c | Release 'c

fun op_claim :: "'c reg_op \<Rightarrow> 'c" where
  "op_claim (Claim c) = c"
| "op_claim (Release c) = c"

fun op_effect :: "('c \<Rightarrow> 'k) \<Rightarrow> 'c reg_op \<Rightarrow> 'k multiset \<Rightarrow> 'k multiset" where
  "op_effect key (Claim c) m = add_mset (key c) m"
| "op_effect key (Release c) m = m - {#key c#}"

fun op_run :: "('c \<Rightarrow> 's \<Rightarrow> 's) \<Rightarrow> ('c \<Rightarrow> 's \<Rightarrow> 's) \<Rightarrow> 'c reg_op list \<Rightarrow> 's \<Rightarrow> 's" where
  "op_run add remove [] s = s"
| "op_run add remove (Claim c # ops) s = op_run add remove ops (add c s)"
| "op_run add remove (Release c # ops) s = op_run add remove ops (remove c s)"

fun op_room :: "('c \<Rightarrow> 's \<Rightarrow> 's) \<Rightarrow> ('c \<Rightarrow> 's \<Rightarrow> 's) \<Rightarrow> ('c \<Rightarrow> 's \<Rightarrow> bool) \<Rightarrow> 'c reg_op list \<Rightarrow> 's \<Rightarrow> bool" where
  "op_room add remove room [] s = True"
| "op_room add remove room (Claim c # ops) s = (room c s \<and> op_room add remove room ops (add c s))"
| "op_room add remove room (Release c # ops) s = op_room add remove room ops (remove c s)"

locale claim_registry =
  fixes add :: "'c \<Rightarrow> 's \<Rightarrow> 's"
    and remove :: "'c \<Rightarrow> 's \<Rightarrow> 's"
    and key :: "'c \<Rightarrow> 'k"
    and abs :: "'s \<Rightarrow> 'k multiset"
    and wf :: "'s \<Rightarrow> bool"
    and valid :: "'c \<Rightarrow> bool"
    and room :: "'c \<Rightarrow> 's \<Rightarrow> bool"
  assumes add_law: "wf s \<Longrightarrow> valid c \<Longrightarrow> room c s \<Longrightarrow>
      wf (add c s) \<and> abs (add c s) = add_mset (key c) (abs s)"
    and remove_law: "wf s \<Longrightarrow> valid c \<Longrightarrow>
      wf (remove c s) \<and> abs (remove c s) = abs s - {#key c#}"
begin

lemma run_abs:
  "wf s \<Longrightarrow> \<forall>x \<in> set ops. valid (op_claim x) \<Longrightarrow> op_room add remove room ops s \<Longrightarrow>
     wf (op_run add remove ops s) \<and> abs (op_run add remove ops s) = fold (op_effect key) ops (abs s)"
proof (induction ops arbitrary: s)
  case Nil
  then show ?case by simp
next
  case (Cons x ops)
  then show ?case
    using add_law remove_law by (cases x) auto
qed

lemma claim_release:
  "wf s \<Longrightarrow> valid c \<Longrightarrow> room c s \<Longrightarrow>
     wf (remove c (add c s)) \<and> abs (remove c (add c s)) = abs s"
  using add_law [of s c] remove_law [of "add c s" c] by simp

end

subsection \<open>The table implements it\<close>

text \<open>An account's claim: transport, host, port and path, as \<open>create_fn\<close> fills its buffers.\<close>

type_synonym ws_claim_t = "transport \<times> string \<times> u16 \<times> string"

definition ws_valid :: "ws_claim_t \<Rightarrow> bool" where
  "ws_valid c = (case c of (tp, h, port, path) \<Rightarrow>
     h \<noteq> [] \<and> length h < 256 \<and> port \<noteq> 0 \<and> length path < 256)"

definition ws_key :: "libre \<Rightarrow> ws_claim_t \<Rightarrow> string \<times> string" where
  "ws_key L c = (case c of (tp, h, port, path) \<Rightarrow> (ws_origin L 288 tp h port, path))"

definition ws_claim :: "libre \<Rightarrow> ws_claim_t \<Rightarrow> ws_reg \<Rightarrow> ws_reg" where
  "ws_claim L c r = (case c of (tp, h, port, path) \<Rightarrow> vox_ws_set_server L tp (Some h) port (Some path) r)"

definition ws_release :: "libre \<Rightarrow> ws_claim_t \<Rightarrow> ws_reg \<Rightarrow> ws_reg" where
  "ws_release L c r = (case c of (tp, h, port, path) \<Rightarrow> vox_ws_unset_server L tp (Some h) port (Some path) r)"

definition srv_key :: "ws_server \<Rightarrow> string \<times> string" where
  "srv_key e = (ws_orig e, ws_path e)"

definition srv_mset :: "ws_server \<Rightarrow> (string \<times> string) multiset" where
  "srv_mset e = replicate_mset (unat (ws_refs e)) (srv_key e)"

definition ws_abs :: "ws_reg \<Rightarrow> (string \<times> string) multiset" where
  "ws_abs r = sum_list (map srv_mset (ws_srvv r))"

text \<open>A slot can take the claim: its server is in the table and its count is not at the
  32-bit maximum, or a slot is free.\<close>

definition ws_room :: "libre \<Rightarrow> ws_claim_t \<Rightarrow> ws_reg \<Rightarrow> bool" where
  "ws_room L c r =
     (case ws_find (fst (ws_key L c)) (snd (ws_key L c)) (ws_srvv r) of
        Some i \<Rightarrow> ws_refs (ws_srvv r ! i) \<noteq> - 1
      | None \<Rightarrow> \<exists>e \<in> set (ws_srvv r). ws_refs e = 0)"

text \<open>
  The pin contract: when all the live claims agree on a value it is the pin, and when there
  are none or they disagree the pin is empty.
\<close>

definition agree :: "('k \<Rightarrow> string) \<Rightarrow> 'k multiset \<Rightarrow> string \<Rightarrow> bool" where
  "agree f m v \<longleftrightarrow> m \<noteq> {#} \<and> (\<forall>k \<in># m. f k = v)"

definition pin_rel :: "('k \<Rightarrow> string) \<Rightarrow> 'k multiset \<Rightarrow> string \<Rightarrow> bool" where
  "pin_rel f m s \<longleftrightarrow> (\<forall>v. agree f m v \<longrightarrow> s = v) \<and> ((\<nexists>v. agree f m v) \<longrightarrow> s = [])"

definition ws_table_ok :: "ws_server list \<Rightarrow> bool" where
  "ws_table_ok xs \<longleftrightarrow> length xs = VOX_WS_MAX_SERVERS \<and>
     (\<forall>e \<in> set xs. length (ws_orig e) < 288 \<and> length (ws_path e) < 256) \<and>
     (\<forall>i < length xs. \<forall>j < length xs. i \<noteq> j \<longrightarrow> ws_refs (xs ! i) \<noteq> 0 \<longrightarrow> ws_refs (xs ! j) \<noteq> 0 \<longrightarrow>
        srv_key (xs ! i) \<noteq> srv_key (xs ! j))"

definition ws_wf :: "ws_reg \<Rightarrow> bool" where
  "ws_wf r \<longleftrightarrow> ws_table_ok (ws_srvv r) \<and> \<not> ws_srv_overflow r \<and>
     pin_rel fst (ws_abs r) (g_vox_ws_server r) \<and> pin_rel snd (ws_abs r) (g_vox_ws_path r)"

lemma find_index_Some: "find_index P xs = Some i \<Longrightarrow> i < length xs \<and> P (xs ! i)"
  by (induction xs arbitrary: i) (auto split: if_splits)

lemma find_index_None: "find_index P xs = None \<longleftrightarrow> (\<forall>x \<in> set xs. \<not> P x)"
  by (induction xs) auto

lemma pin_rel_unique: "pin_rel f m s \<Longrightarrow> pin_rel f m s' \<Longrightarrow> s = s'"
  by (auto simp: pin_rel_def)

lemma sum_list_map_update:
  fixes f :: "'a \<Rightarrow> 'b multiset"
  shows "i < length xs \<Longrightarrow> sum_list (map f (xs[i := e])) + f (xs ! i) = sum_list (map f xs) + f e"
proof (induction xs arbitrary: i)
  case (Cons x xs)
  then show ?case by (cases i) (auto simp: add_ac union_assoc)
qed simp

lemma in_table_mset: "k \<in># sum_list (map srv_mset xs) \<longleftrightarrow> (\<exists>e \<in> set xs. ws_refs e \<noteq> 0 \<and> srv_key e = k)"
  by (induction xs) (auto simp: srv_mset_def unat_eq_0)

subsubsection \<open>The scan\<close>

definition live_srv :: "ws_server list \<Rightarrow> ws_server list" where
  "live_srv xs = filter (\<lambda>e. ws_refs e \<noteq> 0) xs"

lemma ws_scan_spec:
  "sc_n (ws_scan_all xs) = length (live_srv xs) \<and>
   sc_origin (ws_scan_all xs) = (if live_srv xs = [] then None else Some (ws_orig (hd (live_srv xs)))) \<and>
   sc_path (ws_scan_all xs) = (if live_srv xs = [] then None else Some (ws_path (hd (live_srv xs)))) \<and>
   sc_same_origin (ws_scan_all xs) = (\<forall>e \<in> set (live_srv xs). ws_orig e = ws_orig (hd (live_srv xs))) \<and>
   sc_same_path (ws_scan_all xs) = (\<forall>e \<in> set (live_srv xs). ws_path e = ws_path (hd (live_srv xs)))"
proof (induction xs rule: rev_induct)
  case Nil
  show ?case by (simp add: ws_scan_all_def live_srv_def)
next
  case (snoc x xs)
  have st: "ws_scan_all (xs @ [x]) = ws_scan_step x (ws_scan_all xs)"
    by (simp add: ws_scan_all_def)
  show ?case
  proof (cases "ws_refs x = 0")
    case True
    then have "live_srv (xs @ [x]) = live_srv xs" by (simp add: live_srv_def)
    with True snoc st show ?thesis by (simp add: ws_scan_step_def)
  next
    case False
    then have l: "live_srv (xs @ [x]) = live_srv xs @ [x]" by (simp add: live_srv_def)
    show ?thesis
      using False snoc by (cases "live_srv xs") (auto simp: st l ws_scan_step_def)
  qed
qed

lemma pin_of_live:
  assumes "\<And>e. e \<in> set (live_srv xs) \<Longrightarrow> f (srv_key e) = g e"
  shows "pin_rel f (sum_list (map srv_mset xs))
     (if live_srv xs \<noteq> [] \<and> (\<forall>e \<in> set (live_srv xs). g e = g (hd (live_srv xs)))
      then g (hd (live_srv xs)) else [])"
proof -
  define m where "m = sum_list (map srv_mset xs)"
  have mem: "k \<in># m \<longleftrightarrow> (\<exists>e \<in> set (live_srv xs). srv_key e = k)" for k
    unfolding in_table_mset m_def by (auto simp: live_srv_def)
  have "set_mset m = srv_key ` set (live_srv xs)"
    unfolding set_eq_iff mem image_iff by metis
  then have ne: "m = {#} \<longleftrightarrow> live_srv xs = []"
    using set_mset_eq_empty_iff [of m] by simp
  have ag: "agree f m v \<longleftrightarrow> live_srv xs \<noteq> [] \<and> (\<forall>e \<in> set (live_srv xs). g e = v)" for v
  proof -
    have "(\<forall>k \<in># m. f k = v) \<longleftrightarrow> (\<forall>e \<in> set (live_srv xs). f (srv_key e) = v)"
      unfolding Ball_def mem by blast
    then show ?thesis unfolding agree_def ne using assms by simp
  qed
  show ?thesis
  proof (cases "live_srv xs")
    case Nil
    then show ?thesis by (simp add: pin_rel_def m_def [symmetric] ag)
  next
    case (Cons a as)
    then have "a \<in> set (live_srv xs)" "hd (live_srv xs) = a" by simp_all
    then show ?thesis
      unfolding pin_rel_def m_def [symmetric] ag Cons by auto
  qed
qed

lemma recompute_pins:
  assumes "libre_laws L" and "ws_table_ok (ws_srvv r)" and "\<not> ws_srv_overflow r"
  shows "ws_wf (ws_recompute L r) \<and> ws_abs (ws_recompute L r) = ws_abs r"
proof -
  let ?l = "live_srv (ws_srvv r)"
  have len: "?l \<noteq> [] \<Longrightarrow> length (ws_orig (hd ?l)) < 288 \<and> length (ws_path (hd ?l)) < 256"
    using assms(2) hd_in_set [of ?l] by (auto simp: ws_table_ok_def live_srv_def)
  define A where "A \<longleftrightarrow> (\<forall>e \<in> set ?l. ws_orig e = ws_orig (hd ?l))"
  define B where "B \<longleftrightarrow> (\<forall>e \<in> set ?l. ws_path e = ws_path (hd ?l))"
  have sc: "sc_n (ws_scan_all (ws_srvv r)) = length ?l"
    "sc_same_origin (ws_scan_all (ws_srvv r)) = A" "sc_same_path (ws_scan_all (ws_srvv r)) = B"
    "?l \<noteq> [] \<Longrightarrow> sc_origin (ws_scan_all (ws_srvv r)) = Some (ws_orig (hd ?l))"
    "?l \<noteq> [] \<Longrightarrow> sc_path (ws_scan_all (ws_srvv r)) = Some (ws_path (hd ?l))"
    using ws_scan_spec [of "ws_srvv r"] unfolding A_def B_def by presburger+
  have srv: "g_vox_ws_server (ws_recompute L r)
     = (if ?l \<noteq> [] \<and> (\<forall>e \<in> set ?l. ws_orig e = ws_orig (hd ?l)) then ws_orig (hd ?l) else [])"
    unfolding A_def [symmetric]
    using assms(1,3) len sc by (simp add: ws_recompute_def Let_def libre_ncpy_fits)
  have pth: "g_vox_ws_path (ws_recompute L r)
     = (if ?l \<noteq> [] \<and> (\<forall>e \<in> set ?l. ws_path e = ws_path (hd ?l)) then ws_path (hd ?l) else [])"
    unfolding B_def [symmetric]
    using assms(1) len sc by (simp add: ws_recompute_def Let_def libre_ncpy_fits)
  have fr: "ws_srvv (ws_recompute L r) = ws_srvv r" "\<not> ws_srv_overflow (ws_recompute L r)"
    using assms(3) by (simp_all add: ws_recompute_def Let_def)
  have "pin_rel fst (ws_abs (ws_recompute L r)) (g_vox_ws_server (ws_recompute L r))"
    unfolding srv ws_abs_def fr by (rule pin_of_live) (simp add: srv_key_def)
  moreover have "pin_rel snd (ws_abs (ws_recompute L r)) (g_vox_ws_path (ws_recompute L r))"
    unfolding pth ws_abs_def fr by (rule pin_of_live) (simp add: srv_key_def)
  ultimately show ?thesis
    using assms(2) fr by (simp add: ws_wf_def ws_abs_def)
qed

subsubsection \<open>Claiming and releasing\<close>

lemma table_ok_update:
  assumes "ws_table_ok xs" and "i < length xs" and "length (ws_orig e) < 288" and "length (ws_path e) < 256"
    and "\<And>j. j < length xs \<Longrightarrow> j \<noteq> i \<Longrightarrow> ws_refs (xs ! j) \<noteq> 0 \<Longrightarrow> ws_refs e \<noteq> 0 \<Longrightarrow>
           srv_key (xs ! j) \<noteq> srv_key e"
  shows "ws_table_ok (xs[i := e])"
proof -
  have "\<forall>x \<in> set (xs[i := e]). length (ws_orig x) < 288 \<and> length (ws_path x) < 256"
    using assms(1,3,4) set_update_subset_insert [of xs i e] by (auto simp: ws_table_ok_def)
  moreover have "srv_key (xs[i := e] ! a) \<noteq> srv_key (xs[i := e] ! b)"
    if "a < length xs" "b < length xs" "a \<noteq> b"
      "ws_refs (xs[i := e] ! a) \<noteq> 0" "ws_refs (xs[i := e] ! b) \<noteq> 0" for a b
  proof (cases "a = i")
    case True
    then show ?thesis using that assms(2) assms(5) [of b] by fastforce
  next
    case False
    then show ?thesis using that assms(1,2) assms(5) [of a]
      by (cases "b = i") (simp_all add: ws_table_ok_def)
  qed
  ultimately show ?thesis using assms(1) by (simp add: ws_table_ok_def)
qed

lemma table_update_law:
  assumes "libre_laws L" and "ws_wf r" and "i < length (ws_srvv r)"
    and "ws_table_ok ((ws_srvv r)[i := e])" and "ws_srvv r' = (ws_srvv r)[i := e]"
    and "ws_srv_overflow r' = ws_srv_overflow r"
  shows "ws_wf (ws_recompute L r') \<and>
     ws_abs (ws_recompute L r') + srv_mset (ws_srvv r ! i) = ws_abs r + srv_mset e"
proof -
  have "ws_wf (ws_recompute L r') \<and> ws_abs (ws_recompute L r') = ws_abs r'"
    using assms by (intro recompute_pins) (simp_all add: ws_wf_def)
  then show ?thesis
    using sum_list_map_update [OF assms(3), of srv_mset e] assms(5) by (simp add: ws_abs_def)
qed

lemma ws_origin_length: "libre_laws L \<Longrightarrow> length (ws_origin L 288 tp h port) < 288"
  by (simp add: libre_laws_def ws_origin_def Let_def)

lemma srv_mset_incr:
  "ws_refs e \<noteq> - 1 \<Longrightarrow> srv_mset (e\<lparr>ws_refs := ws_refs e + 1\<rparr>) = add_mset (srv_key e) (srv_mset e)"
  using unatSuc [of "ws_refs e"] by (simp add: srv_mset_def srv_key_def add.commute add_eq_0_iff)

lemma srv_mset_decr:
  "ws_refs e \<noteq> 0 \<Longrightarrow> srv_mset e = add_mset (srv_key e) (srv_mset (e\<lparr>ws_refs := ws_refs e - 1\<rparr>))"
proof -
  assume nz: "ws_refs e \<noteq> 0"
  then have "unat (ws_refs e) = Suc (unat (ws_refs e - 1))"
    by (simp add: unat_minus_one unat_eq_0 [symmetric] del: unat_eq_0)
  then show ?thesis by (simp add: srv_mset_def srv_key_def)
qed

lemma srv_mset_blank [simp]: "srv_mset ws_blank = {#}"
  by (simp add: srv_mset_def ws_blank_def)

lemma srv_mset_zero: "ws_refs e = 0 \<Longrightarrow> srv_mset e = {#}"
  by (simp add: srv_mset_def)

lemma ws_find_Some:
  "ws_find o' p xs = Some i \<Longrightarrow> i < length xs \<and> ws_refs (xs ! i) \<noteq> 0 \<and> srv_key (xs ! i) = (o', p)"
  using find_index_Some [of _ xs i] by (auto simp: ws_find_def srv_key_def)

lemma ws_find_None:
  "ws_find o' p xs = None \<longleftrightarrow> (\<forall>e \<in> set xs. ws_refs e \<noteq> 0 \<longrightarrow> srv_key e \<noteq> (o', p))"
  by (auto simp: ws_find_def srv_key_def find_index_None)

lemma table_slot_bounds:
  "ws_table_ok xs \<Longrightarrow> i < length xs \<Longrightarrow> length (ws_orig (xs ! i)) < 288 \<and> length (ws_path (xs ! i)) < 256"
  by (simp add: ws_table_ok_def)

lemma table_slot_distinct:
  "ws_table_ok xs \<Longrightarrow> i < length xs \<Longrightarrow> j < length xs \<Longrightarrow> j \<noteq> i \<Longrightarrow> ws_refs (xs ! i) \<noteq> 0 \<Longrightarrow>
     ws_refs (xs ! j) \<noteq> 0 \<Longrightarrow> srv_key (xs ! j) \<noteq> srv_key (xs ! i)"
  by (simp add: ws_table_ok_def)

lemma ws_claim_law:
  assumes "libre_laws L" and "ws_wf r" and "ws_valid c" and "ws_room L c r"
  shows "ws_wf (ws_claim L c r) \<and> ws_abs (ws_claim L c r) = add_mset (ws_key L c) (ws_abs r)"
proof -
  obtain tp h port path where c: "c = (tp, h, port, path)" by (metis prod_cases4)
  let ?o = "ws_origin L 288 tp h port"
  let ?xs = "ws_srvv r"
  have ok: "ws_table_ok ?xs" using assms(2) by (simp add: ws_wf_def)
  have v: "h \<noteq> []" "port \<noteq> 0" "length path < 256" using assms(3) by (auto simp: ws_valid_def c)
  have k: "ws_key L c = (?o, path)" by (simp add: ws_key_def c)
  show ?thesis
  proof (cases "ws_find ?o path ?xs")
    case (Some i)
    let ?e = "?xs ! i"
    let ?e' = "?e\<lparr>ws_refs := ws_refs ?e + 1\<rparr>"
    note f = ws_find_Some [OF Some]
    have m: "ws_refs ?e \<noteq> - 1" using assms(4) Some by (simp add: ws_room_def k)
    have sk: "srv_key ?e' = srv_key ?e" by (simp add: srv_key_def)
    have tab: "ws_table_ok (?xs[i := ?e'])"
    proof (rule table_ok_update [OF ok])
      fix j
      assume "j < length ?xs" "j \<noteq> i" "ws_refs (?xs ! j) \<noteq> 0"
      then show "srv_key (?xs ! j) \<noteq> srv_key ?e'"
        unfolding sk using f table_slot_distinct [OF ok, of i j] by metis
    qed (use f table_slot_bounds [OF ok, of i] in auto)
    have cl: "ws_claim L c r = ws_recompute L (r\<lparr>ws_srvv := ?xs[i := ?e']\<rparr>)"
      using v Some by (simp add: ws_claim_def c vox_ws_set_server_def Let_def)
    show ?thesis
      using table_update_law [OF assms(1,2) _ tab, of "r\<lparr>ws_srvv := ?xs[i := ?e']\<rparr>"] f m
      by (simp add: cl srv_mset_incr k)
  next
    case None
    then obtain i where i: "find_index (\<lambda>e. ws_refs e = 0) ?xs = Some i"
      using assms(4) find_index_None [of "\<lambda>e. ws_refs e = 0" ?xs]
      by (auto simp: ws_room_def k)
    let ?e' = "\<lparr>ws_orig = lb_ncpy L 288 ?o, ws_path = lb_ncpy L 256 path, ws_refs = 1, ws_seq = ws_srv_seq r + 1\<rparr>"
    have e': "srv_key ?e' = (?o, path)" "srv_mset ?e' = {#(?o, path)#}"
      using assms(1) v(3) ws_origin_length [OF assms(1), of tp h port]
      by (simp_all add: srv_key_def srv_mset_def libre_ncpy_fits)
    note f = find_index_Some [OF i]
    have tab: "ws_table_ok (?xs[i := ?e'])"
    proof (rule table_ok_update [OF ok])
      fix j
      assume "j < length ?xs" "ws_refs (?xs ! j) \<noteq> 0"
      then show "srv_key (?xs ! j) \<noteq> srv_key ?e'"
        unfolding e'(1) using None by (simp add: ws_find_None)
    qed (use f v(3) ws_origin_length [OF assms(1), of tp h port] assms(1) in \<open>simp_all add: libre_ncpy_fits\<close>)
    let ?r' = "r\<lparr>ws_srv_seq := ws_srv_seq r + 1, ws_srvv := ?xs[i := ?e']\<rparr>"
    have cl: "ws_claim L c r = ws_recompute L ?r'"
      using v None i by (simp add: ws_claim_def c vox_ws_set_server_def Let_def)
    show ?thesis
      using table_update_law [OF assms(1,2) _ tab, of ?r'] f
      by (simp add: cl e' k srv_mset_zero)
  qed
qed

lemma ws_release_law:
  assumes "libre_laws L" and "ws_wf r" and "ws_valid c"
  shows "ws_wf (ws_release L c r) \<and> ws_abs (ws_release L c r) = ws_abs r - {#ws_key L c#}"
proof -
  obtain tp h port path where c: "c = (tp, h, port, path)" by (metis prod_cases4)
  let ?o = "ws_origin L 288 tp h port"
  let ?xs = "ws_srvv r"
  have ok: "ws_table_ok ?xs" using assms(2) by (simp add: ws_wf_def)
  have v: "h \<noteq> []" "port \<noteq> 0" using assms(3) by (auto simp: ws_valid_def c)
  have k: "ws_key L c = (?o, path)" by (simp add: ws_key_def c)
  show ?thesis
  proof (cases "ws_find ?o path ?xs")
    case None
    then have "ws_key L c \<notin># ws_abs r"
      unfolding ws_abs_def in_table_mset by (auto simp: ws_find_None k)
    with None v assms(2) show ?thesis
      by (simp add: ws_release_def c vox_ws_unset_server_def Let_def diff_single_trivial)
  next
    case (Some i)
    let ?e = "?xs ! i"
    let ?n = "ws_refs ?e - 1"
    let ?e' = "if ?n = 0 then ws_blank else ?e\<lparr>ws_refs := ?n\<rparr>"
    note f = ws_find_Some [OF Some]
    have tab: "ws_table_ok (?xs[i := ?e'])"
    proof (rule table_ok_update [OF ok])
      fix j
      assume "j < length ?xs" "j \<noteq> i" "ws_refs (?xs ! j) \<noteq> 0" "ws_refs ?e' \<noteq> 0"
      then show "srv_key (?xs ! j) \<noteq> srv_key ?e'"
        using f table_slot_distinct [OF ok, of i j] by (auto simp: ws_blank_def srv_key_def split: if_splits)
    qed (use f table_slot_bounds [OF ok, of i] in \<open>auto simp: ws_blank_def\<close>)
    have m: "srv_mset ?e = add_mset (?o, path) (srv_mset ?e')"
      using f srv_mset_decr [of ?e] srv_mset_zero [of "?e\<lparr>ws_refs := ?n\<rparr>"] by auto
    have cl: "ws_release L c r = ws_recompute L (r\<lparr>ws_srvv := ?xs[i := ?e']\<rparr>)"
      using v Some by (simp add: ws_release_def c vox_ws_unset_server_def Let_def)
    have "ws_abs (ws_release L c r) + srv_mset ?e = ws_abs r + srv_mset ?e'"
      "ws_wf (ws_release L c r)"
      using table_update_law [OF assms(1,2) _ tab, of "r\<lparr>ws_srvv := ?xs[i := ?e']\<rparr>"] f cl by simp_all
    then have "ws_wf (ws_release L c r)" "add_mset (?o, path) (ws_abs (ws_release L c r)) = ws_abs r"
      by (simp_all add: m)
    then show ?thesis by (metis k add_mset_remove_trivial)
  qed
qed

interpretation ws: claim_registry "ws_claim L" "ws_release L" "ws_key L" ws_abs
  "\<lambda>r. libre_laws L \<and> ws_wf r" ws_valid "ws_room L" for L
  by unfold_locales (simp_all add: ws_claim_law ws_release_law)

lemma ws_init_wf: "ws_wf ws_reg_init \<and> ws_abs ws_reg_init = {#}"
proof -
  have r: "ws_refs ws_blank = 0" "ws_orig ws_blank = []" "ws_path ws_blank = []"
    by (simp_all add: ws_blank_def)
  have a: "ws_abs ws_reg_init = {#}"
    by (simp add: ws_abs_def ws_reg_init_def numeral_eq_Suc VOX_WS_MAX_SERVERS_def)
  have "ws_table_ok (replicate VOX_WS_MAX_SERVERS ws_blank)"
    by (simp add: ws_table_ok_def r)
  then show ?thesis
    by (simp add: ws_wf_def a) (simp add: ws_reg_init_def pin_rel_def agree_def)
qed

section \<open>Properties\<close>


definition acct_a :: ws_claim_t where "acct_a = (TP_WSS, ''a.example.com'', 443, ''/ws'')"
definition acct_b :: ws_claim_t where "acct_b = (TP_WSS, ''b.example.com'', 443, ''/ws'')"


subsection \<open>What a connect and a route make of the pins\<close>

lemma pin_rel_agree: "pin_rel f m s \<Longrightarrow> agree f m v \<Longrightarrow> s = v"
  by (simp add: pin_rel_def)

lemma ws_run_wf:
  assumes "libre_laws L" and "\<forall>x \<in> set ops. ws_valid (op_claim x)"
    and "op_room (ws_claim L) (ws_release L) (ws_room L) ops ws_reg_init"
  shows "ws_wf (op_run (ws_claim L) (ws_release L) ops ws_reg_init)"
    and "ws_abs (op_run (ws_claim L) (ws_release L) ops ws_reg_init) = fold (op_effect (ws_key L)) ops {#}"
  using ws.run_abs [of L ws_reg_init ops] assms ws_init_wf by simp_all

text \<open>The authority text of an origin.\<close>

definition ws_hostport :: "string \<Rightarrow> u16 \<Rightarrow> string" where
  "ws_hostport h port = (if CHR '':'' \<in> set h then ''['' @ h @ '']'' else h) @ '':'' @ show_nat (unat port)"

definition ws_scheme :: "transport \<Rightarrow> string" where
  "ws_scheme tp = (if tp = TP_WSS then ''wss'' else ''ws'')"

lemma ws_origin_text:
  assumes "libre_laws L" and "length h < 254"
  shows "ws_origin L 288 tp h port = ws_scheme tp @ ''://'' @ ws_hostport h port"
proof -
  have "length (ws_scheme tp @ ''://'' @ ws_hostport h port) < 288"
    using assms(2) length_show_port [of port] by (simp add: ws_scheme_def ws_hostport_def)
  from libre_snprintf_fits [OF assms(1) this] show ?thesis
    by (simp add: ws_origin_def ws_scheme_def ws_hostport_def Let_def)
qed

lemma ws_route_text_origin:
  assumes "libre_laws L" and "h \<noteq> []" and "length h < 254" and "port \<noteq> 0"
  shows "ws_route_text L (ws_scheme tp @ ''://'' @ ws_hostport h port)
     = Some (''sip:'' @ ws_hostport h port @ '';transport='' @ ws_scheme tp @ '';lr'')"
proof -
  let ?b = "if CHR '':'' \<in> set h then ''['' @ h @ '']'' else h"
  let ?p = "show_nat (unat port)"
  have nc: "CHR '':'' \<notin> set ?p"
    using show_nat_digits [of "unat port"] by (auto simp: is_digit_def)
  have rest: "ws_hostport h port = ?b @ CHR '':'' # ?p" by (simp add: ws_hostport_def)
  have sr: "strrchr (CHR '':'') (ws_hostport h port) = Some (length ?b)"
    unfolding rest using nc by (rule strrchr_append_last)
  have l: "0 < length ?b" "length ?b < 256" using assms by auto
  have lt: "unat port < 2 ^ 16" using unsigned_less [of port, where ?'a = nat] by simp
  have "strtoul ?p = of_nat (unat port)" using strtoul_show_nat [of "[]" "unat port"] lt by simp
  then have pt: "unat (ucast (strtoul ?p) :: u32) = unat port"
    using lt by (simp add: unsigned_ucast_eq unsigned_of_nat take_bit_nat_eq_self take_bit_word_eq_self)
  then have nz: "(ucast (strtoul ?p) :: u32) \<noteq> 0"
    using assms(4) by (metis unsigned_0 unsigned_eq_0_iff)
  let ?t = "''sip:'' @ ws_hostport h port @ '';transport='' @ ws_scheme tp @ '';lr''"
  have fit: "lb_snprintf L 352 ?t = (?t, int (length ?t))"
    using assms(3) length_show_port [of port]
    by (intro libre_snprintf_fits [OF assms(1)]) (simp add: rest ws_scheme_def)
  let ?s = "ws_scheme tp @ ''://'' @ ws_hostport h port"
  have sel: "(if starts_with ''wss://'' ?s then Some (''wss'', drop 6 ?s)
      else if starts_with ''ws://'' ?s then Some (''ws'', drop 5 ?s) else None)
      = Some (ws_scheme tp, ws_hostport h port)"
    by (simp add: starts_with_def ws_scheme_def)
  have "?s \<noteq> []" by simp
  have dr: "drop (Suc (length ?b)) (ws_hostport h port) = ?p" "take (length ?b) (ws_hostport h port) = ?b"
    unfolding rest by simp_all
  have tx: "''sip:'' @ ?b @ '':'' @ ?p @ '';transport='' @ ws_scheme tp @ '';lr'' = ?t"
    by (simp add: rest)
  have "length ?b \<noteq> 0 \<and> \<not> 256 \<le> length ?b" using l by linarith
  then show ?thesis
    unfolding ws_route_text_def sel using \<open>?s \<noteq> []\<close> nz fit
    by (simp only: if_False option.case prod.case sr dr pt Let_def tx) simp
qed

section \<open>More properties\<close>

text \<open>
  C31: Connects go to the server the accounts name. Whatever accounts came and went before,
  while all the live ones name the same origin and path, a connect started for any URI goes
  to that origin and path (\<open>/\<close> when the path is empty), provided the text fits the wrapper's
  512-byte buffer.
\<close>

theorem ws_connect_pinned:
  assumes "libre_laws L" and "\<forall>x \<in> set ops. ws_valid (op_claim x)"
    and "op_room (ws_claim L) (ws_release L) (ws_room L) ops ws_reg_init"
    and "agree fst (fold (op_effect (ws_key L)) ops {#}) orig"
    and "agree snd (fold (op_effect (ws_key L)) ops {#}) path"
    and "orig \<noteq> []" and "length orig + length path < 511"
  shows "ws_connect_uri L (op_run (ws_claim L) (ws_release L) ops ws_reg_init) uri
    = Some (orig @ (if path = [] then ''/'' else path))"
proof -
  let ?r = "op_run (ws_claim L) (ws_release L) ops ws_reg_init"
  have "pin_rel fst (ws_abs ?r) (g_vox_ws_server ?r)" "pin_rel snd (ws_abs ?r) (g_vox_ws_path ?r)"
    using ws_run_wf(1) [OF assms(1-3)] by (simp_all add: ws_wf_def)
  moreover have "agree fst (ws_abs ?r) orig" "agree snd (ws_abs ?r) path"
    using assms(4,5) ws_run_wf(2) [OF assms(1-3)] by simp_all
  ultimately have "g_vox_ws_server ?r = orig" "g_vox_ws_path ?r = path"
    using pin_rel_agree by blast+
  moreover have "0 < length orig" using assms(6) by simp
  ultimately show ?thesis
    using assms(1,6,7) by (simp add: ws_connect_uri_def libre_snprintf_fits Let_def del: length_greater_0_conv)
qed

theorem ws_connect_pinned_witness:
  "ws_connect_uri libre_ref (op_run (ws_claim libre_ref) (ws_release libre_ref)
        [Claim acct_a, Claim acct_b, Release acct_a] ws_reg_init) (Some ''wss://127.0.0.1:5061/'')
   = Some ''wss://b.example.com:443/ws''"
proof -
  let ?ops = "[Claim acct_a, Claim acct_b, Release acct_a]"
  have "\<forall>x \<in> set ?ops. ws_valid (op_claim x)" by code_simp
  moreover have "op_room (ws_claim libre_ref) (ws_release libre_ref) (ws_room libre_ref) ?ops ws_reg_init"
    by code_simp
  moreover have "ws_key libre_ref acct_a = (''wss://a.example.com:443'', ''/ws'')"
    "ws_key libre_ref acct_b = (''wss://b.example.com:443'', ''/ws'')"
    by code_simp+
  ultimately show ?thesis
    using ws_connect_pinned [OF libre_ref_laws, of ?ops "''wss://b.example.com:443''" "''/ws''"]
    by (simp add: agree_def)
qed

text \<open>
  C32: In-dialog requests follow the connection. With one server pinned, a WebSocket route is
  replaced by the route decoded from \<open>sip:host:port;transport=ws|wss;lr\<close> of exactly that
  server (the origin's text is taken apart again without loss, IPv6 brackets included) unless
  it already names that host and port; a route of another transport is left alone.
\<close>

theorem ws_route_follows_pin:
  assumes "libre_laws L" and "g_vox_ws_server r = ws_origin L 288 tp h port"
    and "h \<noteq> []" and "length h < 254" and "port \<noteq> 0"
    and "uri_decode (''sip:'' @ ws_hostport h port @ '';transport='' @ ws_scheme tp @ '';lr'') = Some flow"
  shows "vox_ws_route_override L uri_decode r (Some rt) =
     (if ws_route_is_websocket L rt \<and> \<not> (su_host rt = su_host flow \<and> su_port rt = su_port flow)
      then Some flow else Some rt)"
proof -
  have o: "g_vox_ws_server r = ws_scheme tp @ ''://'' @ ws_hostport h port"
    using assms by (simp add: ws_origin_text)
  then have "g_vox_ws_server r \<noteq> []" by simp
  then show ?thesis
    using ws_route_text_origin [OF assms(1,3-5), of tp] assms(6)
    by (simp add: vox_ws_route_override_def o)
qed

definition pinned_v6 :: ws_reg where
  "pinned_v6 = ws_reg_init\<lparr>g_vox_ws_server := ''wss://[2001:db8::1]:443''\<rparr>"

definition decode_one :: "string \<Rightarrow> sip_uri option" where
  "decode_one s = (if s = ''sip:[2001:db8::1]:443;transport=wss;lr''
     then Some \<lparr>su_host = ''2001:db8::1'', su_port = 443, su_transport = Some ''wss''\<rparr> else None)"

theorem ws_route_follows_pin_witness:
  "vox_ws_route_override libre_ref decode_one pinned_v6
     (Some \<lparr>su_host = ''10.0.0.1'', su_port = 5060, su_transport = Some ''WS''\<rparr>)
   = Some \<lparr>su_host = ''2001:db8::1'', su_port = 443, su_transport = Some ''wss''\<rparr>"
proof -
  let ?rt = "\<lparr>su_host = ''10.0.0.1'', su_port = 5060, su_transport = Some ''WS''\<rparr>"
  have "ws_route_is_websocket libre_ref ?rt" by code_simp
  moreover have "ws_origin libre_ref 288 TP_WSS ''2001:db8::1'' 443 = ''wss://[2001:db8::1]:443''"
    by code_simp
  moreover have "decode_one (''sip:'' @ ws_hostport ''2001:db8::1'' 443 @ '';transport='' @ ws_scheme TP_WSS @ '';lr'')
     = Some \<lparr>su_host = ''2001:db8::1'', su_port = 443, su_transport = Some ''wss''\<rparr>"
    by code_simp
  ultimately show ?thesis
    using ws_route_follows_pin [OF libre_ref_laws, of pinned_v6 TP_WSS "''2001:db8::1''" 443 decode_one _ ?rt]
    by (simp add: pinned_v6_def)
qed

text \<open>
  C34: The table does not remember which account overflowed it. Five accounts name five
  servers, so the last finds no slot; one of the others goes and a sixth account, naming the
  same server as the fifth, takes the slot. When the fifth is destroyed, its release drops the
  reference of the sixth: once the rest are gone the sixth is live, its server is not in the
  table, and the pin is empty.
\<close>

definition ws_srv_n :: "nat \<Rightarrow> ws_claim_t" where
  "ws_srv_n i = (TP_WSS, ''s'' @ show_nat i @ ''.example.com'', 443, ''/ws'')"

definition ws_overflow_ops :: "ws_claim_t reg_op list" where
  "ws_overflow_ops =
     [Claim (ws_srv_n 1), Claim (ws_srv_n 2), Claim (ws_srv_n 3), Claim (ws_srv_n 4), Claim (ws_srv_n 5),
      Release (ws_srv_n 1), Claim (ws_srv_n 5), Release (ws_srv_n 5),
      Release (ws_srv_n 2), Release (ws_srv_n 3), Release (ws_srv_n 4)]"

theorem ws_overflow_loses_live_account:
  "fold (op_effect (ws_key libre_ref)) ws_overflow_ops {#} = {#(''wss://s5.example.com:443'', ''/ws'')#}
   \<and> g_vox_ws_server (op_run (ws_claim libre_ref) (ws_release libre_ref) ws_overflow_ops ws_reg_init) = []
   \<and> list_all (\<lambda>e. ws_refs e = 0)
       (ws_srvv (op_run (ws_claim libre_ref) (ws_release libre_ref) ws_overflow_ops ws_reg_init))"
proof -
  have k: "ws_key libre_ref (ws_srv_n 1) = (''wss://s1.example.com:443'', ''/ws'')"
    "ws_key libre_ref (ws_srv_n 2) = (''wss://s2.example.com:443'', ''/ws'')"
    "ws_key libre_ref (ws_srv_n 3) = (''wss://s3.example.com:443'', ''/ws'')"
    "ws_key libre_ref (ws_srv_n 4) = (''wss://s4.example.com:443'', ''/ws'')"
    "ws_key libre_ref (ws_srv_n 5) = (''wss://s5.example.com:443'', ''/ws'')"
    by code_simp+
  have "fold (op_effect (ws_key libre_ref)) ws_overflow_ops {#} = {#(''wss://s5.example.com:443'', ''/ws'')#}"
    by (simp add: ws_overflow_ops_def k)
  moreover have "g_vox_ws_server (op_run (ws_claim libre_ref) (ws_release libre_ref) ws_overflow_ops ws_reg_init) = []"
    by code_simp
  moreover have "list_all (\<lambda>e. ws_refs e = 0)
       (ws_srvv (op_run (ws_claim libre_ref) (ws_release libre_ref) ws_overflow_ops ws_reg_init))"
    by code_simp
  ultimately show ?thesis by simp
qed

end
