(* ===== verification/Vox_Float.thy ===== *)
theory Vox_Float
  imports Vox_Prelude Complex_Main
begin

text \<open>
  Single-precision arithmetic, as far as the SDK's delay and bitrate computations use it.
  A finite \<open>float\<close> is its rational value; an operation rounds the exact result to 24
  significant bits, ties to even. The exponent is unbounded: the results are converted to
  32-bit integers, a conversion that is undefined long before the exponent range of the
  format is left, and that drops everything below one. The value such an undefined conversion
  produces is a parameter.
\<close>

section \<open>Rounding\<close>

text \<open>The number of binary digits of an integer.\<close>

function bits :: "int \<Rightarrow> nat" where
  "bits n = (if n \<le> 0 then 0 else Suc (bits (n div 2)))"
  by auto
termination by (relation "measure nat") auto

declare bits.simps [simp del]

text \<open>The binary exponent: the \<open>e\<close> with \<open>2 ^ e \<le> x < 2 ^ (e + 1)\<close>.\<close>

definition ilog2 :: "rat \<Rightarrow> int" where
  "ilog2 x =
     (if 1 \<le> x then int (bits \<lfloor>x\<rfloor>) - 1
      else - int (bits (\<lceil>1 / x\<rceil> - 1)))"

definition pow2 :: "int \<Rightarrow> rat" where
  "pow2 e = (if 0 \<le> e then 2 ^ nat e else 1 / 2 ^ nat (- e))"

definition round_even :: "rat \<Rightarrow> int" where
  "round_even m =
     (let fl = \<lfloor>m\<rfloor>; r = m - of_int fl
      in if r < 1 / 2 then fl else if 1 / 2 < r then fl + 1
         else if even fl then fl else fl + 1)"

definition f32_pos :: "rat \<Rightarrow> rat" where
  "f32_pos x = (let e = ilog2 x - 23 in of_int (round_even (x / pow2 e)) * pow2 e)"

definition f32_round :: "rat \<Rightarrow> rat" where
  "f32_round x = (if x = 0 then 0 else if 0 < x then f32_pos x else - f32_pos (- x))"

definition f32_of_u32 :: "u32 \<Rightarrow> rat" where
  "f32_of_u32 w = f32_round (of_int (uint w))"

definition f32_mult :: "rat \<Rightarrow> rat \<Rightarrow> rat" where
  "f32_mult a b = f32_round (a * b)"

text \<open>
  \<open>(uint32_t)x\<close>: truncation toward zero when the integral part is representable, otherwise
  undefined behaviour, whose outcome the platform parameter \<open>ub\<close> gives.
\<close>

definition f32_to_u32 :: "(rat \<Rightarrow> u32) \<Rightarrow> rat \<Rightarrow> u32" where
  "f32_to_u32 ub x = (if - 1 < x \<and> x < 2 ^ 32 then of_int (if 0 \<le> x then \<lfloor>x\<rfloor> else 0) else ub x)"

section \<open>Lemmas\<close>

lemma pow2_pos [simp]: "0 < pow2 e"
  by (simp add: pow2_def)

lemma pow2_powr: "real_of_rat (pow2 e) = 2 powr e"
  by (simp add: pow2_def of_rat_divide of_rat_power powr_realpow [symmetric] powr_minus_divide)

lemma pow2_add: "pow2 (a + b) = pow2 a * pow2 b"
proof -
  have "real_of_rat (pow2 (a + b)) = real_of_rat (pow2 a * pow2 b)"
    by (simp add: pow2_powr of_rat_mult powr_add)
  then show ?thesis by simp
qed

lemma pow2_nat [simp]: "pow2 (int n) = 2 ^ n"
  by (simp add: pow2_def)

lemma pow2_0 [simp]: "pow2 0 = 1"
  by (simp add: pow2_def)

lemma pow2_neg: "pow2 (- e) = 1 / pow2 e"
  using pow2_add [of "- e" e] pow2_pos [of e] by (simp add: field_simps del: pow2_pos)

lemma bits_ge: "0 < n \<Longrightarrow> 0 < bits n \<and> 2 ^ (bits n - 1) \<le> n"
proof (induction n rule: bits.induct)
  case (1 n)
  then show ?case
  proof (cases "n div 2 \<le> 0")
    case True
    then have "n = 1" using 1(2) by linarith
    then show ?thesis by (simp add: bits.simps)
  next
    case False
    then have "0 < bits (n div 2)" "2 ^ (bits (n div 2) - 1) \<le> n div 2" using 1 by auto
    moreover have "bits n = Suc (bits (n div 2))" using 1(2) by (simp add: bits.simps [of n])
    moreover have "(2 :: int) ^ bits (n div 2) = 2 * 2 ^ (bits (n div 2) - 1)"
      using \<open>0 < bits (n div 2)\<close> by (metis power_eq_if not_gr_zero)
    moreover have "2 * (n div 2) \<le> n" by simp
    ultimately show ?thesis by (simp only: diff_Suc_1) linarith
  qed
qed

lemma bits_less: "0 \<le> n \<Longrightarrow> n < 2 ^ bits n"
proof (induction n rule: bits.induct)
  case (1 n)
  show ?case
  proof (cases "n \<le> 0")
    case True
    then show ?thesis using 1(2) by (simp add: bits.simps [of n])
  next
    case False
    then have "n div 2 < 2 ^ bits (n div 2)" using 1 by simp
    then show ?thesis using False by (simp add: bits.simps [of n])
  qed
qed

text \<open>The exponent brackets the value from below, which bounds the rounding step.\<close>

lemma ilog2_le:
  assumes "0 < x"
  shows "pow2 (ilog2 x) \<le> x"
proof (cases "1 \<le> x")
  case True
  let ?n = "\<lfloor>x\<rfloor>"
  have n: "0 < ?n" using True by simp
  have "ilog2 x = int (bits ?n - 1)"
    using True bits_ge [OF n] by (simp add: ilog2_def)
  then have "pow2 (ilog2 x) = of_int (2 ^ (bits ?n - 1))" by simp
  also have "\<dots> \<le> of_int ?n" using bits_ge [OF n] of_int_le_iff by blast
  also have "\<dots> \<le> x" by simp
  finally show ?thesis .
next
  case False
  let ?n = "\<lceil>1 / x\<rceil> - 1"
  have "pow2 (ilog2 x) = 1 / 2 ^ bits ?n"
    using False pow2_neg [of "int (bits ?n)"] by (simp add: ilog2_def)
  moreover have "1 / x \<le> 2 ^ bits ?n"
  proof -
    have "0 \<le> ?n" using assms by (simp add: one_le_ceiling)
    then have "\<lceil>1 / x\<rceil> \<le> 2 ^ bits ?n" using bits_less [of ?n] by linarith
    then have "of_int \<lceil>1 / x\<rceil> \<le> (2 :: rat) ^ bits ?n"
      by (metis of_int_le_iff of_int_numeral of_int_power)
    then show ?thesis using le_of_int_ceiling [of "1 / x"] by linarith
  qed
  moreover have "1 / 2 ^ bits ?n \<le> x \<longleftrightarrow> 1 / x \<le> 2 ^ bits ?n"
    using assms by (simp add: divide_simps mult.commute)
  ultimately show ?thesis by simp
qed

lemma round_even_le: "of_int (round_even m) \<le> m + 1 / 2"
proof -
  have "of_int \<lfloor>m\<rfloor> \<le> m" "m < of_int \<lfloor>m\<rfloor> + 1" by linarith+
  then show ?thesis unfolding round_even_def Let_def by simp linarith
qed

lemma round_even_nonneg: "0 \<le> m \<Longrightarrow> 0 \<le> round_even m"
  by (auto simp: round_even_def Let_def)

lemma round_even_int [simp]: "round_even (of_int k) = k"
  by (simp add: round_even_def)

lemma round_even_mono_int: "m \<le> of_int k \<Longrightarrow> round_even m \<le> k"
proof -
  assume a: "m \<le> of_int k"
  show ?thesis
  proof (cases "m = of_int k")
    case False
    with a have "\<lfloor>m\<rfloor> + 1 \<le> k" by linarith
    then show ?thesis by (auto simp: round_even_def Let_def)
  qed simp
qed

lemma f32_round_0 [simp]: "f32_round 0 = 0"
  by (simp add: f32_round_def)

lemma f32_round_pos: "0 < x \<Longrightarrow> f32_round x = of_int (round_even (x / pow2 (ilog2 x - 23))) * pow2 (ilog2 x - 23)"
  by (simp add: f32_round_def f32_pos_def Let_def)

lemma f32_round_nonneg:
  assumes "0 \<le> x"
  shows "0 \<le> f32_round x"
proof (cases "x = 0")
  case False
  then have "0 < x" using assms by simp
  moreover have "0 \<le> round_even (x / pow2 (ilog2 x - 23))"
    using assms by (intro round_even_nonneg divide_nonneg_pos) simp_all
  ultimately show ?thesis by (simp add: f32_round_pos less_imp_le)
qed simp

text \<open>One unit in the last place, at most \<open>2 ^ -23\<close> of the value.\<close>

lemma f32_ulp_le:
  assumes "0 < x"
  shows "pow2 (ilog2 x - 23) * 2 ^ 23 \<le> x"
proof -
  have "pow2 (ilog2 x) = pow2 (ilog2 x - 23) * pow2 (int 23)"
    using pow2_add [of "ilog2 x - 23" "int 23"] by simp
  then show ?thesis using ilog2_le [OF assms] unfolding pow2_nat by simp
qed

text \<open>Rounding never doubles a value: the step is at most half a unit in the 24th place.\<close>

lemma f32_round_le_double:
  assumes "0 \<le> x"
  shows "f32_round x \<le> 2 * x"
proof (cases "x = 0")
  case False
  then have x: "0 < x" using assms by simp
  let ?e = "ilog2 x - 23"
  have s: "pow2 ?e \<le> x" using f32_ulp_le [OF x] pow2_pos [of ?e] by (simp del: pow2_pos)
  have "of_int (round_even (x / pow2 ?e)) * pow2 ?e \<le> (x / pow2 ?e + 1 / 2) * pow2 ?e"
    by (intro mult_right_mono round_even_le) (simp add: less_imp_le)
  also have "\<dots> = x + pow2 ?e / 2"
    using pow2_pos [of ?e] by (simp add: field_simps del: pow2_pos)
  finally show ?thesis using s x by (simp add: f32_round_pos)
qed simp

lemma pow2_scale_int: "e \<le> 0 \<Longrightarrow> of_int k / pow2 e = of_int (k * 2 ^ nat (- e))"
  by (auto simp: pow2_def)

text \<open>Integers up to \<open>2 ^ 24\<close> are exact, and rounding does not cross them.\<close>

lemma f32_exp_small:
  assumes "0 < x" and "x \<le> of_nat n" and "n \<le> 2 ^ 24" and "0 < ilog2 x - 23"
  shows "x = 2 ^ 24 \<and> pow2 (ilog2 x - 23) = 2"
proof -
  let ?e = "ilog2 x - 23"
  have "pow2 ?e = 2 * 2 ^ nat (?e - 1)"
    using assms(4) pow2_add [of 1 "int (nat (?e - 1))"] unfolding pow2_nat by (simp add: pow2_def)
  moreover have "(1 :: rat) \<le> 2 ^ nat (?e - 1)" by simp
  ultimately have e2: "2 \<le> pow2 ?e" by linarith
  have nn: "(of_nat n :: rat) \<le> 2 ^ 24"
    using assms(3) by (metis of_nat_le_iff of_nat_numeral of_nat_power)
  have "2 * 2 ^ 23 \<le> pow2 ?e * 2 ^ 23" using e2 by (rule mult_right_mono) simp
  then show ?thesis using e2 nn f32_ulp_le [OF assms(1)] assms(2) by simp
qed

lemma f32_round_top: "0 < x \<Longrightarrow> x = 2 ^ 24 \<Longrightarrow> pow2 (ilog2 x - 23) = 2 \<Longrightarrow> f32_round x = x"
  using round_even_int [of "2 ^ 23"] by (simp add: f32_round_pos)

lemma f32_round_le_nat:
  assumes "0 \<le> x" and "x \<le> of_nat n" and "n \<le> 2 ^ 24"
  shows "f32_round x \<le> of_nat n"
proof (cases "x = 0")
  case False
  then have x: "0 < x" using assms by simp
  let ?e = "ilog2 x - 23"
  show ?thesis
  proof (cases "?e \<le> 0")
    case True
    have "x / pow2 ?e \<le> of_int (int n) / pow2 ?e"
      using assms(2) by (intro divide_right_mono) (simp_all add: less_imp_le)
    also have "\<dots> = of_int (int n * 2 ^ nat (- ?e))" by (rule pow2_scale_int [OF True])
    finally have "round_even (x / pow2 ?e) \<le> int n * 2 ^ nat (- ?e)" by (rule round_even_mono_int)
    then have "of_int (round_even (x / pow2 ?e)) \<le> of_int (int n) / pow2 ?e"
      unfolding pow2_scale_int [OF True] by (simp only: of_int_le_iff)
    then show ?thesis using x by (simp add: f32_round_pos pos_le_divide_eq)
  next
    case False
    then have "f32_round x = x"
      using f32_round_top [OF x] f32_exp_small [OF x assms(2,3)] by linarith
    then show ?thesis using assms(2) by simp
  qed
qed (use assms in simp)

lemma f32_round_nat:
  assumes "n \<le> 2 ^ 24"
  shows "f32_round (of_nat n) = of_nat n"
proof (cases "n = 0")
  case False
  let ?x = "of_nat n :: rat"
  let ?e = "ilog2 ?x - 23"
  have x: "0 < ?x" using False by simp
  show ?thesis
  proof (cases "?e \<le> 0")
    case True
    have "?x / pow2 ?e = of_int (int n * 2 ^ nat (- ?e))"
      using pow2_scale_int [OF True, of "int n"] by simp
    then have "of_int (round_even (?x / pow2 ?e)) = ?x / pow2 ?e"
      by (simp only: round_even_int)
    then show ?thesis using pow2_pos [of ?e] unfolding f32_round_pos [OF x] by (simp add: less_imp_neq [symmetric] del: pow2_pos)
  next
    case False
    then show ?thesis
      using f32_round_top [OF x] f32_exp_small [OF x order_refl assms] by linarith
  qed
qed simp

lemma f32_of_u32_small:
  assumes "w \<le> 2 ^ 24"
  shows "f32_of_u32 w = of_nat (unat w)"
proof -
  have "(of_int (uint w) :: rat) = of_nat (unat w)" by simp
  then show ?thesis
    using f32_round_nat [of "unat w"] assms by (simp add: f32_of_u32_def word_le_nat_alt)
qed

lemma f32_to_u32_in:
  assumes "0 \<le> x" and "x < 2 ^ 32"
  shows "unat (f32_to_u32 ub x) = nat \<lfloor>x\<rfloor>"
proof -
  have "0 \<le> \<lfloor>x\<rfloor>" "\<lfloor>x\<rfloor> < 2 ^ 32" using assms by (simp_all add: floor_less_iff)
  then show ?thesis
    using assms by (simp add: f32_to_u32_def unsigned_of_int take_bit_int_eq_self nat_take_bit_eq)
qed

end
