(* ===== verification/Vox_Config.thy ===== *)
theory Vox_Config
  imports Vox_Types Vox_Float
begin

text \<open>
  The configuration structs of \<^verbatim>\<open>include/voxsdk.h\<close> and the account object of
  \<^verbatim>\<open>src/voxsdk_internal.h\<close>. The global configuration has the fields the modelled components
  read; the account's configuration and the account object are complete, except for the
  duplicate \<open>cfg_*\<close> pointers that only own the heap copies of the configuration's strings.
  A timer is \<open>Some\<close> delay while it runs.
\<close>

record vox_cfg =
  vc_outbound_proxy :: cptr
  vc_stun_server :: cptr
  vc_turn_server :: cptr
  vc_turn_user :: cptr
  vc_turn_pass :: cptr
  vc_ice_enabled :: bool
  vc_rtcp_mux :: bool
  vc_media_enc :: media_enc
  vc_audio_codecs :: "codec list"
  vc_audio_codec_count :: int
  vc_audio_codec_names :: "string list"
  vc_audio_codec_name_count :: int
  vc_reg_expires :: u32
  vc_reg_refresh_pct :: u32
  vc_keepalive_interval :: u32
  vc_reg_retry_initial_ms :: u32
  vc_reg_retry_max_ms :: u32
  vc_reg_retry_backoff :: rat
  vc_reg_retry_max_attempts :: u32
  vc_reg_retry_jitter :: rat
  vc_sip_timer_f_ms :: u32
  vc_keepalive_reregister :: bool
  vc_dns_srv_failover :: bool

record acct_cfg =
  ac_uri :: cptr
  ac_password :: cptr
  ac_transport :: transport
  ac_server_host :: cptr
  ac_server_port :: u16
  ac_server_url :: cptr
  ac_auth_user :: cptr
  ac_display_name :: cptr
  ac_media_enc :: media_enc
  ac_ice_enabled :: bool
  ac_rtcp_mux :: bool
  ac_rtcp_mux_set :: bool
  ac_stun_server :: cptr
  ac_turn_server :: cptr
  ac_turn_user :: cptr
  ac_turn_pass :: cptr
  ac_outbound :: cptr
  ac_outbound_proxy :: cptr
  ac_verify_tls :: bool
  ac_push_provider :: push_provider
  ac_push_token :: cptr
  ac_push_param :: cptr
  ac_audio_codecs :: "codec list"
  ac_audio_codec_count :: int
  ac_audio_codec_names :: "string list"
  ac_audio_codec_name_count :: int
  ac_dtmf_mode :: dtmf_mode

text \<open>
  The account object. \<open>handle\<close> is its address, the number events and lists refer to it by;
  \<open>ua\<close> is baresip's user agent, \<open>None\<close> for NULL.
\<close>

record account =
  handle :: acct_id
  ua :: "nat option"
  acfg :: acct_cfg
  parsed_user :: string
  parsed_host :: string
  parsed_port :: u16
  parsed_transport :: transport
  auto_server_url :: string
  ws_host :: string
  ws_pin_path :: string
  ws_port :: u16
  reg_state :: reg_state
  reg_error :: vox_error
  reg_error_str :: string
  reconnecting :: bool
  retry_attempt :: u32
  retry_delay_ms :: u32
  last_rc_attempt :: u32
  last_rc_delay_ms :: u32
  last_rc_error :: vox_error
  last_rc_valid :: bool
  retry_tmr :: "u32 option"
  reg_watch_tmr :: "u32 option"
  reg_watch_elapsed_ms :: u32
  retry_policy_set :: bool
  retry_initial_ms :: u32
  retry_max_ms :: u32
  retry_backoff :: rat
  retry_max_attempts :: u32
  destroyed :: bool
  reg_wanted :: bool
  custom_hdrs :: "(string \<times> string) list"
  srv_uri :: "string list"
  srv_count :: u8
  srv_idx :: u8
  srv_pending :: bool
  srv_tried :: bool
  ka_tmr :: "u32 option"
  ka_in_flight :: bool
  ka_failed :: bool

definition VOX_SRV_MAX_TARGETS :: nat where "VOX_SRV_MAX_TARGETS = 4"

text \<open>The zeroed object \<open>create_fn\<close> starts from, with the caller's configuration in it.\<close>

definition account_zero :: "acct_id \<Rightarrow> acct_cfg \<Rightarrow> account" where
  "account_zero h c = \<lparr>handle = h, ua = None, acfg = c, parsed_user = [], parsed_host = [],
     parsed_port = 0, parsed_transport = TP_UDP, auto_server_url = [], ws_host = [],
     ws_pin_path = [], ws_port = 0, reg_state = REG_UNREGISTERED, reg_error = VOX_OK,
     reg_error_str = [], reconnecting = False, retry_attempt = 0, retry_delay_ms = 0,
     last_rc_attempt = 0, last_rc_delay_ms = 0, last_rc_error = VOX_OK, last_rc_valid = False,
     retry_tmr = None, reg_watch_tmr = None, reg_watch_elapsed_ms = 0, retry_policy_set = False,
     retry_initial_ms = 0, retry_max_ms = 0, retry_backoff = 0, retry_max_attempts = 0,
     destroyed = False, reg_wanted = False, custom_hdrs = [],
     srv_uri = replicate VOX_SRV_MAX_TARGETS [], srv_count = 0, srv_idx = 0, srv_pending = False,
     srv_tried = False, ka_tmr = None, ka_in_flight = False, ka_failed = False\<rparr>"

text \<open>The defaults of \<open>voxsdk_config_init\<close> for the fields above; \<open>0.2f\<close> is the nearest float.\<close>

definition voxsdk_config_init :: vox_cfg where
  "voxsdk_config_init = \<lparr>vc_outbound_proxy = None, vc_stun_server = None, vc_turn_server = None,
     vc_turn_user = None, vc_turn_pass = None, vc_ice_enabled = False, vc_rtcp_mux = True,
     vc_media_enc = MENC_NONE, vc_audio_codecs = replicate 8 CODEC_OPUS, vc_audio_codec_count = 0,
     vc_audio_codec_names = replicate 8 [], vc_audio_codec_name_count = 0, vc_reg_expires = 3600,
     vc_reg_refresh_pct = 75, vc_keepalive_interval = 30000, vc_reg_retry_initial_ms = 2000,
     vc_reg_retry_max_ms = 300000, vc_reg_retry_backoff = 2, vc_reg_retry_max_attempts = 0,
     vc_reg_retry_jitter = f32_round (2 / 10), vc_sip_timer_f_ms = 32000,
     vc_keepalive_reregister = True, vc_dns_srv_failover = True\<rparr>"

text \<open>A zeroed account configuration.\<close>

definition acct_cfg_zero :: acct_cfg where
  "acct_cfg_zero = \<lparr>ac_uri = None, ac_password = None, ac_transport = TP_UDP, ac_server_host = None,
     ac_server_port = 0, ac_server_url = None, ac_auth_user = None, ac_display_name = None,
     ac_media_enc = MENC_NONE, ac_ice_enabled = False, ac_rtcp_mux = False, ac_rtcp_mux_set = False,
     ac_stun_server = None, ac_turn_server = None, ac_turn_user = None, ac_turn_pass = None,
     ac_outbound = None, ac_outbound_proxy = None, ac_verify_tls = False,
     ac_push_provider = PUSH_NONE, ac_push_token = None, ac_push_param = None,
     ac_audio_codecs = replicate 8 CODEC_OPUS, ac_audio_codec_count = 0, ac_audio_codec_names = replicate 8 [],
     ac_audio_codec_name_count = 0, ac_dtmf_mode = DTMF_RFC4733\<rparr>"

end
