(* ===== verification/Vox_Account.thy ===== *)
theory Vox_Account
  imports Vox_Config Vox_Dns
begin

text \<open>
  The registration state machine of \<^verbatim>\<open>src/account.c\<close>: the reconnecting/failed decision and
  its event bookkeeping, the watchdog, SRV failover, the keepalive probe, the retry schedule
  with its backoff and jitter, and the functions the public calls dispatch to the re_main
  thread. A handler is a function from the account to the account and the effects in order;
  what the SIP stack and the host answer while it runs is in the environment record.

  Log lines are not effects. An event posted with \<open>vox_event_post\<close> carries the text its
  \<open>error_str\<close> pointer shows at that moment.
\<close>

section \<open>Effects and environment\<close>

datatype acct_eff =
    Post "cptr event"
  | UaRegister
  | UaUnregister
  | UaHangup
  | UaFree
  | SetOutbound string
  | OptionsSend string
  | DnsResolve string transport

text \<open>
  What the environment answers: \<open>ua_isregistered\<close>, whether \<open>ua_calls\<close> is empty, whether
  \<open>ua_account\<close> gives an account, the outcomes of \<open>ua_options_send\<close>,
  \<open>vox_dns_resolve\<close> and \<open>vox_qev_alloc\<close>, one \<open>rand_u32\<close>, the value of an undefined float
  conversion, and the handles on the list of live accounts.
\<close>

record env =
  ua_isregistered :: bool
  ua_calls_empty :: bool
  ua_has_account :: bool
  options_ok :: bool
  dns_ok :: bool
  qev_ok :: bool
  rand_u32 :: u32
  float_ub :: "rat \<Rightarrow> u32"
  live_accounts :: "acct_id list"

type_synonym handler = "(account, acct_eff) act"

definition post_registrar_warning :: "libre \<Rightarrow> env \<Rightarrow> string \<Rightarrow> handler" where
  "post_registrar_warning L E msg =
     onlyif (qev_ok E) (emit (Post (EV_REGISTRAR_WARNING (Some (fst (lb_snprintf L 4096 msg))))))"

section \<open>Reconnecting or failed\<close>

definition retry_budget_left :: "vox_cfg \<Rightarrow> account \<Rightarrow> bool" where
  "retry_budget_left G a =
     (let max_attempts = (if retry_policy_set a then retry_max_attempts a else vc_reg_retry_max_attempts G)
      in max_attempts = 0 \<or> retry_attempt a < max_attempts)"

definition vox_account_reg_fail_state :: "vox_cfg \<Rightarrow> vox_error \<Rightarrow> account \<Rightarrow> reg_state \<times> account" where
  "vox_account_reg_fail_state G err a =
     (let will_retry = (reg_wanted a \<and> \<not> destroyed a \<and> err \<noteq> ERR_AUTH \<and>
            (retry_tmr a \<noteq> None \<or> retry_budget_left G a))
      in (if will_retry then REG_RECONNECTING else REG_FAILED, a\<lparr>reconnecting := will_retry\<rparr>))"

definition vox_account_reconnect_reset :: "account \<Rightarrow> account" where
  "vox_account_reconnect_reset a = a\<lparr>last_rc_valid := False, retry_delay_ms := 0\<rparr>"

definition vox_account_reg_ev_prepare ::
  "cptr reg_ev \<Rightarrow> account \<Rightarrow> bool \<times> cptr reg_ev \<times> account" where
  "vox_account_reg_ev_prepare ev a0 =
     (let a = (if reg_st ev \<noteq> REG_RECONNECTING then vox_account_reconnect_reset a0 else a0);
          ev' = RegEv (reg_account ev) (reg_st ev) (reg_err ev) (retry_attempt a) (retry_delay_ms a) (reg_str ev)
      in if reg_st ev \<noteq> REG_RECONNECTING then (True, ev', a)
         else if last_rc_valid a \<and> last_rc_error a = reg_err ev \<and>
                 last_rc_attempt a = retry_attempt a \<and> last_rc_delay_ms a = retry_delay_ms a
         then (False, ev', a)
         else (True, ev', a\<lparr>last_rc_valid := True, last_rc_error := reg_err ev,
                            last_rc_attempt := retry_attempt a, last_rc_delay_ms := retry_delay_ms a\<rparr>))"

text \<open>
  How the event is used: posted only when \<open>prepare\<close> says it is news (\<open>k\<close> gives what is done
  with the stamped event), and \<open>(void)prepare; post\<close>.
\<close>

definition post_prepared :: "(cptr reg_ev \<Rightarrow> acct_eff list) \<Rightarrow> cptr reg_ev \<Rightarrow> handler" where
  "post_prepared k ev a =
     (case vox_account_reg_ev_prepare ev a of (news, ev', a') \<Rightarrow> (a', if news then k ev' else []))"

definition post_if_news :: "cptr reg_ev \<Rightarrow> handler" where
  "post_if_news = post_prepared (\<lambda>ev. [Post (EV_REG_STATE ev)])"

definition post_stamped :: "cptr reg_ev \<Rightarrow> handler" where
  "post_stamped ev a =
     (case vox_account_reg_ev_prepare ev a of (_, ev', a') \<Rightarrow> (a', [Post (EV_REG_STATE ev')]))"

text \<open>The copy in a queued event, with its own text.\<close>

definition with_str :: "cptr \<Rightarrow> cptr reg_ev \<Rightarrow> cptr reg_ev" where
  "with_str str ev = RegEv (reg_account ev) (reg_st ev) (reg_err ev) (reg_retry_attempt ev) (reg_retry_delay_ms ev) str"

definition reg_event :: "account \<Rightarrow> reg_state \<Rightarrow> vox_error \<Rightarrow> cptr \<Rightarrow> cptr reg_ev" where
  "reg_event a st err str = RegEv (Some (handle a)) st err 0 0 str"

definition error_str_ptr :: "account \<Rightarrow> cptr" where
  "error_str_ptr a = (if reg_error_str a \<noteq> [] then Some (reg_error_str a) else None)"

definition vox_account_keepalive_arm :: "vox_cfg \<Rightarrow> account \<Rightarrow> account" where
  "vox_account_keepalive_arm G a =
     (if destroyed a \<or> \<not> reg_wanted a then a
      else if vc_keepalive_interval G = 0 then a
      else a\<lparr>ka_tmr := Some (vc_keepalive_interval G)\<rparr>)"

definition vox_account_keepalive_cancel :: "account \<Rightarrow> account" where
  "vox_account_keepalive_cancel a = a\<lparr>ka_tmr := None\<rparr>"

definition vox_account_reg_reconnecting :: handler where
  "vox_account_reg_reconnecting a =
     (if destroyed a \<or> \<not> reg_wanted a then (a, [])
      else if reg_state a \<noteq> REG_REGISTERED \<and> reg_state a \<noteq> REG_REGISTERING then (a, [])
      else
        (let a1 = vox_account_keepalive_cancel (a\<lparr>reconnecting := True, reg_state := REG_RECONNECTING\<rparr>)
         in post_if_news (reg_event a1 REG_RECONNECTING VOX_OK None) a1))"

section \<open>The retry schedule\<close>

definition apply_jitter :: "(rat \<Rightarrow> u32) \<Rightarrow> u32 \<Rightarrow> u32 \<Rightarrow> rat \<Rightarrow> u32" where
  "apply_jitter ub rnd delay jitter =
     (if jitter \<le> 0 \<or> delay = 0 then delay
      else
        (let j = (if 1 < jitter then 1 else jitter);
             span = f32_to_u32 ub (f32_mult (f32_mult (f32_of_u32 delay) j) 2)
         in if span = 0 then delay
            else
              (let offset = rnd mod (span + 1) - span div 2
               in if sint offset < 0 \<and> delay \<le> - offset then 1 else delay + offset)))"

text \<open>The backoff loop, with the number of rounds still to run.\<close>

fun backoff_loop :: "(rat \<Rightarrow> u32) \<Rightarrow> rat \<Rightarrow> u32 \<Rightarrow> nat \<Rightarrow> u32 \<Rightarrow> u32" where
  "backoff_loop ub backoff max_ms 0 delay = delay"
| "backoff_loop ub backoff max_ms (Suc n) delay =
     (let d = f32_to_u32 ub (f32_mult (f32_of_u32 delay) backoff)
      in if max_ms \<le> d then max_ms else backoff_loop ub backoff max_ms n d)"

text \<open>The policy in force: the account's when one was set, else the global one.\<close>

definition eff_initial_ms :: "vox_cfg \<Rightarrow> account \<Rightarrow> u32" where
  "eff_initial_ms G a = (if retry_policy_set a then retry_initial_ms a else vc_reg_retry_initial_ms G)"

definition eff_max_ms :: "vox_cfg \<Rightarrow> account \<Rightarrow> u32" where
  "eff_max_ms G a = (if retry_policy_set a then retry_max_ms a else vc_reg_retry_max_ms G)"

definition eff_backoff :: "vox_cfg \<Rightarrow> account \<Rightarrow> rat" where
  "eff_backoff G a = (if retry_policy_set a then retry_backoff a else vc_reg_retry_backoff G)"

definition retry_base :: "vox_cfg \<Rightarrow> env \<Rightarrow> account \<Rightarrow> u32" where
  "retry_base G E a =
     backoff_loop (float_ub E) (eff_backoff G a) (eff_max_ms G a) (unat (retry_attempt a)) (eff_initial_ms G a)"

definition retry_delay :: "vox_cfg \<Rightarrow> env \<Rightarrow> account \<Rightarrow> u32" where
  "retry_delay G E a = apply_jitter (float_ub E) (rand_u32 E) (retry_base G E a) (vc_reg_retry_jitter G)"

definition vox_account_schedule_retry :: "vox_cfg \<Rightarrow> env \<Rightarrow> handler" where
  "vox_account_schedule_retry G E a =
     (if retry_tmr a \<noteq> None then (a, [])
      else if \<not> retry_budget_left G a then
        (let a1 = a\<lparr>reconnecting := False\<rparr>
         in if reg_state a1 \<noteq> REG_RECONNECTING then (a1, [])
            else
              (let a2 = a1\<lparr>reg_state := REG_FAILED\<rparr>
               in post_stamped (reg_event a2 REG_FAILED (reg_error a2) (error_str_ptr a2)) a2))
      else
        (let delay = retry_delay G E a;
             a1 = a\<lparr>retry_attempt := retry_attempt a + 1, retry_delay_ms := delay,
                    reconnecting := True, reg_state := REG_RECONNECTING\<rparr>
         in andthen (post_if_news (reg_event a1 REG_RECONNECTING (reg_error a1) (error_str_ptr a1)))
              (upd (\<lambda>x. x\<lparr>retry_tmr := Some delay\<rparr>)) a1))"

section \<open>The watchdog\<close>

definition VOX_REG_WATCH_INTERVAL_MS :: u32 where "VOX_REG_WATCH_INTERVAL_MS = 500"

definition vox_account_watch_registration :: "account \<Rightarrow> account" where
  "vox_account_watch_registration a =
     (if destroyed a \<or> ua a = None then a
      else a\<lparr>reg_watch_elapsed_ms := 0, reg_watch_tmr := Some VOX_REG_WATCH_INTERVAL_MS\<rparr>)"

definition reg_watch_timeout_ms :: "vox_cfg \<Rightarrow> u32" where
  "reg_watch_timeout_ms G = vc_sip_timer_f_ms G"

definition reg_watch_handler :: "libre \<Rightarrow> vox_cfg \<Rightarrow> env \<Rightarrow> handler" where
  "reg_watch_handler L G E a =
     (if destroyed a \<or> ua a = None \<or> \<not> reg_wanted a then (a, [])
      else if reg_state a = REG_REGISTERED \<or> reg_state a = REG_FAILED then (a, [])
      else if retry_tmr a \<noteq> None then (a, [])
      else if ua_isregistered E then
        andthen (post_registrar_warning L E
            ''registration is up but the stack emitted no event; state was synthesised from ua_isregistered()'')
          (andthen (upd (\<lambda>a. vox_account_keepalive_arm G
              (a\<lparr>reg_state := REG_REGISTERED, retry_attempt := 0, reconnecting := False\<rparr>)))
            (\<lambda>a. post_stamped (reg_event a REG_REGISTERED VOX_OK None) a)) a
      else
        (let a1 = a\<lparr>reg_watch_elapsed_ms := reg_watch_elapsed_ms a + VOX_REG_WATCH_INTERVAL_MS\<rparr>
         in if reg_watch_timeout_ms G \<noteq> 0 \<and> reg_watch_timeout_ms G \<le> reg_watch_elapsed_ms a1 then
              (let (st, a2) = vox_account_reg_fail_state G ERR_TIMEOUT (a1\<lparr>reg_error := ERR_TIMEOUT\<rparr>);
                   a3 = a2\<lparr>reg_state := st, reg_error_str := lb_ncpy L 256 ''registration timed out''\<rparr>
               in andthen (post_if_news (reg_event a3 st ERR_TIMEOUT (Some (reg_error_str a3))))
                    (vox_account_schedule_retry G E) a3)
            else (a1\<lparr>reg_watch_tmr := Some VOX_REG_WATCH_INTERVAL_MS\<rparr>, [])))"

section \<open>SRV failover\<close>

definition probe_host :: "account \<Rightarrow> string" where
  "probe_host a =
     (case ac_server_host (acfg a) of Some h \<Rightarrow> if h \<noteq> [] then h else parsed_host a | None \<Rightarrow> parsed_host a)"

definition host_is_ip_literal :: "libre \<Rightarrow> string \<Rightarrow> bool" where
  "host_is_ip_literal L host = (lb_sa_set_str L host \<noteq> None)"

definition srv_failover_eligible :: "libre \<Rightarrow> vox_cfg \<Rightarrow> account \<Rightarrow> bool" where
  "srv_failover_eligible L G a =
     (if \<not> vc_dns_srv_failover G then False
      else if ac_outbound (acfg a) \<noteq> None \<or> ac_outbound_proxy (acfg a) \<noteq> None \<or> vc_outbound_proxy G \<noteq> None
      then False
      else if ac_server_url (acfg a) \<noteq> None then False
      else if parsed_transport a = TP_WS \<or> parsed_transport a = TP_WSS then False
      else if ac_server_port (acfg a) \<noteq> 0 \<or> parsed_port a \<noteq> 0 then False
      else probe_host a \<noteq> [] \<and> \<not> host_is_ip_literal L (probe_host a))"

definition acct_is_live :: "acct_id list \<Rightarrow> account \<Rightarrow> bool" where
  "acct_is_live accounts a \<longleftrightarrow> handle a \<in> set accounts \<and> \<not> destroyed a"

text \<open>The loop of \<open>srv_done_handler\<close> over the result's indices from \<open>i\<close> on.\<close>

fun srv_store :: "libre \<Rightarrow> dns_result \<Rightarrow> nat list \<Rightarrow> account \<Rightarrow> account" where
  "srv_store L res [] a = a"
| "srv_store L res (i # is) a =
     (if VOX_SRV_MAX_TARGETS \<le> unat (srv_count a) then a
      else
        (case vox_dns_result_get L (Some res) i 256 of
           Inl _ \<Rightarrow> srv_store L res is a
         | Inr (t, host, port) \<Rightarrow>
             (let uri = vox_build_outbound L None (Some host) port t 320;
                  a1 = a\<lparr>srv_uri := (srv_uri a)[unat (srv_count a) := uri]\<rparr>
              in srv_store L res is (if uri \<noteq> [] then a1\<lparr>srv_count := srv_count a1 + 1\<rparr> else a1))))"

definition srv_done_handler :: "libre \<Rightarrow> env \<Rightarrow> dns_result \<Rightarrow> account \<Rightarrow> account" where
  "srv_done_handler L E res a =
     (if \<not> acct_is_live (live_accounts E) a then a
      else
        (let a1 = a\<lparr>srv_pending := False\<rparr>
         in if vox_dns_result_err (Some res) \<noteq> None then a1
            else srv_store L res [0..<vox_dns_result_count (Some res)] a1))"

definition vox_account_srv_resolve :: "libre \<Rightarrow> vox_cfg \<Rightarrow> env \<Rightarrow> handler" where
  "vox_account_srv_resolve L G E a =
     (if srv_tried a \<or> srv_pending a then (a, [])
      else if \<not> srv_failover_eligible L G a then (a, [])
      else (a\<lparr>srv_tried := True, srv_pending := dns_ok E\<rparr>, [DnsResolve (probe_host a) (parsed_transport a)]))"

definition srv_advance :: "env \<Rightarrow> handler" where
  "srv_advance E a =
     (if srv_count a < 2 \<or> ua a = None then (a, [])
      else
        (let a1 = a\<lparr>srv_idx := ucast ((ucast (srv_idx a) + 1 :: u32) mod ucast (srv_count a))\<rparr>
         in if \<not> ua_has_account E then (a1, [])
            else (a1, [SetOutbound (srv_uri a1 ! unat (srv_idx a1))])))"

definition retry_timer_handler :: "env \<Rightarrow> handler" where
  "retry_timer_handler E a =
     (if destroyed a \<or> ua a = None then (a, [])
      else andthen (srv_advance E) (andthen (emit UaRegister) (upd vox_account_watch_registration)) a)"

section \<open>The keepalive probe\<close>

definition keepalive_resp_handler :: "libre \<Rightarrow> vox_cfg \<Rightarrow> env \<Rightarrow> string option \<Rightarrow> handler" where
  "keepalive_resp_handler L G E failure a =
     (if \<not> acct_is_live (live_accounts E) a then (a, [])
      else
        (let a1 = a\<lparr>ka_in_flight := False\<rparr>
         in case failure of
              None \<Rightarrow>
                (if ka_failed a1 then
                   (let a2 = a1\<lparr>ka_failed := False\<rparr>
                    in if reg_state a2 = REG_RECONNECTING \<and> ua_isregistered E then
                         andthen (\<lambda>a. post_stamped (reg_event a REG_REGISTERED VOX_OK None) a)
                           (upd (vox_account_keepalive_arm G))
                           (a2\<lparr>reg_state := REG_REGISTERED, reg_error := VOX_OK, retry_attempt := 0,
                               reconnecting := False, reg_error_str := []\<rparr>)
                       else (vox_account_keepalive_arm G a2, []))
                 else (vox_account_keepalive_arm G a1, []))
            | Some why \<Rightarrow>
                (let a2 = a1\<lparr>ka_failed := True, reg_error := ERR_TIMEOUT\<rparr>;
                     a3 = (if vc_keepalive_reregister G \<and> reg_wanted a2 then
                             (case vox_account_reg_fail_state G ERR_TIMEOUT a2 of (st, x) \<Rightarrow> x\<lparr>reg_state := st\<rparr>)
                           else a2\<lparr>reg_state := (if reg_wanted a2 then REG_RECONNECTING else REG_FAILED),
                                   reconnecting := reg_wanted a2\<rparr>);
                     a4 = a3\<lparr>reg_error_str := lb_ncpy L 256 ''keepalive probe timed out''\<rparr>
                 in andthen (post_registrar_warning L E
                        (''keepalive probe went unanswered ('' @ why @ ''); the path to the proxy is unreachable''))
                      (andthen (post_if_news (reg_event a4 (reg_state a4) ERR_TIMEOUT (Some (reg_error_str a4))))
                        (if vc_keepalive_reregister G \<and> reg_wanted a4 then vox_account_schedule_retry G E
                         else upd (vox_account_keepalive_arm G))) a4)))"

definition keepalive_handler :: "libre \<Rightarrow> vox_cfg \<Rightarrow> env \<Rightarrow> handler" where
  "keepalive_handler L G E a =
     (if destroyed a \<or> ua a = None \<or> \<not> reg_wanted a then (a, [])
      else if ka_in_flight a then (a, [])
      else if \<not> ua_calls_empty E then (vox_account_keepalive_arm G a, [])
      else if probe_host a = [] then (a, [])
      else
        (case lb_snprintf L 320 (''sip:'' @ probe_host a) of
           (uri, n) \<Rightarrow>
             if n < 0 then (a, [])
             else if options_ok E then (a\<lparr>ka_in_flight := True\<rparr>, [OptionsSend uri])
             else (vox_account_keepalive_arm G (a\<lparr>ka_in_flight := False\<rparr>), [OptionsSend uri])))"

section \<open>The dispatched functions\<close>

definition register_fn :: "libre \<Rightarrow> vox_cfg \<Rightarrow> env \<Rightarrow> handler" where
  "register_fn L G E a =
     (if ua a = None then (a, [])
      else andthen (upd (\<lambda>a. a\<lparr>reg_wanted := True, reconnecting := False\<rparr>))
             (andthen (vox_account_srv_resolve L G E)
               (andthen (emit UaRegister) (upd vox_account_watch_registration))) a)"

definition unregister_fn :: handler where
  "unregister_fn a =
     (if ua a = None then (a, [])
      else (vox_account_keepalive_cancel (a\<lparr>reg_wanted := False, reconnecting := False, ka_failed := False,
              reg_state := REG_UNREGISTERING, reg_watch_tmr := None\<rparr>), [UaUnregister]))"

definition keepalive_now_fn :: "libre \<Rightarrow> vox_cfg \<Rightarrow> env \<Rightarrow> handler" where
  "keepalive_now_fn L G E a = keepalive_handler L G E (a\<lparr>ka_tmr := None\<rparr>)"

text \<open>The public call's check, made on the caller's thread before dispatching.\<close>

definition voxsdk_account_keepalive_now :: "account option \<Rightarrow> vox_error" where
  "voxsdk_account_keepalive_now acct =
     (case acct of
        None \<Rightarrow> ERR_INVAL
      | Some a \<Rightarrow> if ua a = None \<or> destroyed a \<or> \<not> reg_wanted a then ERR_STATE else VOX_OK)"

definition set_retry_policy_fn :: "u32 \<Rightarrow> u32 \<Rightarrow> rat \<Rightarrow> u32 \<Rightarrow> account \<Rightarrow> account" where
  "set_retry_policy_fn initial_ms max_ms backoff max_attempts a =
     a\<lparr>retry_policy_set := True, retry_initial_ms := initial_ms, retry_max_ms := max_ms,
       retry_backoff := backoff, retry_max_attempts := max_attempts\<rparr>"

definition cancel_retry_fn :: handler where
  "cancel_retry_fn a0 =
     (let a = a0\<lparr>retry_tmr := None, reg_watch_tmr := None, retry_attempt := 0\<rparr>
      in if reg_state a = REG_RECONNECTING then
           (let a1 = a\<lparr>reconnecting := False, reg_state := REG_FAILED\<rparr>
            in (a1, [Post (EV_REG_STATE (reg_event a1 REG_FAILED (reg_error a1) (error_str_ptr a1)))]))
         else (a, []))"

definition retry_now_fn :: handler where
  "retry_now_fn a0 =
     (let a = a0\<lparr>retry_tmr := None, retry_attempt := 0\<rparr>
      in if \<not> destroyed a \<and> ua a \<noteq> None then
           andthen (emit UaRegister) (upd vox_account_watch_registration) (a\<lparr>reg_wanted := True\<rparr>)
         else (a, []))"

section \<open>Push parameters\<close>

definition VOX_PUSH_PARAMS_BUFSZ :: nat where "VOX_PUSH_PARAMS_BUFSZ = 1024"

definition build_push_contact_params :: "libre \<Rightarrow> acct_cfg \<Rightarrow> nat \<Rightarrow> int \<times> string" where
  "build_push_contact_params L c buf_sz =
     (if ac_push_provider c = PUSH_NONE then (0, [])
      else
        (case ac_push_token c of
           None \<Rightarrow> (0, [])
         | Some token \<Rightarrow>
             if token = [] then (0, [])
             else
               (case (case ac_push_provider c of PUSH_APNS \<Rightarrow> Some ''apns''
                      | PUSH_APNS_SANDBOX \<Rightarrow> Some ''apns-sandbox'' | PUSH_FCM \<Rightarrow> Some ''fcm'' | _ \<Rightarrow> None) of
                  None \<Rightarrow> (0, [])
                | Some provider_str \<Rightarrow>
                    (let param = (case ac_push_param c of Some p \<Rightarrow> p | None \<Rightarrow> []);
                         need = length ''pn-provider='' + length provider_str + length '';pn-prid='' + length token + 1
                           + (if param \<noteq> [] then length '';pn-param='' + length param else 0)
                     in if buf_sz < need then (-1, [])
                        else
                          (let (buf, n) = lb_snprintf L buf_sz
                             (''pn-provider='' @ provider_str @ '';pn-prid='' @ token
                              @ (if param \<noteq> [] then '';pn-param='' @ param else []))
                           in (if 0 < n then n else -1, buf))))))"

text \<open>\<open>set_push_token_fn\<close>: the new state with its effects, and \<open>ctx->result\<close>.\<close>

definition set_push_token_fn :: "libre \<Rightarrow> cptr \<Rightarrow> account \<Rightarrow> (account \<times> acct_eff list) \<times> vox_error" where
  "set_push_token_fn L token a =
     (if ua a = None then ((a, []), ERR_STATE)
      else
        (let a1 = a\<lparr>acfg := (acfg a)\<lparr>ac_push_token := token\<rparr>\<rparr>
         in if fst (build_push_contact_params L (acfg a1) VOX_PUSH_PARAMS_BUFSZ) < 0 then ((a1, []), ERR_INVAL)
            else
              (let reg_in_flight = (reg_state a1 = REG_REGISTERING \<or> reg_state a1 = REG_UNREGISTERING \<or>
                     reg_state a1 = REG_RECONNECTING);
                   retry_pending = (retry_tmr a1 \<noteq> None)
               in ((a1, if \<not> reg_in_flight \<and> \<not> retry_pending then [UaRegister] else []), VOX_OK))))"

section \<open>What the stack reports\<close>

text \<open>
  The registration branches of \<open>bevent_handler\<close> (\<^verbatim>\<open>src/event.c\<close>), for an event whose user agent
  belongs to this account.
\<close>

definition bev_registering :: "libre \<Rightarrow> env \<Rightarrow> handler" where
  "bev_registering L E a =
     (if reconnecting a then
        (let a1 = a\<lparr>reg_state := REG_RECONNECTING\<rparr>
         in post_prepared
              (\<lambda>ev. [Post (EV_REG_STATE
                 (if reg_error_str a1 \<noteq> [] \<and> qev_ok E then with_str (Some (lb_ncpy L 4096 (reg_error_str a1))) ev
                  else ev))])
              (reg_event a1 REG_RECONNECTING (reg_error a1) None) a1)
      else (a\<lparr>reg_state := REG_REGISTERING\<rparr>,
            [Post (EV_REG_STATE (reg_event a REG_REGISTERING VOX_OK None))]))"

definition bev_register_ok :: "vox_cfg \<Rightarrow> handler" where
  "bev_register_ok G a =
     (let a1 = vox_account_keepalive_arm G (a\<lparr>reg_state := REG_REGISTERED, retry_attempt := 0,
            reconnecting := False, ka_failed := False, reg_error := VOX_OK, reg_error_str := []\<rparr>)
      in post_stamped (reg_event a1 REG_REGISTERED VOX_OK None) a1)"

text \<open>\<open>sip_reason_code\<close>: the leading three-digit status of a reason text, 0 when there is none.\<close>

definition sip_reason_code :: "cptr \<Rightarrow> int" where
  "sip_reason_code reason =
     (case reason of
        None \<Rightarrow> 0
      | Some s \<Rightarrow>
          (let (code, n) = strtol s
           in if n = 0 \<or> n \<noteq> 3 \<or> code < 100 \<or> 699 < code then 0 else code))"

definition reg_fail_error :: "cptr \<Rightarrow> vox_error" where
  "reg_fail_error reason =
     (let code = sip_reason_code reason
      in if code = 401 \<or> code = 403 \<or> code = 407 then ERR_AUTH
         else if 500 \<le> code \<and> code < 600 then ERR_SERVER_5XX
         else ERR_TRANSPORT)"

definition bev_register_fail :: "libre \<Rightarrow> vox_cfg \<Rightarrow> env \<Rightarrow> cptr \<Rightarrow> handler" where
  "bev_register_fail L G E reason a =
     (let err = reg_fail_error reason;
          (st, a1) = vox_account_reg_fail_state G err a;
          a2 = vox_account_keepalive_cancel (a1\<lparr>reg_state := st, reg_error := err\<rparr>);
          a3 = (case reason of Some r \<Rightarrow> a2\<lparr>reg_error_str := lb_ncpy L 256 r\<rparr> | None \<Rightarrow> a2)
      in andthen (onlyif (err \<noteq> ERR_AUTH) (vox_account_schedule_retry G E))
           (\<lambda>a4. post_prepared
              (\<lambda>ev. if qev_ok E then [Post (EV_REG_STATE (with_str (map_option (lb_ncpy L 4096) reason) ev))] else [])
              (reg_event a4 st err None) a4) a3)"

definition bev_unregistering :: handler where
  "bev_unregistering a =
     (let a1 = a\<lparr>reg_state := REG_UNREGISTERING, reconnecting := False\<rparr>
      in post_stamped (reg_event a1 REG_UNREGISTERING VOX_OK None) a1)"

end
