(* ===== verification/Vox_Reg_Fsm.thy ===== *)
theory Vox_Reg_Fsm
  imports Vox_Account
begin

text \<open>
  The registration state machine as a whole: every input an account can get (public calls,
  timers, answers to the keepalive probe, reports of the SIP stack, the network monitor's
  handover) as one step function over the handlers of \<open>Vox_Account\<close>, and what holds along
  every run of it.
\<close>

section \<open>The machine\<close>

text \<open>
  The three functions of \<^verbatim>\<open>src/netmon.c\<close> that drive registrations, for one account of the
  snapshot. The event of \<open>netmon_emit\<close> is an argument.
\<close>

definition net_excluded :: "account \<Rightarrow> bool" where
  "net_excluded a \<longleftrightarrow> destroyed a \<or> ua a = None \<or> \<not> reg_wanted a"

definition mark_reconnecting :: handler where
  "mark_reconnecting a = (if net_excluded a then (a, []) else vox_account_reg_reconnecting a)"

definition reregister_account :: "cptr event \<Rightarrow> handler" where
  "reregister_account ev a =
     (if net_excluded a then (a, [])
      else if reg_state a = REG_FAILED \<and> reg_error a = ERR_AUTH then (a, [])
      else andthen (upd (\<lambda>a. a\<lparr>retry_tmr := None, retry_attempt := 0, reconnecting := True\<rparr>))
             (andthen (emit (Post ev)) (andthen (emit UaRegister) (upd vox_account_watch_registration))) a)"

definition handover_account_to_retry :: "vox_cfg \<Rightarrow> env \<Rightarrow> handler" where
  "handover_account_to_retry G E a =
     (if net_excluded a then (a, [])
      else if reg_state a = REG_RECONNECTING then vox_account_schedule_retry G E a else (a, []))"

text \<open>The account's part of \<open>destroy_fn\<close> and of the destructor.\<close>

definition destroy_account :: handler where
  "destroy_account a =
     (let a1 = a\<lparr>destroyed := True, retry_tmr := None, reg_watch_tmr := None\<rparr>
      in (a1\<lparr>ua := None, ka_tmr := None\<rparr>, if ua a1 \<noteq> None then [UaHangup, UaFree] else []))"

datatype acct_in =
    In_Register | In_Unregister | In_KeepaliveNow | In_CancelRetry | In_RetryNow | In_Destroy
  | In_SetRetryPolicy u32 u32 rat u32
  | In_SetPushToken cptr
  | In_RetryFires | In_WatchFires | In_KaFires
  | In_KaResp "string option"
  | In_DnsDone dns_result
  | In_BevRegistering | In_BevOk | In_BevFail cptr | In_BevUnregistering
  | In_NetMark | In_NetReregister "cptr event" | In_NetToRetry

text \<open>A timer fires only while it runs, and no longer runs in its handler.\<close>

definition fires :: "(account \<Rightarrow> u32 option) \<Rightarrow> (account \<Rightarrow> account) \<Rightarrow> handler \<Rightarrow> handler" where
  "fires tmr clear h a = (if tmr a = None then (a, []) else h (clear a))"

fun acct_input :: "libre \<Rightarrow> vox_cfg \<Rightarrow> env \<Rightarrow> acct_in \<Rightarrow> handler" where
  "acct_input L G E In_Register = register_fn L G E"
| "acct_input L G E In_Unregister = unregister_fn"
| "acct_input L G E In_KeepaliveNow =
     (\<lambda>a. if voxsdk_account_keepalive_now (Some a) = VOX_OK then keepalive_now_fn L G E a else (a, []))"
| "acct_input L G E In_CancelRetry = cancel_retry_fn"
| "acct_input L G E In_RetryNow = retry_now_fn"
| "acct_input L G E In_Destroy = destroy_account"
| "acct_input L G E (In_SetRetryPolicy i m b n) = upd (set_retry_policy_fn i m b n)"
| "acct_input L G E (In_SetPushToken t) = (\<lambda>a. fst (set_push_token_fn L t a))"
| "acct_input L G E In_RetryFires = fires retry_tmr (\<lambda>a. a\<lparr>retry_tmr := None\<rparr>) (retry_timer_handler E)"
| "acct_input L G E In_WatchFires = fires reg_watch_tmr (\<lambda>a. a\<lparr>reg_watch_tmr := None\<rparr>) (reg_watch_handler L G E)"
| "acct_input L G E In_KaFires = fires ka_tmr (\<lambda>a. a\<lparr>ka_tmr := None\<rparr>) (keepalive_handler L G E)"
| "acct_input L G E (In_KaResp failure) = keepalive_resp_handler L G E failure"
| "acct_input L G E (In_DnsDone res) = upd (srv_done_handler L E res)"
| "acct_input L G E In_BevRegistering = bev_registering L E"
| "acct_input L G E In_BevOk = bev_register_ok G"
| "acct_input L G E (In_BevFail reason) = bev_register_fail L G E reason"
| "acct_input L G E In_BevUnregistering = bev_unregistering"
| "acct_input L G E In_NetMark = mark_reconnecting"
| "acct_input L G E (In_NetReregister ev) = reregister_account ev"
| "acct_input L G E In_NetToRetry = handover_account_to_retry G E"

text \<open>
  The machine's state has, beside the account, whether the network monitor still owes it a
  step: it marked the account as reconnecting and its own timer will re-REGISTER it or hand
  it to the retry policy.
\<close>

fun net_owes_after :: "acct_in \<Rightarrow> account \<Rightarrow> bool \<Rightarrow> bool" where
  "net_owes_after In_NetMark a owes = (owes \<or> \<not> net_excluded a)"
| "net_owes_after (In_NetReregister _) a owes = False"
| "net_owes_after In_NetToRetry a owes = False"
| "net_owes_after _ a owes = owes"

definition fsm_step :: "libre \<Rightarrow> vox_cfg \<Rightarrow> env \<times> acct_in \<Rightarrow> (account \<times> bool, acct_eff) act" where
  "fsm_step L G x s =
     (case acct_input L G (fst x) (snd x) (fst s) of
        (a', es) \<Rightarrow> ((a', net_owes_after (snd x) (fst s) (snd s)), es))"

section \<open>What the event bookkeeping leaves alone\<close>

lemma prepare_fields:
  assumes "vox_account_reg_ev_prepare ev a = (news, ev', a')"
  shows "retry_tmr a' = retry_tmr a" "reg_watch_tmr a' = reg_watch_tmr a" "ka_tmr a' = ka_tmr a"
    "ka_in_flight a' = ka_in_flight a" "reg_state a' = reg_state a" "reg_wanted a' = reg_wanted a"
    "destroyed a' = destroyed a" "ua a' = ua a" "retry_attempt a' = retry_attempt a"
    "retry_policy_set a' = retry_policy_set a" "retry_max_attempts a' = retry_max_attempts a"
    "srv_uri a' = srv_uri a" "srv_count a' = srv_count a" "srv_idx a' = srv_idx a" "acfg a' = acfg a"
    "parsed_host a' = parsed_host a" "reg_error a' = reg_error a" "reconnecting a' = reconnecting a"
    "handle a' = handle a" "reg_error_str a' = reg_error_str a"
  using assms by (auto simp: vox_account_reg_ev_prepare_def vox_account_reconnect_reset_def Let_def split: if_splits)

lemma post_fields [simp]:
  "retry_tmr (fst (post_prepared k ev a)) = retry_tmr a" "reg_watch_tmr (fst (post_prepared k ev a)) = reg_watch_tmr a"
  "ka_tmr (fst (post_prepared k ev a)) = ka_tmr a" "ka_in_flight (fst (post_prepared k ev a)) = ka_in_flight a"
  "reg_state (fst (post_prepared k ev a)) = reg_state a" "reg_wanted (fst (post_prepared k ev a)) = reg_wanted a"
  "destroyed (fst (post_prepared k ev a)) = destroyed a" "ua (fst (post_prepared k ev a)) = ua a"
  "retry_attempt (fst (post_prepared k ev a)) = retry_attempt a"
  "retry_policy_set (fst (post_prepared k ev a)) = retry_policy_set a"
  "retry_max_attempts (fst (post_prepared k ev a)) = retry_max_attempts a"
  "srv_uri (fst (post_prepared k ev a)) = srv_uri a" "srv_count (fst (post_prepared k ev a)) = srv_count a"
  "srv_idx (fst (post_prepared k ev a)) = srv_idx a" "acfg (fst (post_prepared k ev a)) = acfg a"
  "parsed_host (fst (post_prepared k ev a)) = parsed_host a" "reg_error (fst (post_prepared k ev a)) = reg_error a"
  "reconnecting (fst (post_prepared k ev a)) = reconnecting a"
  "handle (fst (post_prepared k ev a)) = handle a" "reg_error_str (fst (post_prepared k ev a)) = reg_error_str a"
  by (auto simp: post_prepared_def prepare_fields split: prod.splits)

lemmas post_if_news_fields [simp] =
  post_fields [where k = "\<lambda>ev. [Post (EV_REG_STATE ev)]", folded post_if_news_def]

lemma post_stamped_fields [simp]:
  "retry_tmr (fst (post_stamped ev a)) = retry_tmr a" "reg_watch_tmr (fst (post_stamped ev a)) = reg_watch_tmr a"
  "ka_tmr (fst (post_stamped ev a)) = ka_tmr a" "ka_in_flight (fst (post_stamped ev a)) = ka_in_flight a"
  "reg_state (fst (post_stamped ev a)) = reg_state a" "reg_wanted (fst (post_stamped ev a)) = reg_wanted a"
  "destroyed (fst (post_stamped ev a)) = destroyed a" "ua (fst (post_stamped ev a)) = ua a"
  "retry_attempt (fst (post_stamped ev a)) = retry_attempt a"
  "retry_policy_set (fst (post_stamped ev a)) = retry_policy_set a"
  "retry_max_attempts (fst (post_stamped ev a)) = retry_max_attempts a"
  "srv_uri (fst (post_stamped ev a)) = srv_uri a" "srv_count (fst (post_stamped ev a)) = srv_count a"
  "srv_idx (fst (post_stamped ev a)) = srv_idx a" "acfg (fst (post_stamped ev a)) = acfg a"
  "parsed_host (fst (post_stamped ev a)) = parsed_host a" "reg_error (fst (post_stamped ev a)) = reg_error a"
  "reconnecting (fst (post_stamped ev a)) = reconnecting a"
  "handle (fst (post_stamped ev a)) = handle a" "reg_error_str (fst (post_stamped ev a)) = reg_error_str a"
  by (auto simp: post_stamped_def prepare_fields split: prod.splits)

lemma retry_budget_cong:
  "retry_policy_set a = retry_policy_set b \<Longrightarrow> retry_max_attempts a = retry_max_attempts b \<Longrightarrow>
   retry_attempt a = retry_attempt b \<Longrightarrow> retry_budget_left G a = retry_budget_left G b"
  by (simp add: retry_budget_left_def)

lemma warning_state [simp]: "fst (post_registrar_warning L E msg a) = a"
  by (simp add: post_registrar_warning_def onlyif_def)

section \<open>A reconnect is always driven by something\<close>

definition armed :: "account \<Rightarrow> bool" where
  "armed a \<longleftrightarrow> retry_tmr a \<noteq> None \<or> reg_watch_tmr a \<noteq> None \<or> ka_tmr a \<noteq> None \<or> ka_in_flight a"

definition probe_ok :: "account \<Rightarrow> bool" where
  "probe_ok a \<longleftrightarrow> probe_host a \<noteq> [] \<and> length (probe_host a) < 316"

definition driven :: "account \<times> bool \<Rightarrow> bool" where
  "driven s \<longleftrightarrow> probe_ok (fst s) \<and>
     (reg_wanted (fst s) \<and> \<not> destroyed (fst s) \<and> ua (fst s) \<noteq> None \<and> reg_state (fst s) = REG_RECONNECTING \<longrightarrow>
        armed (fst s) \<or> snd s)"

lemma schedule_retry_armed:
  "reg_state (fst (vox_account_schedule_retry G E a)) = REG_RECONNECTING \<Longrightarrow>
     retry_tmr (fst (vox_account_schedule_retry G E a)) \<noteq> None"
  by (auto simp: vox_account_schedule_retry_def Let_def split: if_splits)

lemma schedule_retry_probe [simp]:
  "acfg (fst (vox_account_schedule_retry G E a)) = acfg a"
  "parsed_host (fst (vox_account_schedule_retry G E a)) = parsed_host a"
  by (simp_all add: vox_account_schedule_retry_def Let_def)

lemma probe_host_cong: "acfg a = acfg b \<Longrightarrow> parsed_host a = parsed_host b \<Longrightarrow> probe_host a = probe_host b"
  by (simp add: probe_host_def split: option.splits)

lemma watch_registration_fields [simp]:
  "acfg (vox_account_watch_registration a) = acfg a"
  "parsed_host (vox_account_watch_registration a) = parsed_host a"
  "acfg (vox_account_keepalive_arm G a) = acfg a"
  "parsed_host (vox_account_keepalive_arm G a) = parsed_host a"
  "acfg (vox_account_keepalive_cancel a) = acfg a"
  "parsed_host (vox_account_keepalive_cancel a) = parsed_host a"
  by (simp_all add: vox_account_watch_registration_def vox_account_keepalive_arm_def vox_account_keepalive_cancel_def)

lemma srv_store_fields [simp]:
  "acfg (srv_store L res is a) = acfg a" "parsed_host (srv_store L res is a) = parsed_host a"
  "retry_tmr (srv_store L res is a) = retry_tmr a" "reg_watch_tmr (srv_store L res is a) = reg_watch_tmr a"
  "ka_tmr (srv_store L res is a) = ka_tmr a" "ka_in_flight (srv_store L res is a) = ka_in_flight a"
  "reg_state (srv_store L res is a) = reg_state a" "reg_wanted (srv_store L res is a) = reg_wanted a"
  "destroyed (srv_store L res is a) = destroyed a" "ua (srv_store L res is a) = ua a"
  "retry_attempt (srv_store L res is a) = retry_attempt a"
  "retry_policy_set (srv_store L res is a) = retry_policy_set a"
  "retry_max_attempts (srv_store L res is a) = retry_max_attempts a"
  "reg_error_str (srv_store L res is a) = reg_error_str a"
  "last_rc_valid (srv_store L res is a) = last_rc_valid a"
  "last_rc_error (srv_store L res is a) = last_rc_error a"
  "last_rc_attempt (srv_store L res is a) = last_rc_attempt a"
  "last_rc_delay_ms (srv_store L res is a) = last_rc_delay_ms a"
  by (induction "is" arbitrary: a) (simp_all add: Let_def split: sum.splits)

lemma fail_state_fields:
  assumes "vox_account_reg_fail_state G err a = (st, a')"
  shows "a' = a\<lparr>reconnecting := reconnecting a'\<rparr>"
    and "st = REG_RECONNECTING \<Longrightarrow> err \<noteq> ERR_AUTH \<and> reg_wanted a \<and> \<not> destroyed a \<and> (retry_tmr a \<noteq> None \<or> retry_budget_left G a)"
    and "st \<noteq> REG_RECONNECTING \<Longrightarrow> st = REG_FAILED"
  using assms by (auto simp: vox_account_reg_fail_state_def Let_def split: if_splits)

lemmas handler_defs =
  register_fn_def unregister_fn_def keepalive_now_fn_def cancel_retry_fn_def retry_now_fn_def
  destroy_account_def set_retry_policy_fn_def retry_timer_handler_def reg_watch_handler_def
  keepalive_handler_def keepalive_resp_handler_def srv_done_handler_def bev_registering_def
  bev_register_ok_def bev_register_fail_def bev_unregistering_def mark_reconnecting_def
  reregister_account_def handover_account_to_retry_def vox_account_reg_reconnecting_def
  vox_account_srv_resolve_def srv_advance_def fires_def set_push_token_fn_def


lemma fail_state_simp:
  "vox_account_reg_fail_state G err a =
     (if reg_wanted a \<and> \<not> destroyed a \<and> err \<noteq> ERR_AUTH \<and> (retry_tmr a \<noteq> None \<or> retry_budget_left G a)
      then (REG_RECONNECTING, a\<lparr>reconnecting := True\<rparr>) else (REG_FAILED, a\<lparr>reconnecting := False\<rparr>))"
  by (simp add: vox_account_reg_fail_state_def Let_def)

lemma acct_input_host:
  "ac_server_host (acfg (fst (acct_input L G E i a))) = ac_server_host (acfg a) \<and>
    parsed_host (fst (acct_input L G E i a)) = parsed_host a"
  by (cases i)
    (simp_all add: handler_defs Let_def fail_state_simp onlyif_def split: prod.splits option.splits)

lemma acct_input_probe_ok: "probe_ok (fst (acct_input L G E i a)) = probe_ok a"
  using acct_input_host [of L G E i a] by (auto simp: probe_ok_def probe_host_def split: option.splits)
definition fsm_ok :: "env \<times> acct_in \<Rightarrow> account \<times> bool \<Rightarrow> bool" where
  "fsm_ok x s \<longleftrightarrow> (snd x = In_BevRegistering \<longrightarrow> reconnecting (fst s) \<longrightarrow> reg_watch_tmr (fst s) \<noteq> None)"

definition recon :: "account \<Rightarrow> bool" where
  "recon a \<longleftrightarrow> reg_wanted a \<and> \<not> destroyed a \<and> ua a \<noteq> None \<and> reg_state a = REG_RECONNECTING"

lemma driven_iff: "driven (a, b) \<longleftrightarrow> probe_ok a \<and> (recon a \<longrightarrow> armed a \<or> b)"
  by (auto simp: driven_def recon_def)

lemma probe_snprintf: "libre_laws L \<Longrightarrow> probe_ok a \<Longrightarrow> \<not> snd (lb_snprintf L 320 (''sip:'' @ probe_host a)) < 0 \<and> probe_host a \<noteq> []"
  by (simp add: probe_ok_def libre_snprintf_fits)

lemma schedule_armed: "recon (fst (vox_account_schedule_retry G E a)) \<Longrightarrow> armed (fst (vox_account_schedule_retry G E a))"
  using schedule_retry_armed [of G E a] by (simp add: recon_def armed_def)

lemma watch_armed: "\<not> destroyed a \<Longrightarrow> ua a \<noteq> None \<Longrightarrow> armed (vox_account_watch_registration a)"
  by (auto simp: armed_def vox_account_watch_registration_def)

lemma keepalive_armed: "vc_keepalive_interval G \<noteq> 0 \<Longrightarrow> \<not> destroyed a \<Longrightarrow> reg_wanted a \<Longrightarrow> armed (vox_account_keepalive_arm G a)"
  by (simp add: armed_def vox_account_keepalive_arm_def)

lemma arm_recon [simp]: "recon (vox_account_keepalive_arm G a) = recon a"
  "recon (vox_account_watch_registration a) = recon a"
  by (simp_all add: recon_def vox_account_keepalive_arm_def vox_account_watch_registration_def)

definition safe :: "account \<Rightarrow> bool" where "safe a \<longleftrightarrow> recon a \<longrightarrow> armed a"

lemma safe_schedule: "safe (fst (vox_account_schedule_retry G E a))"
  by (simp add: safe_def schedule_armed)

lemma safe_watch: "safe (vox_account_watch_registration a)"
  using watch_armed [of a] by (auto simp: safe_def) (auto simp: recon_def)

lemma safe_keepalive: "vc_keepalive_interval G \<noteq> 0 \<Longrightarrow> safe (vox_account_keepalive_arm G a)"
  using keepalive_armed [of G a] by (auto simp: safe_def) (auto simp: recon_def)

lemma safe_other: "reg_state a \<noteq> REG_RECONNECTING \<Longrightarrow> safe a"
  by (simp add: safe_def recon_def)

lemmas safe_rules = safe_schedule safe_watch safe_keepalive safe_other

lemma retry_fires_safe: "safe a \<Longrightarrow> safe (fst (acct_input L G E In_RetryFires a))"
  by (auto simp: fires_def retry_timer_handler_def safe_watch) (auto simp: safe_def recon_def)

lemma watch_fires_safe: "vc_keepalive_interval G \<noteq> 0 \<Longrightarrow> safe a \<Longrightarrow> safe (fst (acct_input L G E In_WatchFires a))"
  apply (simp add: fires_def reg_watch_handler_def Let_def safe_schedule fail_state_simp)
  apply (auto simp: safe_def recon_def armed_def vox_account_keepalive_arm_def split: prod.splits)
  done

lemma keepalive_handler_safe:
  assumes "libre_laws L" and "probe_ok a" and "vc_keepalive_interval G \<noteq> 0" and "safe a"
  shows "safe (fst (keepalive_handler L G E (a\<lparr>ka_tmr := None\<rparr>)))"
proof -
  have p: "probe_host (a\<lparr>ka_tmr := None\<rparr>) = probe_host a" by (rule probe_host_cong) simp_all
  obtain uri n where s: "lb_snprintf L 320 (''sip:'' @ probe_host a) = (uri, n)" "0 \<le> n"
    using probe_snprintf [OF assms(1,2)] by (cases "lb_snprintf L 320 (''sip:'' @ probe_host a)") auto
  show ?thesis
    using s assms(4) probe_snprintf [OF assms(1,2)] safe_keepalive [OF assms(3)]
    unfolding keepalive_handler_def p by (auto simp: safe_def recon_def armed_def)
qed

lemma ka_resp_safe:
  "vc_keepalive_interval G \<noteq> 0 \<Longrightarrow> safe a \<Longrightarrow> safe (fst (keepalive_resp_handler L G E w a))"
  by (cases w) (simp_all add: keepalive_resp_handler_def safe_keepalive safe_schedule Let_def)

lemma register_fail_safe: "safe (fst (bev_register_fail L G E reason a))"
proof -
  let ?err = "reg_fail_error reason"
  obtain st a1 where fs: "vox_account_reg_fail_state G ?err a = (st, a1)" by fastforce
  let ?a2 = "vox_account_keepalive_cancel (a1\<lparr>reg_state := st, reg_error := ?err\<rparr>)"
  let ?a3 = "case reason of Some r \<Rightarrow> ?a2\<lparr>reg_error_str := lb_ncpy L 256 r\<rparr> | None \<Rightarrow> ?a2"
  let ?a4 = "fst (onlyif (?err \<noteq> ERR_AUTH) (vox_account_schedule_retry G E) ?a3)"
  have "reg_state ?a3 = st" by (simp add: vox_account_keepalive_cancel_def split: option.splits)
  then have "safe ?a4"
    using fs safe_schedule [of G E ?a3]
    by (cases "?err = ERR_AUTH") (auto simp: fail_state_simp safe_def recon_def split: if_splits)
  then show ?thesis
    by (auto simp: bev_register_fail_def Let_def fs safe_def recon_def armed_def split: prod.splits)
qed

lemma schedule_safe_net: "safe a \<Longrightarrow> safe (fst (handover_account_to_retry G E a))"
  by (simp add: handover_account_to_retry_def safe_schedule)

text \<open>The inputs whose handlers end in a fixed state or arm nothing by themselves.\<close>

fun plain_input :: "acct_in \<Rightarrow> bool" where
  "plain_input In_RetryFires = False"
| "plain_input In_WatchFires = False"
| "plain_input In_KaFires = False"
| "plain_input In_KeepaliveNow = False"
| "plain_input (In_KaResp _) = False"
| "plain_input (In_BevFail _) = False"
| "plain_input In_NetMark = False"
| "plain_input (In_NetReregister _) = False"
| "plain_input In_NetToRetry = False"
| "plain_input _ = True"

lemma plain_input_safe:
  assumes "plain_input i" and "safe a" and "vc_keepalive_interval G \<noteq> 0"
    and "i = In_BevRegistering \<Longrightarrow> reconnecting a \<Longrightarrow> reg_watch_tmr a \<noteq> None"
  shows "safe (fst (acct_input L G E i a))"
  using assms
  apply (cases i)
  apply (simp_all add: register_fn_def unregister_fn_def cancel_retry_fn_def retry_now_fn_def
      destroy_account_def set_retry_policy_fn_def set_push_token_fn_def srv_done_handler_def
      bev_registering_def bev_register_ok_def bev_unregistering_def safe_watch safe_other Let_def)
  apply (auto simp: safe_def recon_def armed_def vox_account_keepalive_cancel_def
      vox_account_keepalive_arm_def split: prod.splits)
  done

lemma acct_input_safe:
  assumes "libre_laws L" and "vc_keepalive_interval G \<noteq> 0" and "probe_ok a" and "safe a"
    and "fsm_ok (E, i) (a, False)" and "i = In_NetMark \<Longrightarrow> net_excluded a"
  shows "safe (fst (acct_input L G E i a))"
proof -
  have plain: "plain_input i \<Longrightarrow> ?thesis"
    using plain_input_safe [OF _ assms(4,2), of i L E] assms(5) by (simp add: fsm_ok_def)
  show ?thesis
  proof (cases i)
    case In_KeepaliveNow
    then show ?thesis using keepalive_handler_safe [OF assms(1,3,2,4)] assms(4) by (simp add: keepalive_now_fn_def)
  next
    case In_KaFires
    then show ?thesis using keepalive_handler_safe [OF assms(1,3,2,4)] assms(4) by (simp add: fires_def)
  next
    case In_NetMark
    then show ?thesis using assms(4,6) by (simp add: mark_reconnecting_def)
  next
    case (In_NetReregister ev)
    then show ?thesis using assms(4) by (simp add: reregister_account_def safe_watch)
  next
    case In_RetryFires
    then show ?thesis using retry_fires_safe [OF assms(4)] by simp
  next
    case In_WatchFires
    then show ?thesis using watch_fires_safe [OF assms(2,4)] by simp
  next
    case (In_KaResp w)
    then show ?thesis using ka_resp_safe [OF assms(2,4)] by simp
  next
    case (In_BevFail r)
    then show ?thesis using register_fail_safe by simp
  next
    case In_NetToRetry
    then show ?thesis using schedule_safe_net [OF assms(4)] by simp
  qed (use plain in simp_all)
qed

lemma net_inputs_safe:
  "safe (fst (reregister_account ev a))" "safe (fst (handover_account_to_retry G E a))"
  by (auto simp: reregister_account_def handover_account_to_retry_def safe_watch safe_schedule safe_other)
    (auto simp: safe_def recon_def net_excluded_def)

lemma driven_safe: "driven (a, b) \<longleftrightarrow> probe_ok a \<and> (safe a \<or> b)"
  by (auto simp: driven_iff safe_def)

lemma driven_step:
  assumes "libre_laws L" and "vc_keepalive_interval G \<noteq> 0" and "driven s" and "fsm_ok x s"
  shows "driven (fst (fsm_step L G x s))"
proof -
  obtain E i a b where x: "x = (E, i)" "s = (a, b)" by (metis surj_pair)
  let ?a' = "fst (acct_input L G E i a)"
  have st: "fst (fsm_step L G x s) = (?a', net_owes_after i a b)"
    by (simp add: fsm_step_def x split: prod.splits)
  have p: "probe_ok a" "probe_ok ?a'" using assms(3) by (simp_all add: driven_safe x acct_input_probe_ok)
  have "safe ?a' \<or> net_owes_after i a b"
  proof (cases "net_owes_after i a b")
    case False
    show ?thesis
    proof (cases b)
      case True
      with False have "(\<exists>ev. i = In_NetReregister ev) \<or> i = In_NetToRetry" by (cases i) auto
      then show ?thesis using net_inputs_safe by auto
    next
      case F: False
      then have "safe a" using assms(3) by (simp add: driven_safe x)
      moreover have "i = In_NetMark \<Longrightarrow> net_excluded a" using False by auto
      ultimately show ?thesis
        using acct_input_safe [OF assms(1,2) p(1)] assms(4) by (simp add: x fsm_ok_def)
    qed
  qed simp
  with p show ?thesis by (simp add: st driven_safe)
qed

interpretation drive: invariant_machine "fsm_step L G" fsm_ok
  "\<lambda>s. libre_laws L \<and> vc_keepalive_interval G \<noteq> 0 \<and> driven s" for L G
  by unfold_locales (simp add: driven_step)

section \<open>Concrete accounts and environments\<close>

definition env0 :: env where
  "env0 = \<lparr>ua_isregistered = False, ua_calls_empty = True, ua_has_account = True, options_ok = True,
     dns_ok = True, qev_ok = True, rand_u32 = 0, float_ub = (\<lambda>_. 0), live_accounts = [1]\<rparr>"

definition acct0 :: account where
  "acct0 = (account_zero 1 acct_cfg_zero)\<lparr>ua := Some 7, parsed_user := ''alice'',
     parsed_host := ''example.com'', parsed_port := 5060\<rparr>"

text \<open>The defaults without jitter.\<close>

definition cfg0 :: vox_cfg where
  "cfg0 = voxsdk_config_init\<lparr>vc_reg_retry_jitter := 0\<rparr>"

abbreviation sends :: "acct_in \<Rightarrow> env \<times> acct_in" where
  "sends i \<equiv> (env0, i)"

section \<open>Properties\<close>

text \<open>
  C8: RECONNECTING is never a dead end. Whatever sequence of calls, timers, answers and stack
  reports an account goes through, whenever the application wants it registered and its state
  is RECONNECTING, something is going to act on it: the retry timer, the registration
  watchdog, the keepalive timer or an outstanding probe, or the network monitor that marked
  it. The environment is assumed to have probes switched on and a host that fits the probe's
  URI, and to report the REGISTER of a recovery while its watchdog runs.
\<close>

theorem reconnecting_always_driven:
  assumes "libre_laws L" and "vc_keepalive_interval G \<noteq> 0" and "probe_ok a" and "reg_state a \<noteq> REG_RECONNECTING"
    and "legal_run (fsm_step L G) fsm_ok xs (a, False)"
    and "fst (run_acts (fsm_step L G) xs (a, False)) = (a', owes)"
    and "reg_wanted a'" and "\<not> destroyed a'" and "ua a' \<noteq> None" and "reg_state a' = REG_RECONNECTING"
  shows "retry_tmr a' \<noteq> None \<or> reg_watch_tmr a' \<noteq> None \<or> ka_tmr a' \<noteq> None \<or> ka_in_flight a' \<or> owes"
proof -
  have "driven (a, False)" using assms(3,4) by (simp add: driven_def)
  then have "driven (a', owes)"
    using drive.run_inv [of L G "(a, False)" xs] assms(1,2,5,6) by simp
  then show ?thesis using assms(7-10) by (simp add: driven_def armed_def)
qed

definition recovering_run :: "(env \<times> acct_in) list" where
  "recovering_run = [sends In_Register, sends In_BevRegistering, sends In_BevOk, sends In_KaFires,
     sends (In_KaResp (Some ''timed out'')), sends In_RetryFires, sends In_BevRegistering]"

theorem reconnecting_always_driven_witness:
  "reg_state (fst (fst (run_acts (fsm_step libre_ref cfg0) recovering_run (acct0, False)))) = REG_RECONNECTING \<and>
   (let a = fst (fst (run_acts (fsm_step libre_ref cfg0) recovering_run (acct0, False)))
    in retry_tmr a \<noteq> None \<or> reg_watch_tmr a \<noteq> None \<or> ka_tmr a \<noteq> None \<or> ka_in_flight a)"
proof -
  let ?s = "fst (run_acts (fsm_step libre_ref cfg0) recovering_run (acct0, False))"
  have "case ?s of (a, owes) \<Rightarrow>
      reg_state a = REG_RECONNECTING \<and> reg_wanted a \<and> \<not> destroyed a \<and> ua a \<noteq> None \<and> \<not> owes"
    by code_simp
  then have f: "reg_state (fst ?s) = REG_RECONNECTING" "reg_wanted (fst ?s)" "\<not> destroyed (fst ?s)" "ua (fst ?s) \<noteq> None"
    "\<not> snd ?s"
    by (simp_all add: case_prod_beta)
  have "vc_keepalive_interval cfg0 \<noteq> 0" "probe_ok acct0" "reg_state acct0 \<noteq> REG_RECONNECTING"
    "legal_run (fsm_step libre_ref cfg0) fsm_ok recovering_run (acct0, False)"
    by code_simp+
  from reconnecting_always_driven [OF libre_ref_laws this prod.collapse [symmetric] f(2-4) f(1)] f(5)
  show ?thesis by (simp add: Let_def f(1))
qed

text \<open>
  A failure the SDK can act on arms exactly one retry. For an account the application
  wants registered, with no retry armed and budget left, a REGISTER failure that is not an
  authentication failure counts one attempt, arms the retry timer with the computed delay,
  moves to RECONNECTING and posts one event that carries this attempt and this delay. The
  same failure reported again before the timer fires changes neither count nor timer and
  posts nothing.
\<close>

theorem register_fail_arms_once:
  assumes "reg_wanted a" and "\<not> destroyed a" and "retry_tmr a = None" and "retry_budget_left G a"
    and "reg_fail_error reason \<noteq> ERR_AUTH" and "\<not> last_rc_valid a"
    and "bev_register_fail L G E reason a = (a', es)"
    and "bev_register_fail L G E reason a' = (a'', es')"
  shows "retry_tmr a' = Some (retry_delay G E a) \<and> retry_attempt a' = retry_attempt a + 1 \<and>
    reg_state a' = REG_RECONNECTING \<and>
    (\<exists>str. es = [Post (EV_REG_STATE (RegEv (Some (handle a)) REG_RECONNECTING (reg_fail_error reason)
        (retry_attempt a + 1) (retry_delay G E a) str))]) \<and>
    retry_tmr a'' = retry_tmr a' \<and> retry_attempt a'' = retry_attempt a' \<and> es' = []"
proof -
  let ?err = "reg_fail_error reason"
  let ?d = "retry_delay G E a"
  let ?b = "a\<lparr>reconnecting := True, reg_state := REG_RECONNECTING, reg_error := ?err, ka_tmr := None,
     reg_error_str := (case reason of Some r \<Rightarrow> lb_ncpy L 256 r | None \<Rightarrow> reg_error_str a)\<rparr>"
  have d: "retry_delay G E ?b = ?d"
    by (simp add: retry_delay_def retry_base_def eff_initial_ms_def eff_max_ms_def eff_backoff_def)
  let ?c = "?b\<lparr>retry_attempt := retry_attempt a + 1, retry_delay_ms := ?d, last_rc_valid := True,
     last_rc_error := ?err, last_rc_attempt := retry_attempt a + 1, last_rc_delay_ms := ?d, retry_tmr := Some ?d\<rparr>"
  let ?ev = "RegEv (Some (handle a)) REG_RECONNECTING ?err (retry_attempt a + 1) ?d (error_str_ptr ?b)"
  have bud: "retry_budget_left G ?b" using assms(4) retry_budget_cong [of ?b a] by simp
  have sch: "vox_account_schedule_retry G E ?b = (?c, [Post (EV_REG_STATE ?ev)])"
    using assms(3,6) bud d
    by (simp add: vox_account_schedule_retry_def Let_def andthen_def post_if_news_def post_prepared_def
        vox_account_reg_ev_prepare_def reg_event_def upd_def error_str_ptr_def split: prod.splits)
  have first: "bev_register_fail L G E reason a = (?c, [Post (EV_REG_STATE ?ev)])"
    using assms(1-5) sch
    by (cases reason) (simp_all add: bev_register_fail_def fail_state_simp Let_def vox_account_keepalive_cancel_def
        andthen_def post_prepared_def vox_account_reg_ev_prepare_def reg_event_def split: prod.splits)
  have nop: "vox_account_schedule_retry G E x = (x, [])" if "retry_tmr x \<noteq> None" for x
    using that by (simp add: vox_account_schedule_retry_def)
  let ?r = "bev_register_fail L G E reason ?c"
  have "snd ?r = [] \<and> retry_tmr (fst ?r) = Some ?d \<and> retry_attempt (fst ?r) = retry_attempt a + 1"
    using assms(1,2,5)
    by (cases reason) (simp_all add: bev_register_fail_def fail_state_simp Let_def vox_account_keepalive_cancel_def
        andthen_def post_prepared_def vox_account_reg_ev_prepare_def reg_event_def nop)
  then have "es' = [] \<and> retry_tmr a'' = Some ?d \<and> retry_attempt a'' = retry_attempt a + 1"
    using assms(7,8) first by simp
  then show ?thesis using assms(7) first by auto
qed

definition acct_wanted :: account where
  "acct_wanted = acct0\<lparr>reg_wanted := True, reg_state := REG_REGISTERING\<rparr>"

theorem register_fail_arms_once_witness:
  "retry_tmr (fst (bev_register_fail libre_ref cfg0 env0 (Some ''503 Busy'') acct_wanted)) = Some 2000 \<and>
   snd (bev_register_fail libre_ref cfg0 env0 (Some ''503 Busy'')
     (fst (bev_register_fail libre_ref cfg0 env0 (Some ''503 Busy'') acct_wanted))) = []"
proof -
  let ?h = "bev_register_fail libre_ref cfg0 env0 (Some ''503 Busy'')"
  have "reg_wanted acct_wanted" "\<not> destroyed acct_wanted" "retry_tmr acct_wanted = None"
    "retry_budget_left cfg0 acct_wanted" "reg_fail_error (Some ''503 Busy'') \<noteq> ERR_AUTH" "\<not> last_rc_valid acct_wanted"
    by code_simp+
  from register_fail_arms_once [OF this prod.collapse [symmetric] prod.collapse [symmetric]]
  have "retry_tmr (fst (?h acct_wanted)) = Some (retry_delay cfg0 env0 acct_wanted) \<and> snd (?h (fst (?h acct_wanted))) = []"
    by blast
  moreover have "retry_delay cfg0 env0 acct_wanted = 2000" by code_simp
  ultimately show ?thesis by simp
qed

text \<open>
  Refused credentials end the recovery. A REGISTER failure with status 401, 403 or 407
  leaves the account FAILED, whatever its retry policy: it is no longer reconnecting, no retry
  is armed that was not armed before, no REGISTER is sent, the keepalive is stopped and the one
  event posted says FAILED with the authentication error and no countdown.
\<close>

theorem auth_failure_is_final:
  assumes "reg_fail_error reason = ERR_AUTH" and "qev_ok E"
    and "bev_register_fail L G E reason a = (a', es)"
  shows "reg_state a' = REG_FAILED \<and> \<not> reconnecting a' \<and> reg_error a' = ERR_AUTH \<and>
    retry_tmr a' = retry_tmr a \<and> ka_tmr a' = None \<and>
    es = [Post (EV_REG_STATE (RegEv (Some (handle a)) REG_FAILED ERR_AUTH (retry_attempt a) 0
            (map_option (lb_ncpy L 4096) reason)))]"
  using assms
  by (cases reason) (auto simp: bev_register_fail_def fail_state_simp Let_def vox_account_keepalive_cancel_def
      andthen_def skip_def post_prepared_def vox_account_reg_ev_prepare_def reg_event_def with_str_def
      vox_account_reconnect_reset_def)

theorem auth_failure_is_final_witness:
  "reg_state (fst (bev_register_fail libre_ref cfg0 env0 (Some ''403 Forbidden'') acct_wanted)) = REG_FAILED"
proof -
  have "reg_fail_error (Some ''403 Forbidden'') = ERR_AUTH" "qev_ok env0" by code_simp+
  from auth_failure_is_final [OF this prod.collapse [symmetric]] show ?thesis by blast
qed

text \<open>
  C40: Unregistering does not stop an armed retry. When an account with a retry armed is
  unregistered and the timer then fires, a REGISTER follows the un-REGISTER although the
  application no longer wants the account registered.
\<close>

theorem unregister_leaves_retry:
  assumes "ua a \<noteq> None" and "\<not> destroyed a" and "retry_tmr a \<noteq> None"
    and "run_acts (fsm_step L G) [(E, In_Unregister), (E', In_RetryFires)] (a, owes) = ((a', owes'), es)"
  shows "\<not> reg_wanted a' \<and> (\<exists>mid. es = UaUnregister # mid @ [UaRegister])"
  using assms
  by (auto simp: fsm_step_def andthen_def unregister_fn_def vox_account_keepalive_cancel_def fires_def
      retry_timer_handler_def srv_advance_def emit_def upd_def skip_def vox_account_watch_registration_def Let_def
      split: prod.splits if_splits)

theorem unregister_leaves_retry_witness:
  "\<not> reg_wanted (fst (fst (run_acts (fsm_step libre_ref cfg0) [sends In_Unregister, sends In_RetryFires]
      (acct_wanted\<lparr>retry_tmr := Some 2000\<rparr>, False)))) \<and>
   last (snd (run_acts (fsm_step libre_ref cfg0) [sends In_Unregister, sends In_RetryFires]
      (acct_wanted\<lparr>retry_tmr := Some 2000\<rparr>, False))) = UaRegister"
proof -
  let ?a = "acct_wanted\<lparr>retry_tmr := Some 2000\<rparr>"
  let ?r = "run_acts (fsm_step libre_ref cfg0) [sends In_Unregister, sends In_RetryFires] (?a, False)"
  have "ua ?a \<noteq> None" "\<not> destroyed ?a" "retry_tmr ?a \<noteq> None" by code_simp+
  moreover have "?r = ((fst (fst ?r), snd (fst ?r)), snd ?r)" by (simp del: run_acts.simps)
  ultimately have "\<not> reg_wanted (fst (fst ?r)) \<and> (\<exists>mid. snd ?r = UaUnregister # mid @ [UaRegister])"
    by (rule unregister_leaves_retry)
  then show ?thesis by auto
qed

text \<open>
  A failed un-REGISTER starts a recovery nobody asked for. When the stack reports a failure
  that is not an authentication failure for an account the application has unregistered, the
  retry timer is armed and the account is RECONNECTING, because the schedule does not ask
  whether the registration is wanted.
\<close>

theorem register_fail_rearms_unwanted:
  assumes "\<not> reg_wanted a" and "retry_tmr a = None" and "retry_budget_left G a"
    and "reg_fail_error reason \<noteq> ERR_AUTH"
    and "bev_register_fail L G E reason a = (a', es)"
  shows "\<not> reg_wanted a' \<and> reg_state a' = REG_RECONNECTING \<and> retry_tmr a' = Some (retry_delay G E a)"
proof -
  let ?b = "a\<lparr>reconnecting := False, reg_state := REG_FAILED, reg_error := reg_fail_error reason, ka_tmr := None,
     reg_error_str := (case reason of Some r \<Rightarrow> lb_ncpy L 256 r | None \<Rightarrow> reg_error_str a)\<rparr>"
  have d: "retry_delay G E ?b = retry_delay G E a" "retry_budget_left G ?b"
    using assms(3) retry_budget_cong [of ?b a]
    by (simp_all add: retry_delay_def retry_base_def eff_initial_ms_def eff_max_ms_def eff_backoff_def)
  have sch: "retry_tmr (fst (vox_account_schedule_retry G E ?b)) = Some (retry_delay G E a)"
    "reg_state (fst (vox_account_schedule_retry G E ?b)) = REG_RECONNECTING"
    "reg_wanted (fst (vox_account_schedule_retry G E ?b)) = reg_wanted a"
    using assms(2) d by (simp_all add: vox_account_schedule_retry_def Let_def)
  have "retry_tmr (fst (bev_register_fail L G E reason a)) = retry_tmr (fst (vox_account_schedule_retry G E ?b))"
    "reg_state (fst (bev_register_fail L G E reason a)) = reg_state (fst (vox_account_schedule_retry G E ?b))"
    "reg_wanted (fst (bev_register_fail L G E reason a)) = reg_wanted (fst (vox_account_schedule_retry G E ?b))"
    using assms(1,4)
    by (cases reason; simp add: bev_register_fail_def fail_state_simp Let_def vox_account_keepalive_cancel_def)+
  then show ?thesis using sch assms(1,5) by simp
qed

theorem register_fail_rearms_unwanted_witness:
  "retry_tmr (fst (bev_register_fail libre_ref cfg0 env0 (Some ''timed out'')
      (acct0\<lparr>reg_state := REG_UNREGISTERING\<rparr>))) = Some 2000"
proof -
  let ?a = "acct0\<lparr>reg_state := REG_UNREGISTERING\<rparr>"
  have "\<not> reg_wanted ?a" "retry_tmr ?a = None" "retry_budget_left cfg0 ?a"
    "reg_fail_error (Some ''timed out'') \<noteq> ERR_AUTH" by code_simp+
  moreover have "retry_delay cfg0 env0 ?a = 2000" by code_simp
  ultimately show ?thesis
    using register_fail_rearms_unwanted [OF _ _ _ _ prod.collapse [symmetric], of ?a cfg0 "Some ''timed out''" libre_ref env0]
    by simp
qed

end
