(* ===== verification/Vox_Reg_Events.thy ===== *)
theory Vox_Reg_Events
  imports Vox_Reg_Fsm
begin

text \<open>
  What the application is told while a registration recovers: along every run of the machine
  no two consecutive registration events announce the same reconnect, and two runs in which
  the bookkeeping that ensures this goes wrong.
\<close>

section \<open>A reconnect is announced once\<close>

fun reg_events :: "acct_eff list \<Rightarrow> cptr reg_ev list" where
  "reg_events [] = []"
| "reg_events (Post (EV_REG_STATE ev) # es) = ev # reg_events es"
| "reg_events (_ # es) = reg_events es"

definition same_news :: "cptr reg_ev \<Rightarrow> cptr reg_ev \<Rightarrow> bool" where
  "same_news x y \<longleftrightarrow> reg_st x = REG_RECONNECTING \<and> reg_st y = REG_RECONNECTING \<and> reg_err x = reg_err y \<and>
     reg_retry_attempt x = reg_retry_attempt y \<and> reg_retry_delay_ms x = reg_retry_delay_ms y"

fun no_repeat :: "cptr reg_ev list \<Rightarrow> bool" where
  "no_repeat (x # y # zs) = (\<not> same_news x y \<and> no_repeat (y # zs))"
| "no_repeat _ = True"

text \<open>The account's record of what it told the application agrees with what it told last.\<close>

definition told :: "cptr reg_ev option \<Rightarrow> account \<Rightarrow> bool" where
  "told l a \<longleftrightarrow> (\<forall>ev. l = Some ev \<and> reg_st ev = REG_RECONNECTING \<longrightarrow>
     last_rc_valid a \<and> last_rc_error a = reg_err ev \<and> last_rc_attempt a = reg_retry_attempt ev \<and>
     last_rc_delay_ms a = reg_retry_delay_ms ev)"

definition last_told :: "cptr reg_ev option \<Rightarrow> cptr reg_ev list \<Rightarrow> cptr reg_ev option" where
  "last_told l es = (if es = [] then l else Some (last es))"

definition honest_at :: "handler \<Rightarrow> account \<Rightarrow> bool" where
  "honest_at h a \<longleftrightarrow> (\<forall>l. told l a \<longrightarrow>
     no_repeat (case_option [] (\<lambda>x. [x]) l @ reg_events (snd (h a))) \<and>
     told (last_told l (reg_events (snd (h a)))) (fst (h a)))"

lemma reg_events_append [simp]: "reg_events (xs @ ys) = reg_events xs @ reg_events ys"
  by (induction xs rule: reg_events.induct) simp_all

lemma no_repeat_append:
  "xs \<noteq> [] \<Longrightarrow> no_repeat (xs @ ys) \<longleftrightarrow> no_repeat xs \<and> no_repeat (last xs # ys)"
  by (induction xs rule: no_repeat.induct) auto

lemma last_told_append: "last_told l (xs @ ys) = last_told (last_told l xs) ys"
  by (simp add: last_told_def)

lemma no_repeat_chain:
  assumes "no_repeat (case_option [] (\<lambda>x. [x]) l @ xs)"
    and "no_repeat (case_option [] (\<lambda>x. [x]) (last_told l xs) @ ys)"
  shows "no_repeat (case_option [] (\<lambda>x. [x]) l @ xs @ ys)"
proof (cases "case_option [] (\<lambda>x. [x]) l @ xs = []")
  case True
  then show ?thesis using assms(2) by (auto simp: last_told_def split: option.splits)
next
  case False
  then have "case_option [] (\<lambda>x. [x]) (last_told l xs) = [last (case_option [] (\<lambda>x. [x]) l @ xs)]"
    by (auto simp: last_told_def split: option.splits)
  then show ?thesis
    using assms no_repeat_append [OF False, of ys] by simp
qed

lemma honest_andthen [intro]:
  assumes "honest_at f a" and "honest_at g (fst (f a))"
  shows "honest_at (andthen f g) a"
  using assms no_repeat_chain by (auto simp: honest_at_def last_told_append)

lemma honest_silent:
  assumes "reg_events (snd (h a)) = []" and "last_rc_valid (fst (h a)) = last_rc_valid a"
    and "last_rc_error (fst (h a)) = last_rc_error a" and "last_rc_attempt (fst (h a)) = last_rc_attempt a"
    and "last_rc_delay_ms (fst (h a)) = last_rc_delay_ms a"
  shows "honest_at h a"
  using assms by (auto simp: honest_at_def told_def last_told_def split: option.splits)

lemma honest_at_cong: "h a = k a \<Longrightarrow> honest_at h a = honest_at k a"
  by (simp add: honest_at_def)

lemma told_cong:
  "last_rc_valid a = last_rc_valid b \<Longrightarrow> last_rc_error a = last_rc_error b \<Longrightarrow>
   last_rc_attempt a = last_rc_attempt b \<Longrightarrow> last_rc_delay_ms a = last_rc_delay_ms b \<Longrightarrow> told l a = told l b"
  by (simp add: told_def)

text \<open>A handler that first changes fields the record does not read, then runs an honest one.\<close>

lemma honest_other:
  assumes "reg_events (snd (h a)) = [ev]" and "reg_st ev \<noteq> REG_RECONNECTING"
  shows "honest_at h a"
  using assms by (auto simp: honest_at_def told_def last_told_def same_news_def split: option.splits)

lemma honest_prepared:
  assumes f: "\<And>e. reg_events (k e) = [f e]"
    and g: "\<And>e. reg_st (f e) = reg_st e \<and> reg_err (f e) = reg_err e \<and>
    reg_retry_attempt (f e) = reg_retry_attempt e \<and> reg_retry_delay_ms (f e) = reg_retry_delay_ms e"
  shows "honest_at (post_prepared k ev) a"
proof (cases "reg_st ev = REG_RECONNECTING")
  case False
  let ?a = "vox_account_reconnect_reset a"
  have "snd (post_prepared k ev a) = k (RegEv (reg_account ev) (reg_st ev) (reg_err ev)
      (retry_attempt ?a) (retry_delay_ms ?a) (reg_str ev))"
    using False by (simp add: post_prepared_def vox_account_reg_ev_prepare_def Let_def)
  then have "reg_events (snd (post_prepared k ev a)) = [f (RegEv (reg_account ev) (reg_st ev) (reg_err ev)
      (retry_attempt ?a) (retry_delay_ms ?a) (reg_str ev))]"
    by (simp add: f)
  then show ?thesis
    by (rule honest_other) (use g False in simp)
next
  case True
  show ?thesis
  proof (cases "last_rc_valid a \<and> last_rc_error a = reg_err ev \<and>
      last_rc_attempt a = retry_attempt a \<and> last_rc_delay_ms a = retry_delay_ms a")
    case same: True
    then have "post_prepared k ev a = (a, [])"
      using True by (simp add: post_prepared_def vox_account_reg_ev_prepare_def Let_def)
    then show ?thesis by (intro honest_silent) simp_all
  next
    case new: False
    let ?d = "RegEv (reg_account ev) REG_RECONNECTING (reg_err ev) (retry_attempt a) (retry_delay_ms a) (reg_str ev)"
    let ?e = "f ?d"
    let ?a = "a\<lparr>last_rc_valid := True, last_rc_error := reg_err ev,
                last_rc_attempt := retry_attempt a, last_rc_delay_ms := retry_delay_ms a\<rparr>"
    have p: "post_prepared k ev a = (?a, k ?d)"
      using True new by (auto simp: post_prepared_def vox_account_reg_ev_prepare_def Let_def)
    have e: "reg_st ?e = REG_RECONNECTING" "reg_err ?e = reg_err ev" "reg_retry_attempt ?e = retry_attempt a"
      "reg_retry_delay_ms ?e = retry_delay_ms a"
      by (simp_all add: g)
    have "\<not> same_news x ?e" if "told (Some x) a" for x
      using that new by (auto simp: told_def same_news_def e)
    moreover have "told (Some ?e) ?a" by (simp add: told_def e)
    ultimately show ?thesis
      unfolding honest_at_def p by (simp add: f last_told_def split: option.splits)
  qed
qed

lemma honest_post_if_news: "honest_at (post_if_news ev) a"
  unfolding post_if_news_def by (rule honest_prepared [where f = id]) simp_all

lemma honest_post_stamped: "reg_st ev \<noteq> REG_RECONNECTING \<Longrightarrow> honest_at (post_stamped ev) a"
  by (rule honest_other [of _ _ "fst (snd (vox_account_reg_ev_prepare ev a))"])
    (simp_all add: post_stamped_def vox_account_reg_ev_prepare_def Let_def)

lemma honest_upd_then:
  assumes "h a = k b" and "honest_at k b"
    and "last_rc_valid b = last_rc_valid a" and "last_rc_error b = last_rc_error a"
    and "last_rc_attempt b = last_rc_attempt a" and "last_rc_delay_ms b = last_rc_delay_ms a"
  shows "honest_at h a"
proof -
  have "told l b = told l a" for l using assms(3-6) by (simp add: told_def)
  then show ?thesis using assms(1,2) by (simp add: honest_at_def)
qed

lemma honest_id [simp]: "honest_at (\<lambda>a. (a, [])) a"
  by (rule honest_silent) simp_all

lemma honest_schedule: "honest_at (vox_account_schedule_retry G E) a"
proof -
  let ?a1 = "a\<lparr>reconnecting := False\<rparr>"
  let ?a2 = "?a1\<lparr>reg_state := REG_FAILED\<rparr>"
  let ?b = "a\<lparr>retry_attempt := retry_attempt a + 1, retry_delay_ms := retry_delay G E a,
                    reconnecting := True, reg_state := REG_RECONNECTING\<rparr>"
  consider (a) "retry_tmr a \<noteq> None"
    | (b) "retry_tmr a = None" "\<not> retry_budget_left G a" "reg_state a \<noteq> REG_RECONNECTING"
    | (c) "retry_tmr a = None" "\<not> retry_budget_left G a" "reg_state a = REG_RECONNECTING"
    | (d) "retry_tmr a = None" "retry_budget_left G a" by blast
  then show ?thesis
  proof cases
    case c
    then have "vox_account_schedule_retry G E a
        = post_stamped (reg_event ?a2 REG_FAILED (reg_error ?a2) (error_str_ptr ?a2)) ?a2"
      by (simp add: vox_account_schedule_retry_def Let_def)
    then show ?thesis
      by (rule honest_upd_then) (simp_all add: honest_post_stamped reg_event_def)
  next
    case d
    let ?k = "andthen (post_if_news (reg_event ?b REG_RECONNECTING (reg_error ?b) (error_str_ptr ?b)))
       (upd (\<lambda>x. x\<lparr>retry_tmr := Some (retry_delay G E a)\<rparr>))"
    have "vox_account_schedule_retry G E a = ?k ?b"
      using d by (simp add: vox_account_schedule_retry_def Let_def)
    moreover have "honest_at ?k ?b"
      by (intro honest_andthen honest_post_if_news honest_silent) simp_all
    ultimately show ?thesis by (rule honest_upd_then) simp_all
  qed (auto intro!: honest_silent simp: vox_account_schedule_retry_def Let_def)
qed

lemma honest_warning: "honest_at (post_registrar_warning L E msg) a"
  by (rule honest_silent) (simp_all add: post_registrar_warning_def onlyif_def)

lemma arm_rc [simp]:
  "last_rc_valid (vox_account_keepalive_arm G a) = last_rc_valid a"
  "last_rc_error (vox_account_keepalive_arm G a) = last_rc_error a"
  "last_rc_attempt (vox_account_keepalive_arm G a) = last_rc_attempt a"
  "last_rc_delay_ms (vox_account_keepalive_arm G a) = last_rc_delay_ms a"
  "last_rc_valid (vox_account_watch_registration a) = last_rc_valid a"
  "last_rc_error (vox_account_watch_registration a) = last_rc_error a"
  "last_rc_attempt (vox_account_watch_registration a) = last_rc_attempt a"
  "last_rc_delay_ms (vox_account_watch_registration a) = last_rc_delay_ms a"
  by (simp_all add: vox_account_keepalive_arm_def vox_account_watch_registration_def)

lemma honest_reg_ok: "honest_at (bev_register_ok G) a"
  unfolding bev_register_ok_def Let_def
  by (rule honest_upd_then [OF refl]) (simp_all add: honest_post_stamped reg_event_def)

lemma honest_unregistering: "honest_at bev_unregistering a"
  unfolding bev_unregistering_def Let_def
  by (rule honest_upd_then [OF refl]) (simp_all add: honest_post_stamped reg_event_def)

lemma honest_reconnecting: "honest_at vox_account_reg_reconnecting a"
proof (cases "destroyed a \<or> \<not> reg_wanted a \<or> (reg_state a \<noteq> REG_REGISTERED \<and> reg_state a \<noteq> REG_REGISTERING)")
  case True
  then show ?thesis by (intro honest_silent) (auto simp: vox_account_reg_reconnecting_def)
next
  case False
  let ?a1 = "vox_account_keepalive_cancel (a\<lparr>reconnecting := True, reg_state := REG_RECONNECTING\<rparr>)"
  have "vox_account_reg_reconnecting a = post_if_news (reg_event ?a1 REG_RECONNECTING VOX_OK None) ?a1"
    using False by (auto simp: vox_account_reg_reconnecting_def Let_def)
  then show ?thesis
    by (rule honest_upd_then) (simp_all add: honest_post_if_news vox_account_keepalive_cancel_def)
qed

lemma with_str_fields [simp]:
  "reg_st (with_str t e) = reg_st e" "reg_err (with_str t e) = reg_err e"
  "reg_retry_attempt (with_str t e) = reg_retry_attempt e"
  "reg_retry_delay_ms (with_str t e) = reg_retry_delay_ms e"
  by (simp_all add: with_str_def)

lemma honest_registering: "honest_at (bev_registering L E) a"
proof (cases "reconnecting a")
  case True
  let ?a1 = "a\<lparr>reg_state := REG_RECONNECTING\<rparr>"
  let ?f = "\<lambda>ev. if reg_error_str ?a1 \<noteq> [] \<and> qev_ok E then with_str (Some (lb_ncpy L 4096 (reg_error_str ?a1))) ev else ev"
  have "bev_registering L E a = post_prepared (\<lambda>ev. [Post (EV_REG_STATE (?f ev))])
      (reg_event ?a1 REG_RECONNECTING (reg_error ?a1) None) ?a1"
    using True by (simp add: bev_registering_def Let_def)
  then show ?thesis
    by (rule honest_upd_then) (auto intro!: honest_prepared [where f = ?f])
next
  case False
  then show ?thesis
    by (intro honest_other [where ev = "reg_event a REG_REGISTERING VOX_OK None"])
      (simp_all add: bev_registering_def reg_event_def)
qed

lemma fail_state_rc:
  assumes "vox_account_reg_fail_state G err a = (st, a1)"
  shows "last_rc_valid a1 = last_rc_valid a" "last_rc_error a1 = last_rc_error a"
    "last_rc_attempt a1 = last_rc_attempt a" "last_rc_delay_ms a1 = last_rc_delay_ms a"
  using assms by (auto simp: fail_state_simp split: if_splits)

lemma honest_register_fail:
  assumes "qev_ok E"
  shows "honest_at (bev_register_fail L G E reason) a"
proof -
  let ?err = "reg_fail_error reason"
  obtain st a1 where fs: "vox_account_reg_fail_state G ?err a = (st, a1)" by fastforce
  let ?a2 = "vox_account_keepalive_cancel (a1\<lparr>reg_state := st, reg_error := ?err\<rparr>)"
  let ?a3 = "case reason of Some r \<Rightarrow> ?a2\<lparr>reg_error_str := lb_ncpy L 256 r\<rparr> | None \<Rightarrow> ?a2"
  let ?f = "with_str (map_option (lb_ncpy L 4096) reason)"
  let ?post = "\<lambda>a4. post_prepared (\<lambda>ev. if qev_ok E then [Post (EV_REG_STATE (?f ev))] else []) (reg_event a4 st ?err None) a4"
  let ?k = "andthen (onlyif (?err \<noteq> ERR_AUTH) (vox_account_schedule_retry G E)) ?post"
  have "bev_register_fail L G E reason a = ?k ?a3"
    by (simp add: bev_register_fail_def Let_def fs)
  moreover have "honest_at ?post b" for b
    by (rule honest_upd_then [OF refl]) (use assms in \<open>auto intro!: honest_prepared [where f = ?f]\<close>)
  then have "honest_at ?k ?a3"
    by (intro honest_andthen) (simp_all add: onlyif_def honest_schedule honest_silent skip_def)
  moreover have "last_rc_valid ?a3 = last_rc_valid a" "last_rc_error ?a3 = last_rc_error a"
    "last_rc_attempt ?a3 = last_rc_attempt a" "last_rc_delay_ms ?a3 = last_rc_delay_ms a"
    by (simp_all add: vox_account_keepalive_cancel_def fail_state_rc [OF fs] split: option.splits)
  ultimately show ?thesis by (rule honest_upd_then)
qed

lemma honest_registered: "honest_at (\<lambda>a. post_stamped (reg_event a REG_REGISTERED VOX_OK None) a) a"
  by (rule honest_upd_then [OF refl]) (simp_all add: honest_post_stamped reg_event_def)

lemma honest_watch: "honest_at (reg_watch_handler L G E) a"
proof -
  let ?a1 = "a\<lparr>reg_watch_elapsed_ms := reg_watch_elapsed_ms a + VOX_REG_WATCH_INTERVAL_MS\<rparr>"
  let ?quiet = "destroyed a \<or> ua a = None \<or> \<not> reg_wanted a \<or> reg_state a = REG_REGISTERED \<or>
    reg_state a = REG_FAILED \<or> retry_tmr a \<noteq> None"
  let ?late = "reg_watch_timeout_ms G \<noteq> 0 \<and> reg_watch_timeout_ms G \<le> reg_watch_elapsed_ms ?a1"
  consider (quiet) ?quiet | (up) "\<not> ?quiet" "ua_isregistered E"
    | (late) "\<not> ?quiet" "\<not> ua_isregistered E" ?late | (wait) "\<not> ?quiet" "\<not> ua_isregistered E" "\<not> ?late" by blast
  then show ?thesis
  proof cases
    case quiet
    then show ?thesis by (intro honest_silent) (auto simp: reg_watch_handler_def)
  next
    case up
    let ?k = "andthen (post_registrar_warning L E
        ''registration is up but the stack emitted no event; state was synthesised from ua_isregistered()'')
      (andthen (upd (\<lambda>a. vox_account_keepalive_arm G
          (a\<lparr>reg_state := REG_REGISTERED, retry_attempt := 0, reconnecting := False\<rparr>)))
        (\<lambda>a. post_stamped (reg_event a REG_REGISTERED VOX_OK None) a))"
    have "reg_watch_handler L G E a = ?k a" using up by (auto simp: reg_watch_handler_def)
    moreover have "honest_at ?k a"
      by (intro honest_andthen honest_warning honest_registered) (rule honest_silent; simp)
    ultimately show ?thesis using honest_at_cong by blast
  next
    case late
    obtain st a2 where fs: "vox_account_reg_fail_state G ERR_TIMEOUT (?a1\<lparr>reg_error := ERR_TIMEOUT\<rparr>) = (st, a2)"
      by fastforce
    let ?a3 = "a2\<lparr>reg_state := st, reg_error_str := lb_ncpy L 256 ''registration timed out''\<rparr>"
    let ?k = "andthen (post_if_news (reg_event ?a3 st ERR_TIMEOUT (Some (reg_error_str ?a3)))) (vox_account_schedule_retry G E)"
    have "reg_watch_handler L G E a = ?k ?a3"
      unfolding reg_watch_handler_def Let_def if_P [OF late(3)] using late(1,2) fs by auto
    moreover have "honest_at ?k ?a3"
      by (intro honest_andthen honest_post_if_news honest_schedule)
    ultimately show ?thesis
      by (rule honest_upd_then) (simp_all add: fail_state_rc [OF fs])
  next
    case wait
    have "reg_watch_handler L G E a = (?a1\<lparr>reg_watch_tmr := Some VOX_REG_WATCH_INTERVAL_MS\<rparr>, [])"
      unfolding reg_watch_handler_def Let_def if_not_P [OF wait(3)] using wait(1,2) by auto
    then show ?thesis by (intro honest_silent) simp_all
  qed
qed

lemma honest_ka_resp: "honest_at (keepalive_resp_handler L G E failure) a"
proof (cases "acct_is_live (live_accounts E) a")
  case False
  then show ?thesis by (intro honest_silent) (simp_all add: keepalive_resp_handler_def)
next
  case live: True
  show ?thesis
  proof (cases failure)
    case None
    let ?b = "a\<lparr>ka_in_flight := False, ka_failed := False, reg_state := REG_REGISTERED, reg_error := VOX_OK,
        retry_attempt := 0, reconnecting := False, reg_error_str := []\<rparr>"
    let ?k = "andthen (\<lambda>a. post_stamped (reg_event a REG_REGISTERED VOX_OK None) a) (upd (vox_account_keepalive_arm G))"
    show ?thesis
    proof (cases "ka_failed a \<and> reg_state a = REG_RECONNECTING \<and> ua_isregistered E")
      case True
      then have "keepalive_resp_handler L G E failure a = ?k ?b"
        using live None by (simp add: keepalive_resp_handler_def Let_def)
      moreover have "honest_at ?k ?b"
        by (intro honest_andthen honest_registered) (rule honest_silent; simp)
      ultimately show ?thesis by (rule honest_upd_then) simp_all
    next
      case False
      then show ?thesis
        using live None by (intro honest_silent) (auto simp: keepalive_resp_handler_def Let_def)
    qed
  next
    case (Some why)
    let ?a2 = "a\<lparr>ka_in_flight := False, ka_failed := True, reg_error := ERR_TIMEOUT\<rparr>"
    let ?a3 = "if vc_keepalive_reregister G \<and> reg_wanted ?a2 then
        (case vox_account_reg_fail_state G ERR_TIMEOUT ?a2 of (st, x) \<Rightarrow> x\<lparr>reg_state := st\<rparr>)
      else ?a2\<lparr>reg_state := (if reg_wanted ?a2 then REG_RECONNECTING else REG_FAILED), reconnecting := reg_wanted ?a2\<rparr>"
    let ?a4 = "?a3\<lparr>reg_error_str := lb_ncpy L 256 ''keepalive probe timed out''\<rparr>"
    let ?w = "''keepalive probe went unanswered ('' @ why @ ''); the path to the proxy is unreachable''"
    let ?k = "andthen (post_registrar_warning L E ?w)
       (andthen (post_if_news (reg_event ?a4 (reg_state ?a4) ERR_TIMEOUT (Some (reg_error_str ?a4))))
          (if vc_keepalive_reregister G \<and> reg_wanted ?a4 then vox_account_schedule_retry G E
           else upd (vox_account_keepalive_arm G)))"
    have "keepalive_resp_handler L G E failure a = ?k ?a4"
      using live Some by (simp add: keepalive_resp_handler_def Let_def)
    moreover have "honest_at ?k ?a4"
      by (intro honest_andthen honest_warning honest_post_if_news) (simp add: honest_schedule honest_silent)
    moreover have "last_rc_valid ?a4 = last_rc_valid a" "last_rc_error ?a4 = last_rc_error a"
      "last_rc_attempt ?a4 = last_rc_attempt a" "last_rc_delay_ms ?a4 = last_rc_delay_ms a"
      by (simp_all add: fail_state_simp)
    ultimately show ?thesis by (rule honest_upd_then)
  qed
qed

lemma srv_resolve_rc [simp]:
  "last_rc_valid (fst (vox_account_srv_resolve L G E a)) = last_rc_valid a"
  "last_rc_error (fst (vox_account_srv_resolve L G E a)) = last_rc_error a"
  "last_rc_attempt (fst (vox_account_srv_resolve L G E a)) = last_rc_attempt a"
  "last_rc_delay_ms (fst (vox_account_srv_resolve L G E a)) = last_rc_delay_ms a"
  "last_rc_valid (fst (srv_advance E a)) = last_rc_valid a"
  "last_rc_error (fst (srv_advance E a)) = last_rc_error a"
  "last_rc_attempt (fst (srv_advance E a)) = last_rc_attempt a"
  "last_rc_delay_ms (fst (srv_advance E a)) = last_rc_delay_ms a"
  "reg_events (snd (vox_account_srv_resolve L G E a)) = []"
  "reg_events (snd (srv_advance E a)) = []"
  by (simp_all add: vox_account_srv_resolve_def srv_advance_def Let_def)

lemma honest_keepalive: "honest_at (keepalive_handler L G E) a"
  by (rule honest_silent) (simp_all add: keepalive_handler_def split: prod.splits)

text \<open>Whether an input is a report whose event carries an account state of its own.\<close>

fun not_reg_post :: "acct_in \<Rightarrow> bool" where
  "not_reg_post (In_NetReregister ev) = (\<forall>x. ev \<noteq> EV_REG_STATE x)"
| "not_reg_post _ = True"

lemma reg_events_post: "\<forall>x. ev \<noteq> EV_REG_STATE x \<Longrightarrow> reg_events (Post ev # es) = reg_events es"
  by (cases ev) auto

lemma honest_choice:
  "(P a \<Longrightarrow> honest_at f a) \<Longrightarrow> (\<not> P a \<Longrightarrow> honest_at g a) \<Longrightarrow> honest_at (\<lambda>a. if P a then f a else g a) a"
  by (simp add: honest_at_def)

lemma honest_fires:
  assumes "honest_at h (clear a)" and "last_rc_valid (clear a) = last_rc_valid a"
    and "last_rc_error (clear a) = last_rc_error a" and "last_rc_attempt (clear a) = last_rc_attempt a"
    and "last_rc_delay_ms (clear a) = last_rc_delay_ms a"
  shows "honest_at (fires tmr clear h) a"
proof (cases "tmr a = None")
  case True
  then show ?thesis by (intro honest_silent) (simp_all add: fires_def)
next
  case False
  then have "fires tmr clear h a = h (clear a)" by (auto simp: fires_def)
  then show ?thesis using assms by (rule honest_upd_then)
qed

lemma honest_retry: "honest_at (retry_timer_handler E) a"
  by (rule honest_silent) (simp_all add: retry_timer_handler_def)

lemma honest_cancel: "honest_at cancel_retry_fn a"
proof (cases "reg_state a = REG_RECONNECTING")
  case True
  then have "\<exists>ev. reg_events (snd (cancel_retry_fn a)) = [ev] \<and> reg_st ev = REG_FAILED"
    by (simp add: cancel_retry_fn_def Let_def reg_event_def)
  then show ?thesis using honest_other by force
next
  case False
  then show ?thesis by (intro honest_silent) (simp_all add: cancel_retry_fn_def Let_def)
qed

lemma honest_plain:
  "honest_at (register_fn L G E) a" "honest_at unregister_fn a" "honest_at retry_now_fn a"
  "honest_at destroy_account a" "honest_at (upd (set_retry_policy_fn p q r n)) a"
  "honest_at (\<lambda>a. fst (set_push_token_fn L t a)) a" "honest_at (upd (srv_done_handler L E res)) a"
  by (rule honest_silent; simp add: register_fn_def unregister_fn_def retry_now_fn_def destroy_account_def
      set_retry_policy_fn_def set_push_token_fn_def srv_done_handler_def vox_account_keepalive_cancel_def Let_def)+

lemma honest_input:
  assumes "qev_ok E" and "not_reg_post i"
  shows "honest_at (acct_input L G E i) a"
proof (cases i)
  case In_KeepaliveNow
  then show ?thesis
    by (auto intro!: honest_choice honest_id simp: keepalive_now_fn_def [abs_def])
      (rule honest_upd_then [OF refl], simp_all add: honest_keepalive)
next
  case (In_NetReregister ev)
  then show ?thesis
    using assms(2) by (intro honest_silent) (simp_all add: reregister_account_def reg_events_post)
next
  case In_NetMark
  then show ?thesis
    by (simp add: mark_reconnecting_def [abs_def] honest_choice honest_reconnecting)
next
  case In_NetToRetry
  then show ?thesis
    by (simp add: handover_account_to_retry_def [abs_def] honest_choice honest_schedule)
qed (use assms(1) in \<open>simp_all add: honest_reg_ok honest_register_fail honest_unregistering honest_plain
     honest_registering honest_ka_resp honest_cancel honest_fires honest_watch honest_keepalive honest_retry\<close>)

lemma honest_run:
  assumes "\<forall>x \<in> set xs. qev_ok (fst x) \<and> not_reg_post (snd x)" and "told l (fst s)"
  shows "no_repeat (case_option [] (\<lambda>x. [x]) l @ reg_events (snd (run_acts (fsm_step L G) xs s)))"
  using assms
proof (induction xs arbitrary: l s)
  case Nil
  then show ?case by (simp split: option.splits)
next
  case (Cons x xs)
  obtain E i a b where x: "x = (E, i)" "s = (a, b)" by (metis surj_pair)
  let ?h = "acct_input L G E i"
  have h: "honest_at ?h a" using Cons.prems(1) by (intro honest_input) (simp_all add: x)
  have st: "fst (fst (fsm_step L G x s)) = fst (?h a)" "snd (fsm_step L G x s) = snd (?h a)"
    by (simp_all add: fsm_step_def x split: prod.splits)
  let ?l = "last_told l (reg_events (snd (?h a)))"
  have "told ?l (fst (fst (fsm_step L G x s)))"
    unfolding st using h Cons.prems(2) by (simp add: honest_at_def x)
  then have "no_repeat (case_option [] (\<lambda>x. [x]) ?l @ reg_events (snd (run_acts (fsm_step L G) xs (fst (fsm_step L G x s)))))"
    using Cons.IH Cons.prems(1) by simp
  moreover have "no_repeat (case_option [] (\<lambda>x. [x]) l @ reg_events (snd (?h a)))"
    using h Cons.prems(2) by (simp add: honest_at_def x)
  ultimately show ?case using no_repeat_chain by (simp add: st)
qed


section \<open>Properties\<close>

text \<open>
  C10: A reconnect is announced once. Along every run of the machine, whatever failures the
  watchdog, the keepalive probe and the stack report for the same REGISTER, no two consecutive
  registration events the application gets are RECONNECTING with the same error, attempt and
  countdown. Queued events are assumed to be allocated.
\<close>

theorem reconnecting_never_repeated:
  assumes "\<forall>x \<in> set xs. qev_ok (fst x) \<and> not_reg_post (snd x)"
  shows "no_repeat (reg_events (snd (run_acts (fsm_step L G) xs s)))"
  using honest_run [OF assms, of None s L G] by (simp add: told_def)

definition outage_run :: "(env \<times> acct_in) list" where
  "outage_run = [sends In_Register, sends In_BevRegistering, sends (In_BevFail (Some ''503 Busy'')),
     sends (In_BevFail (Some ''503 Busy'')), sends In_RetryFires, sends In_BevRegistering,
     sends (In_BevFail (Some ''503 Busy''))]"

theorem reconnecting_never_repeated_witness:
  "map (\<lambda>e. (reg_st e, reg_retry_attempt e, reg_retry_delay_ms e))
     (reg_events (snd (run_acts (fsm_step libre_ref cfg0) outage_run (acct0, False)))) =
   [(REG_REGISTERING, 0, 0), (REG_RECONNECTING, 1, 2000), (REG_RECONNECTING, 2, 4000)] \<and>
   no_repeat (reg_events (snd (run_acts (fsm_step libre_ref cfg0) outage_run (acct0, False))))"
proof -
  have "\<forall>x \<in> set outage_run. qev_ok (fst x) \<and> not_reg_post (snd x)"
    by (simp add: outage_run_def env0_def)
  moreover have "map (\<lambda>e. (reg_st e, reg_retry_attempt e, reg_retry_delay_ms e))
     (reg_events (snd (run_acts (fsm_step libre_ref cfg0) outage_run (acct0, False)))) =
   [(REG_REGISTERING, 0, 0), (REG_RECONNECTING, 1, 2000), (REG_RECONNECTING, 2, 4000)]"
    by code_simp
  ultimately show ?thesis using reconnecting_never_repeated by blast
qed

text \<open>
  C39: A cancelled retry hides the next reconnect. \<open>cancel_retry_fn\<close> reports FAILED without the
  bookkeeping of the other reports: the event has attempt 0 although one was spent, and the
  record of the last reconnect survives. When the application registers again and the first
  attempt fails in the same way, the account is RECONNECTING with a retry armed and no event
  says so: the last thing the application has heard is REGISTERING.
\<close>

definition cancel_run :: "(env \<times> acct_in) list" where
  "cancel_run = [sends In_Register, sends In_BevRegistering, sends (In_BevFail (Some ''503 Busy'')),
     sends In_CancelRetry, sends In_Register, sends In_BevRegistering, sends (In_BevFail (Some ''503 Busy''))]"

theorem cancel_retry_hides_next_reconnect:
  "map (\<lambda>e. (reg_st e, reg_retry_attempt e, reg_retry_delay_ms e))
     (reg_events (snd (run_acts (fsm_step libre_ref cfg0) cancel_run (acct0, False)))) =
   [(REG_REGISTERING, 0, 0), (REG_RECONNECTING, 1, 2000), (REG_FAILED, 0, 0), (REG_REGISTERING, 0, 0)] \<and>
   reg_state (fst (fst (run_acts (fsm_step libre_ref cfg0) cancel_run (acct0, False)))) = REG_RECONNECTING \<and>
   retry_tmr (fst (fst (run_acts (fsm_step libre_ref cfg0) cancel_run (acct0, False)))) = Some 2000"
proof -
  have "case run_acts (fsm_step libre_ref cfg0) cancel_run (acct0, False) of ((a, _), es) \<Rightarrow>
     map (\<lambda>e. (reg_st e, reg_retry_attempt e, reg_retry_delay_ms e)) (reg_events es) =
       [(REG_REGISTERING, 0, 0), (REG_RECONNECTING, 1, 2000), (REG_FAILED, 0, 0), (REG_REGISTERING, 0, 0)] \<and>
     reg_state a = REG_RECONNECTING \<and> retry_tmr a = Some 2000"
    by code_simp
  then show ?thesis by (simp add: case_prod_beta)
qed

end
