(* ===== verification/Vox_Retry.thy ===== *)
theory Vox_Retry
  imports Vox_Reg_Fsm
begin

text \<open>
  The retry schedule: bounds of the backoff and the jitter, the budget of attempts, and the
  walk over the SRV targets that consecutive retries make.
\<close>

section \<open>Bounds of the delay\<close>

lemma f32_to_u32_le_nat:
  assumes "0 \<le> x" and "x \<le> of_nat n" and "n < 2 ^ 32"
  shows "unat (f32_to_u32 ub x) \<le> n"
proof -
  have "(of_nat n :: rat) < 2 ^ 32"
    using assms(3) by (metis of_nat_less_iff of_nat_numeral of_nat_power)
  then have "unat (f32_to_u32 ub x) = nat \<lfloor>x\<rfloor>"
    using f32_to_u32_in [OF assms(1)] assms(2) by simp
  moreover have "\<lfloor>x\<rfloor> \<le> int n" using assms(2) by (simp add: floor_le_iff)
  ultimately show ?thesis by linarith
qed

lemma jitter_span_le:
  assumes "delay \<le> 2 ^ 23" and "0 < j" and "j \<le> 1"
  shows "unat (f32_to_u32 ub (f32_mult (f32_mult (f32_of_u32 delay) j) 2)) \<le> 2 * unat delay"
proof -
  define d where "d = unat delay"
  have d: "d \<le> 2 ^ 23" using assms(1) by (simp add: word_le_nat_alt d_def)
  have f: "f32_of_u32 delay = of_nat d"
    unfolding d_def using assms(1) by (intro f32_of_u32_small) (simp add: word_le_nat_alt)
  let ?x = "f32_mult (of_nat d) j"
  have p: "0 \<le> of_nat d * j" using assms(2) by simp
  have "of_nat d * j \<le> of_nat d" using assms(2,3) by (simp add: mult_left_le)
  then have "?x \<le> of_nat d"
    unfolding f32_mult_def using d by (intro f32_round_le_nat [OF p]) simp_all
  then have le: "?x * 2 \<le> of_nat (2 * d)" by simp
  have x0: "0 \<le> ?x" unfolding f32_mult_def by (rule f32_round_nonneg [OF p])
  then have "f32_mult ?x 2 \<le> of_nat (2 * d)"
    unfolding f32_mult_def [of ?x] using d le by (intro f32_round_le_nat) simp_all
  moreover have "0 \<le> f32_mult ?x 2"
    unfolding f32_mult_def [of ?x] using x0 by (intro f32_round_nonneg) simp
  ultimately show ?thesis
    unfolding f d_def [symmetric] using d by (intro f32_to_u32_le_nat) simp_all
qed

lemma unat_of_nat_small: "k < 2 ^ 32 \<Longrightarrow> unat (of_nat k :: u32) = k"
  by (simp add: unsigned_of_nat take_bit_nat_eq_self)

lemma sint_small: "k < 2 ^ 31 \<Longrightarrow> sint (of_nat k :: u32) = int k"
  by (simp add: signed_of_nat signed_take_bit_int_eq_self)

lemma sint_neg_small: "0 < k \<Longrightarrow> k < 2 ^ 31 \<Longrightarrow> sint (- of_nat k :: u32) < 0"
proof -
  assume k: "0 < k" "k < 2 ^ 31"
  have "(- of_nat k :: u32) = of_int (- int k)" by simp
  then have "sint (- of_nat k :: u32) = - int k"
    using k by (simp only: signed_of_int) (simp add: signed_take_bit_int_eq_self)
  then show ?thesis using k by simp
qed

text \<open>Where in the window around the delay the random offset lands.\<close>

lemma jitter_window:
  fixes delay span rnd :: u32
  assumes "delay \<noteq> 0" and "unat delay \<le> 2 ^ 23" and "unat span \<le> 2 * unat delay" and "span \<noteq> 0"
  defines "offset \<equiv> rnd mod (span + 1) - span div 2"
  shows "unat (if sint offset < 0 \<and> delay \<le> - offset then 1 else delay + offset) \<in> {1..2 * unat delay}"
proof -
  let ?D = "unat delay" and ?S = "unat span"
  define r where "r = unat (rnd mod (span + 1))"
  define h where "h = ?S div 2"
  have S: "?S \<le> 2 ^ 24" using assms(2,3) by simp
  have D: "0 < ?D" using assms(1) by (simp add: unat_gt_0)
  have "unat (span + 1) = ?S + 1"
    using S by (subst unat_add_lem [THEN iffD1]) simp_all
  then have r: "r \<le> ?S" unfolding r_def by (simp add: unat_mod)
  have "unat (span div 2) = h" by (simp add: h_def unat_div)
  then have "of_nat h = span div 2" by (metis of_nat_unat ucast_id)
  then have off: "offset = of_nat r - of_nat h"
    by (simp add: offset_def r_def)
  have del: "delay = of_nat ?D" by simp
  show ?thesis
  proof (cases "h \<le> r")
    case True
    then have o: "offset = of_nat (r - h)" by (simp add: off)
    have "sint offset = int (r - h)" unfolding o using r S by (intro sint_small) simp
    moreover have "delay + offset = of_nat (?D + (r - h))" unfolding o by simp
    moreover have "?D + (r - h) \<le> 2 * ?D" using r assms(3) h_def by linarith
    moreover have "unat (of_nat (?D + (r - h)) :: u32) = ?D + (r - h)"
      using r S assms(2) by (intro unat_of_nat_small) simp
    ultimately show ?thesis using D by simp
  next
    case False
    then have o: "offset = - of_nat (h - r)" by (simp add: off)
    have hs: "h - r \<le> 2 ^ 23" using S by (simp add: h_def)
    have neg: "sint offset < 0" unfolding o using False hs by (intro sint_neg_small) simp_all
    have mo: "- offset = of_nat (h - r)" by (simp add: o)
    have u: "unat (of_nat (h - r) :: u32) = h - r" using hs by (intro unat_of_nat_small) simp
    show ?thesis
    proof (cases "delay \<le> - offset")
      case False
      then have lt: "h - r < ?D" unfolding mo by (simp add: word_le_nat_alt u)
      have "delay + offset = of_nat (?D - (h - r))" unfolding o using lt by simp
      moreover have "unat (of_nat (?D - (h - r)) :: u32) = ?D - (h - r)"
        using assms(2) by (intro unat_of_nat_small) simp
      ultimately show ?thesis using False lt by auto
    qed (use neg D in simp)
  qed
qed

lemma apply_jitter_bounds:
  assumes "delay \<noteq> 0" and "delay \<le> 2 ^ 23"
  shows "unat (apply_jitter ub rnd delay jitter) \<in> {1..2 * unat delay}"
proof -
  let ?j = "if 1 < jitter then 1 else jitter"
  let ?span = "f32_to_u32 ub (f32_mult (f32_mult (f32_of_u32 delay) ?j) 2)"
  have d: "0 < unat delay" "unat delay \<le> 2 ^ 23"
    using assms by (simp_all add: unat_gt_0 word_le_nat_alt)
  show ?thesis
  proof (cases "jitter \<le> 0 \<or> ?span = 0")
    case True
    then show ?thesis using d by (auto simp: apply_jitter_def Let_def)
  next
    case False
    then have "unat ?span \<le> 2 * unat delay" using assms(2) by (intro jitter_span_le) auto
    with False show ?thesis
      using jitter_window [OF assms(1) d(2), of ?span rnd] assms(1)
      by (simp add: apply_jitter_def Let_def)
  qed
qed

lemma backoff_loop_le:
  "backoff_loop ub b max_ms n d \<le> max d max_ms \<and> (0 < n \<longrightarrow> backoff_loop ub b max_ms n d \<le> max_ms)"
proof (induction n arbitrary: d)
  case (Suc n)
  let ?d = "f32_to_u32 ub (f32_mult (f32_of_u32 d) b)"
  show ?case
  proof (cases "max_ms \<le> ?d")
    case False
    then have "max ?d max_ms = max_ms" by simp
    with Suc.IH [of ?d] False show ?thesis by (simp add: le_max_iff_disj)
  qed (simp add: le_max_iff_disj)
qed simp


definition acct_third :: account where
  "acct_third = acct0\<lparr>retry_attempt := 2\<rparr>"


section \<open>The budget\<close>

definition max_attempts :: "vox_cfg \<Rightarrow> account \<Rightarrow> u32" where
  "max_attempts G a = (if retry_policy_set a then retry_max_attempts a else vc_reg_retry_max_attempts G)"

definition within_budget :: "vox_cfg \<Rightarrow> account \<Rightarrow> bool" where
  "within_budget G a \<longleftrightarrow> max_attempts G a = 0 \<or> retry_attempt a \<le> max_attempts G a"

text \<open>A policy set at run time must leave room for the attempts already counted.\<close>

fun budget_ok :: "env \<times> acct_in \<Rightarrow> account \<times> bool \<Rightarrow> bool" where
  "budget_ok (E, In_SetRetryPolicy i m b n) s = (n = 0 \<or> retry_attempt (fst s) \<le> n)"
| "budget_ok _ s = True"

lemma budget_cong:
  "retry_attempt a' = retry_attempt a \<or> retry_attempt a' = 0 \<Longrightarrow>
   retry_policy_set a' = retry_policy_set a \<Longrightarrow> retry_max_attempts a' = retry_max_attempts a \<Longrightarrow>
   within_budget G a \<Longrightarrow> within_budget G a'"
  by (auto simp: within_budget_def max_attempts_def)

lemma schedule_budget:
  "within_budget G a \<Longrightarrow> within_budget G (fst (vox_account_schedule_retry G E a))"
proof -
  assume w: "within_budget G a"
  have "retry_attempt a + 1 \<le> max_attempts G a" if "retry_attempt a < max_attempts G a"
    using that by (metis inc_le)
  then show ?thesis
    using w by (auto simp: vox_account_schedule_retry_def Let_def within_budget_def max_attempts_def
        retry_budget_left_def)
qed

lemma srv_fields [simp]:
  "retry_attempt (fst (srv_advance E a)) = retry_attempt a"
  "retry_policy_set (fst (srv_advance E a)) = retry_policy_set a"
  "retry_max_attempts (fst (srv_advance E a)) = retry_max_attempts a"
  "retry_attempt (fst (vox_account_srv_resolve L G E a)) = retry_attempt a"
  "retry_policy_set (fst (vox_account_srv_resolve L G E a)) = retry_policy_set a"
  "retry_max_attempts (fst (vox_account_srv_resolve L G E a)) = retry_max_attempts a"
  "retry_attempt (vox_account_watch_registration a) = retry_attempt a"
  "retry_policy_set (vox_account_watch_registration a) = retry_policy_set a"
  "retry_max_attempts (vox_account_watch_registration a) = retry_max_attempts a"
  "retry_attempt (vox_account_keepalive_arm G a) = retry_attempt a"
  "retry_policy_set (vox_account_keepalive_arm G a) = retry_policy_set a"
  "retry_max_attempts (vox_account_keepalive_arm G a) = retry_max_attempts a"
  by (simp_all add: srv_advance_def vox_account_srv_resolve_def vox_account_watch_registration_def
      vox_account_keepalive_arm_def Let_def)

lemma keepalive_budget: "within_budget G a \<Longrightarrow> within_budget G (fst (keepalive_handler L G E (a\<lparr>ka_tmr := x\<rparr>)))"
  by (erule budget_cong [rotated 3]) (simp_all add: keepalive_handler_def split: prod.splits)

lemma ka_resp_budget: "within_budget G a \<Longrightarrow> within_budget G (fst (keepalive_resp_handler L G E w a))"
proof (cases w)
  case None
  assume "within_budget G a"
  then show ?thesis
    by (rule budget_cong [rotated 3]) (simp_all add: None keepalive_resp_handler_def Let_def)
next
  case (Some why)
  assume a: "within_budget G a"
  have "within_budget G b" if "retry_attempt b = retry_attempt a" "retry_policy_set b = retry_policy_set a"
    "retry_max_attempts b = retry_max_attempts a" for b
    using budget_cong [OF _ that(2,3) a] that(1) by simp
  then show ?thesis
    using a by (auto intro!: schedule_budget simp: Some keepalive_resp_handler_def Let_def fail_state_simp)
qed

lemma watch_budget: "within_budget G a \<Longrightarrow> within_budget G (fst (reg_watch_handler L G E (a\<lparr>reg_watch_tmr := x\<rparr>)))"
proof -
  assume a: "within_budget G a"
  have same: "within_budget G b" if "retry_attempt b = retry_attempt a \<or> retry_attempt b = 0"
    "retry_policy_set b = retry_policy_set a" "retry_max_attempts b = retry_max_attempts a" for b
    using budget_cong [OF that a] .
  show ?thesis
    by (simp add: reg_watch_handler_def Let_def fail_state_simp schedule_budget same a)
qed

lemma fail_budget: "within_budget G a \<Longrightarrow> within_budget G (fst (bev_register_fail L G E reason a))"
proof -
  assume a: "within_budget G a"
  let ?err = "reg_fail_error reason"
  obtain st a1 where fs: "vox_account_reg_fail_state G ?err a = (st, a1)" by fastforce
  let ?a2 = "vox_account_keepalive_cancel (a1\<lparr>reg_state := st, reg_error := ?err\<rparr>)"
  let ?a3 = "case reason of Some r \<Rightarrow> ?a2\<lparr>reg_error_str := lb_ncpy L 256 r\<rparr> | None \<Rightarrow> ?a2"
  have "within_budget G ?a3"
    using fs a by (intro budget_cong [OF _ _ _ a])
      (auto simp: fail_state_simp vox_account_keepalive_cancel_def split: if_splits option.splits)
  then have "within_budget G (fst (onlyif (?err \<noteq> ERR_AUTH) (vox_account_schedule_retry G E) ?a3))"
    by (simp add: onlyif_def schedule_budget)
  then show ?thesis
    by (simp add: bev_register_fail_def Let_def fs) (erule budget_cong [rotated 3], simp_all)
qed

lemma budget_step:
  assumes "within_budget G a" and "budget_ok (E, i) (a, b)"
  shows "within_budget G (fst (acct_input L G E i a))"
proof -
  let ?a' = "fst (acct_input L G E i a)"
  have same: "(retry_attempt ?a' = retry_attempt a \<or> retry_attempt ?a' = 0) \<and>
      retry_policy_set ?a' = retry_policy_set a \<and> retry_max_attempts ?a' = retry_max_attempts a \<Longrightarrow> ?thesis"
    using budget_cong [OF _ _ _ assms(1)] by blast
  show ?thesis
  proof (cases i)
    case (In_SetRetryPolicy p q r n)
    then show ?thesis using assms by (auto simp: within_budget_def max_attempts_def set_retry_policy_fn_def)
  next
    case In_KeepaliveNow
    then show ?thesis using assms(1) by (simp add: keepalive_now_fn_def keepalive_budget)
  next
    case In_KaFires
    then show ?thesis using assms(1) by (simp add: fires_def keepalive_budget)
  next
    case In_WatchFires
    then show ?thesis using assms(1) by (simp add: fires_def watch_budget)
  next
    case (In_KaResp w)
    then show ?thesis using assms(1) by (simp add: ka_resp_budget)
  next
    case (In_BevFail r)
    then show ?thesis using assms(1) by (simp add: fail_budget)
  next
    case In_NetToRetry
    then show ?thesis using assms(1) by (simp add: handover_account_to_retry_def schedule_budget)
  qed (rule same; simp add: handler_defs Let_def vox_account_keepalive_cancel_def)+
qed

interpretation budget: invariant_machine "fsm_step L G" budget_ok "\<lambda>s. within_budget G (fst s)" for L G
proof
  fix s x
  assume "within_budget G (fst s)" "budget_ok x s"
  then show "within_budget G (fst (fst (fsm_step L G x s)))"
    using budget_step [of G "fst s" "fst x" "snd x" "snd s" L]
    by (auto simp: fsm_step_def split: prod.splits)
qed


definition cfg_two :: vox_cfg where
  "cfg_two = cfg0\<lparr>vc_reg_retry_max_attempts := 2\<rparr>"

definition failing_run :: "(env \<times> acct_in) list" where
  "failing_run = [sends In_Register, sends (In_BevFail (Some ''503 Busy'')), sends In_RetryFires,
     sends (In_BevFail (Some ''503 Busy'')), sends In_RetryFires, sends (In_BevFail (Some ''503 Busy''))]"


section \<open>The walk over the SRV targets\<close>

fun outbounds :: "acct_eff list \<Rightarrow> string list" where
  "outbounds [] = []"
| "outbounds (SetOutbound s # es) = s # outbounds es"
| "outbounds (_ # es) = outbounds es"

definition srv_ok :: "account \<Rightarrow> bool" where
  "srv_ok a \<longleftrightarrow> length (srv_uri a) = VOX_SRV_MAX_TARGETS \<and> unat (srv_count a) \<le> VOX_SRV_MAX_TARGETS \<and>
     (srv_idx a < srv_count a \<or> srv_idx a = 0)"

lemma outbounds_append [simp]: "outbounds (xs @ ys) = outbounds xs @ outbounds ys"
  by (induction xs rule: outbounds.induct) simp_all

lemma next_srv_idx:
  fixes idx count :: u8
  assumes "count \<noteq> 0" and "unat count \<le> 4" and "unat idx \<le> 4"
  shows "unat (ucast ((ucast idx + 1 :: u32) mod ucast count) :: u8) = (unat idx + 1) mod unat count"
proof -
  have u: "unat (ucast idx :: u32) = unat idx" "unat (ucast count :: u32) = unat count"
    using unsigned_less [of idx, where ?'a = nat] unsigned_less [of count, where ?'a = nat]
    by (simp_all add: unsigned_ucast_eq take_bit_nat_eq_self)
  have "unat (ucast idx + 1 :: u32) = unat idx + 1"
    using assms(3) by (subst unat_add_lem [THEN iffD1]) (simp_all add: u)
  then have m: "unat ((ucast idx + 1 :: u32) mod ucast count) = (unat idx + 1) mod unat count"
    by (simp add: unat_mod u)
  have "0 < unat count" using assms(1) by (simp add: unat_gt_0)
  then have "(unat idx + 1) mod unat count < unat count" by (rule mod_less_divisor)
  then have "(unat idx + 1) mod unat count < 256" using assms(2) by linarith
  moreover have "unat (ucast w :: u8) = unat w mod 256" for w :: u32
    by (simp add: unsigned_ucast_eq take_bit_eq_mod)
  ultimately show ?thesis by (simp add: m)
qed

lemma retry_fires_outbound:
  assumes "2 \<le> srv_count a" and "srv_ok a" and "ua a \<noteq> None" and "\<not> destroyed a" and "ua_has_account E"
  defines "a' \<equiv> fst (retry_timer_handler E a)"
  shows "outbounds (snd (retry_timer_handler E a)) = [srv_uri a ! ((unat (srv_idx a) + 1) mod unat (srv_count a))]"
    and "unat (srv_idx a') = (unat (srv_idx a) + 1) mod unat (srv_count a)"
    and "srv_uri a' = srv_uri a" and "srv_count a' = srv_count a" and "ua a' = ua a" and "destroyed a' = destroyed a"
    and "srv_ok a'"
proof -
  have c: "unat (srv_count a) \<le> 4" "2 \<le> unat (srv_count a)" "srv_count a \<noteq> 0"
    using assms(1,2) by (auto simp: srv_ok_def VOX_SRV_MAX_TARGETS_def word_le_nat_alt)
  have i: "unat (srv_idx a) \<le> 4"
    using assms(2) c by (auto simp: srv_ok_def word_less_nat_alt)
  note n = next_srv_idx [OF c(3,1) i]
  have nl: "\<not> srv_count a < 2" using assms(1) by simp
  show o: "outbounds (snd (retry_timer_handler E a)) = [srv_uri a ! ((unat (srv_idx a) + 1) mod unat (srv_count a))]"
    using assms(3-5) nl n by (auto simp: retry_timer_handler_def srv_advance_def Let_def)
  show "unat (srv_idx a') = (unat (srv_idx a) + 1) mod unat (srv_count a)"
    "srv_uri a' = srv_uri a" "srv_count a' = srv_count a" "ua a' = ua a" "destroyed a' = destroyed a"
    using assms(3-5) nl n by (auto simp: a'_def retry_timer_handler_def srv_advance_def vox_account_watch_registration_def Let_def)
  then show "srv_ok a'"
    using assms(2) c by (simp add: srv_ok_def word_less_nat_alt)
qed

text \<open>
  C27: Consecutive retries walk the SRV targets in order. The outbound proxies that \<open>n\<close>
  consecutive firings of the retry timer set are the stored targets after the current one,
  cyclically: every target is tried once in every \<open>srv_count\<close> retries.
\<close>

theorem srv_walk_cycles:
  assumes "2 \<le> srv_count a" and "srv_ok a" and "ua a \<noteq> None" and "\<not> destroyed a" and "ua_has_account E"
  shows "outbounds (snd (run_acts (\<lambda>_. retry_timer_handler E) (replicate n ()) a)) =
    map (\<lambda>k. srv_uri a ! ((unat (srv_idx a) + k) mod unat (srv_count a))) [1..<Suc n]"
  using assms
proof (induction n arbitrary: a)
  case (Suc n)
  let ?a' = "fst (retry_timer_handler E a)"
  note f = retry_fires_outbound [OF Suc.prems]
  have "outbounds (snd (run_acts (\<lambda>_. retry_timer_handler E) (replicate n ()) ?a')) =
    map (\<lambda>k. srv_uri ?a' ! ((unat (srv_idx ?a') + k) mod unat (srv_count ?a'))) [1..<Suc n]"
    using Suc.prems f(3-7) by (intro Suc.IH) simp_all
  also have "\<dots> = map (\<lambda>k. srv_uri a ! ((unat (srv_idx a) + 1 + k) mod unat (srv_count a))) [1..<Suc n]"
    unfolding f(2-4) by (simp add: mod_add_left_eq)
  also have "\<dots> = map (\<lambda>k. srv_uri a ! ((unat (srv_idx a) + k) mod unat (srv_count a))) [2..<Suc (Suc n)]"
  proof -
    have "[2..<Suc (Suc n)] = map Suc [1..<Suc n]" by (simp add: map_Suc_upt numeral_2_eq_2 del: upt_Suc)
    then show ?thesis by (simp add: comp_def del: upt_Suc)
  qed
  finally show ?case
    using f(1) by (simp add: upt_conv_Cons [of "Suc 0"] numeral_2_eq_2 del: upt_Suc)
qed simp

definition acct_srv :: account where
  "acct_srv = acct0\<lparr>srv_uri := [''sip:a:5060;transport=udp'', ''sip:b:5060;transport=udp'', [], []], srv_count := 2\<rparr>"

theorem srv_walk_cycles_witness:
  "outbounds (snd (run_acts (\<lambda>_. retry_timer_handler env0) (replicate 3 ()) acct_srv)) =
     [''sip:b:5060;transport=udp'', ''sip:a:5060;transport=udp'', ''sip:b:5060;transport=udp'']"
proof -
  have "2 \<le> srv_count acct_srv" "srv_ok acct_srv" "ua acct_srv \<noteq> None" "\<not> destroyed acct_srv" "ua_has_account env0"
    by code_simp+
  from srv_walk_cycles [OF this, of 3] show ?thesis
    by (simp add: acct_srv_def acct0_def account_zero_def numeral_3_eq_3 upt_rec)
qed

section \<open>The watchdog ends a silent registration\<close>

definition silent_reg :: "env \<Rightarrow> account \<Rightarrow> bool" where
  "silent_reg E a \<longleftrightarrow> \<not> destroyed a \<and> ua a \<noteq> None \<and> reg_wanted a \<and> reg_state a = REG_REGISTERING \<and>
     retry_tmr a = None \<and> reg_watch_tmr a = Some VOX_REG_WATCH_INTERVAL_MS \<and> \<not> ua_isregistered E"

lemma watch_poll:
  assumes "silent_reg E a" and "reg_watch_elapsed_ms a = of_nat e" and "e + 500 < unat (vc_sip_timer_f_ms G)"
  shows "acct_input L G E In_WatchFires a = (a\<lparr>reg_watch_elapsed_ms := of_nat (e + 500)\<rparr>, [])"
proof -
  have "e + 500 < 2 ^ 32"
    using assms(3) unsigned_less [of "vc_sip_timer_f_ms G", where ?'a = nat] by simp
  then have "\<not> vc_sip_timer_f_ms G \<le> of_nat (e + 500)"
    using assms(3) by (simp only: word_le_nat_alt unat_of_nat_small)
  moreover have "reg_watch_elapsed_ms a + VOX_REG_WATCH_INTERVAL_MS = of_nat (e + 500)"
    by (simp add: assms(2) VOX_REG_WATCH_INTERVAL_MS_def)
  ultimately show ?thesis
    using assms(1)
    by (auto simp: silent_reg_def fires_def reg_watch_handler_def reg_watch_timeout_ms_def Let_def)
qed

lemma watch_polls:
  assumes "silent_reg E a" and "reg_watch_elapsed_ms a = of_nat e" and "e + 500 * n < unat (vc_sip_timer_f_ms G)"
  shows "run_acts (\<lambda>_. acct_input L G E In_WatchFires) (replicate n ()) a =
     (a\<lparr>reg_watch_elapsed_ms := of_nat (e + 500 * n)\<rparr>, [])"
  using assms
proof (induction n arbitrary: a e)
  case 0
  then show ?case by (simp add: skip_def)
next
  case (Suc n)
  let ?a' = "a\<lparr>reg_watch_elapsed_ms := of_nat (e + 500)\<rparr>"
  have p: "acct_input L G E In_WatchFires a = (?a', [])" using Suc.prems by (intro watch_poll) simp_all
  have "run_acts (\<lambda>_. acct_input L G E In_WatchFires) (replicate n ()) ?a'
     = (?a'\<lparr>reg_watch_elapsed_ms := of_nat (e + 500 + 500 * n)\<rparr>, [])"
    using Suc.prems by (intro Suc.IH) (simp_all add: silent_reg_def)
  then show ?case by (simp add: p andthen_def add_ac del: acct_input.simps)
qed

lemma watch_expires:
  assumes "silent_reg E a" and "reg_watch_elapsed_ms a = of_nat e"
    and "unat (vc_sip_timer_f_ms G) \<le> e + 500" and "e + 500 < 2 ^ 32" and "vc_sip_timer_f_ms G \<noteq> 0"
    and a'_def: "a' = fst (acct_input L G E In_WatchFires a)"
  shows "reg_error a' = ERR_TIMEOUT"
    and "reg_state a' = (if retry_budget_left G a then REG_RECONNECTING else REG_FAILED)"
    and "retry_budget_left G a \<Longrightarrow> retry_tmr a' \<noteq> None"
proof -
  have "vc_sip_timer_f_ms G \<le> of_nat (e + 500)"
    using assms(3,4) by (simp only: word_le_nat_alt unat_of_nat_small)
  moreover have "reg_watch_elapsed_ms a + VOX_REG_WATCH_INTERVAL_MS = of_nat (e + 500)"
    by (simp add: assms(2) VOX_REG_WATCH_INTERVAL_MS_def)
  ultimately show "reg_error a' = ERR_TIMEOUT"
    "reg_state a' = (if retry_budget_left G a then REG_RECONNECTING else REG_FAILED)"
    "retry_budget_left G a \<Longrightarrow> retry_tmr a' \<noteq> None"
    using assms(1,5)
    by (auto simp: a'_def silent_reg_def fires_def reg_watch_handler_def reg_watch_timeout_ms_def Let_def
        fail_state_simp vox_account_schedule_retry_def retry_budget_left_def)
qed

lemma run_acts_append: "run_acts step (xs @ ys) = andthen (run_acts step xs) (run_acts step ys)"
  by (induction xs) (simp_all add: andthen_assoc)

text \<open>
  C18: A REGISTER nobody answers does not leave the account in REGISTERING. When the stack
  reports nothing, the watchdog's polls, one every 500 ms, end it after exactly the rounded-up
  number that covers the configured timeout: the error is a timeout, and the account is
  RECONNECTING with a retry armed, or FAILED when the budget of attempts is spent.
\<close>

theorem watchdog_ends_silence:
  assumes "silent_reg E a" and "reg_watch_elapsed_ms a = 0"
    and "0 < unat (vc_sip_timer_f_ms G)" and "unat (vc_sip_timer_f_ms G) \<le> 2 ^ 32 - 500"
    and "n = (unat (vc_sip_timer_f_ms G) + 499) div 500"
    and "a' = fst (run_acts (\<lambda>_. acct_input L G E In_WatchFires) (replicate n ()) a)"
  shows "reg_error a' = ERR_TIMEOUT \<and>
    reg_state a' = (if retry_budget_left G a then REG_RECONNECTING else REG_FAILED) \<and>
    (retry_budget_left G a \<longrightarrow> retry_tmr a' \<noteq> None)"
proof -
  let ?T = "unat (vc_sip_timer_f_ms G)"
  have "n \<noteq> 0" using assms(3,5) by simp
  then obtain m where m: "n = Suc m" using not0_implies_Suc by blast
  have lt: "500 * m < ?T" "?T \<le> 500 * m + 500" using assms(3,5) m by linarith+
  let ?b = "a\<lparr>reg_watch_elapsed_ms := of_nat (0 + 500 * m)\<rparr>"
  have p: "run_acts (\<lambda>_. acct_input L G E In_WatchFires) (replicate m ()) a = (?b, [])"
    using lt(1) assms(1,2) by (intro watch_polls) simp_all
  have "replicate n () = replicate m () @ [()]" by (simp add: m replicate_append_same)
  then have a': "a' = fst (acct_input L G E In_WatchFires ?b)"
    using p by (simp add: assms(6) run_acts_append del: acct_input.simps)
  have "500 * m + 500 < 2 ^ 32" using lt(1) assms(4) by simp
  moreover have "silent_reg E ?b" using assms(1) by (simp add: silent_reg_def)
  moreover have "vc_sip_timer_f_ms G \<noteq> 0" using assms(3) by auto
  ultimately show ?thesis
    using watch_expires [OF _ _ _ _ _ a', of "500 * m"] lt(2) by (simp add: retry_budget_left_def)
qed


definition acct_silent :: account where
  "acct_silent = acct0\<lparr>reg_wanted := True, reg_state := REG_REGISTERING, reg_watch_tmr := Some 500\<rparr>"

theorem watchdog_ends_silence_witness:
  "reg_state (fst (run_acts (\<lambda>_. acct_input libre_ref cfg0 env0 In_WatchFires) (replicate 64 ()) acct_silent))
     = REG_RECONNECTING"
proof -
  have "silent_reg env0 acct_silent" by code_simp
  moreover have "reg_watch_elapsed_ms acct_silent = 0" by (simp add: acct_silent_def acct0_def account_zero_def)
  moreover have t: "unat (vc_sip_timer_f_ms cfg0) = 32000"
    by (simp add: cfg0_def voxsdk_config_init_def)
  moreover have "retry_budget_left cfg0 acct_silent" by code_simp
  moreover have "(64 :: nat) = (32000 + 499) div 500" by simp
  ultimately show ?thesis
    using watchdog_ends_silence [of env0 acct_silent cfg0 64 _ libre_ref, OF _ _ _ _ _ refl] by simp
qed

end
