(* ===== verification/Vox_Account_Cfg.thy ===== *)
theory Vox_Account_Cfg
  imports Vox_Account Vox_Transport
begin

text \<open>
  The configuration side of \<^verbatim>\<open>src/account.c\<close>: the account URI parser, the deep copy of the
  configuration, the codec lists and everything \<open>configure_baresip_account\<close> sets on baresip's
  account object.
\<close>

section \<open>The account URI\<close>

text \<open>A bounded copy as the parser makes them: at most \<open>sz - 1\<close> of the first \<open>n\<close> characters.\<close>

definition bounded :: "nat \<Rightarrow> nat \<Rightarrow> string \<Rightarrow> string" where
  "bounded sz n s = take (if sz \<le> n then sz - 1 else n) s"

definition strip_sip :: "string \<Rightarrow> string" where
  "strip_sip uri =
     (if starts_with_ci ''sip:'' uri then drop 4 uri
      else if starts_with_ci ''sips:'' uri then drop 5 uri else uri)"

definition parse_account_uri :: "libre \<Rightarrow> cptr \<Rightarrow> nat \<Rightarrow> nat \<Rightarrow> string \<times> string \<times> u16" where
  "parse_account_uri L uri user_sz host_sz =
     (case uri of
        None \<Rightarrow> ([], [], 0)
      | Some u0 \<Rightarrow>
          (let u = strip_sip u0
           in case strchr (CHR ''@'') u of
                None \<Rightarrow>
                  (case strchr (CHR '':'') u of
                     Some c \<Rightarrow> ([], bounded host_sz c u, port_of (drop (Suc c) u))
                   | None \<Rightarrow> ([], lb_ncpy L host_sz u, 0))
              | Some i \<Rightarrow>
                  (let user = bounded user_sz i u;
                       hp = drop (Suc i) u;
                       hp_len = (case strchr (CHR '';'') hp of Some s \<Rightarrow> s | None \<Rightarrow> length hp)
                   in if hp \<noteq> [] \<and> hd hp = CHR ''['' then
                        (case memchr (CHR '']'') hp_len hp of
                           Some b \<Rightarrow>
                             (user, bounded host_sz (b - 1) (tl hp),
                              if Suc b < hp_len \<and> hp ! Suc b = CHR '':'' then port_of (drop (b + 2) hp) else 0)
                         | None \<Rightarrow> (user, bounded host_sz hp_len hp, 0))
                      else
                        (case memchr (CHR '':'') hp_len hp of
                           Some c \<Rightarrow> (user, bounded host_sz c hp, port_of (drop (Suc c) hp))
                         | None \<Rightarrow> (user, bounded host_sz hp_len hp, 0)))))"

section \<open>The copy of the configuration\<close>

text \<open>
  \<open>vox_strdup\<close> gives a copy, or NULL for a NULL argument or when memory is short; \<open>ok i\<close> says
  whether the \<open>i\<close>-th of the copy's allocations succeeds.
\<close>

definition vox_strdup :: "bool \<Rightarrow> cptr \<Rightarrow> cptr" where
  "vox_strdup ok s = (if ok then s else None)"

definition vox_acct_cfg_deep_copy :: "(nat \<Rightarrow> bool) \<Rightarrow> acct_cfg \<Rightarrow> acct_cfg" where
  "vox_acct_cfg_deep_copy ok src = src\<lparr>
     ac_uri := vox_strdup (ok 0) (ac_uri src),
     ac_password := vox_strdup (ok 1) (ac_password src),
     ac_server_host := vox_strdup (ok 2) (ac_server_host src),
     ac_server_url := vox_strdup (ok 3) (ac_server_url src),
     ac_auth_user := vox_strdup (ok 4) (ac_auth_user src),
     ac_display_name := vox_strdup (ok 5) (ac_display_name src),
     ac_stun_server := vox_strdup (ok 6) (ac_stun_server src),
     ac_turn_server := vox_strdup (ok 7) (ac_turn_server src),
     ac_turn_user := vox_strdup (ok 8) (ac_turn_user src),
     ac_turn_pass := vox_strdup (ok 9) (ac_turn_pass src),
     ac_outbound := vox_strdup (ok 10) (ac_outbound src),
     ac_outbound_proxy := vox_strdup (ok 11) (ac_outbound_proxy src),
     ac_push_token := vox_strdup (ok 12) (ac_push_token src),
     ac_push_param := vox_strdup (ok 13) (ac_push_param src)\<rparr>"

section \<open>Codec lists\<close>

definition normalize_codec_name :: "string \<Rightarrow> cptr" where
  "normalize_codec_name name =
     (if name = [] then None
      else if strcasecmp_eq name ''opus'' then Some ''opus/48000/2''
      else if strcasecmp_eq name ''ulaw'' \<or> strcasecmp_eq name ''g711u'' \<or> strcasecmp_eq name ''pcmu''
      then Some ''PCMU/8000/1''
      else if strcasecmp_eq name ''alaw'' \<or> strcasecmp_eq name ''g711a'' \<or> strcasecmp_eq name ''pcma''
      then Some ''PCMA/8000/1''
      else if strcasecmp_eq name ''g722'' then Some ''G722/8000/1''
      else if strcasecmp_eq name ''g729'' then Some ''G729/8000/1''
      else if strcasecmp_eq name ''g726'' \<or> strcasecmp_eq name ''g726-32'' then Some ''G726-32/8000/1''
      else Some name)"

definition VOX_DEFAULT_AUDIO_CODECS :: string where
  "VOX_DEFAULT_AUDIO_CODECS = ''opus/48000/2,PCMU/8000/1,PCMA/8000/1''"

definition codec_enum_name :: "codec \<Rightarrow> cptr" where
  "codec_enum_name c =
     (case c of CODEC_OPUS \<Rightarrow> Some ''opus/48000/2'' | CODEC_PCMU \<Rightarrow> Some ''PCMU/8000/1''
      | CODEC_PCMA \<Rightarrow> Some ''PCMA/8000/1'' | CODEC_G722 \<Rightarrow> Some ''G722/8000/1''
      | CODEC_G726_32 \<Rightarrow> Some ''G726-32/8000/1'' | CODEC_other _ \<Rightarrow> None)"

text \<open>\<open>strncat(buf, s, sz - strlen(buf) - 1)\<close>.\<close>

definition strncat :: "nat \<Rightarrow> string \<Rightarrow> string \<Rightarrow> string" where
  "strncat sz s buf = buf @ take (sz - length buf - 1) s"

definition append_codec :: "nat \<Rightarrow> cptr \<Rightarrow> string \<Rightarrow> string" where
  "append_codec sz name buf =
     (case name of
        None \<Rightarrow> buf
      | Some n \<Rightarrow> strncat sz n (if buf \<noteq> [] then strncat sz '','' buf else buf))"

definition codec_list_str :: "codec list \<Rightarrow> int \<Rightarrow> nat \<Rightarrow> string" where
  "codec_list_str codecs n sz =
     fold (\<lambda>c buf. append_codec sz (codec_enum_name c) buf) (take (min (nat n) 8) codecs) []"

definition codec_names_list_str :: "string list \<Rightarrow> int \<Rightarrow> nat \<Rightarrow> string" where
  "codec_names_list_str names n sz =
     fold (\<lambda>x buf. append_codec sz (normalize_codec_name x) buf) (take (min (nat n) 8) names) []"

section \<open>baresip's account object\<close>

datatype ba_dtmf = DTMFMODE_RTP_EVENT | DTMFMODE_SIP_INFO | DTMFMODE_AUTO

datatype ba_eff =
    Ba_auth_pass string | Ba_auth_user string | Ba_display_name string | Ba_regint u32
  | Ba_outbound string | Ba_mediaenc string | Ba_medianat string | Ba_rtcp_mux bool
  | Ba_stun_uri string | Ba_stun_user string | Ba_stun_pass string | Ba_audio_codecs string
  | Ba_dtmfmode ba_dtmf | Ba_call_transfer bool

definition opt_eff :: "('a \<Rightarrow> 'e) \<Rightarrow> 'a option \<Rightarrow> 'e list" where
  "opt_eff f x = (case x of None \<Rightarrow> [] | Some v \<Rightarrow> [f v])"

definition first_some :: "'a option \<Rightarrow> 'a option \<Rightarrow> 'a option" where
  "first_some a b = (case a of Some x \<Rightarrow> Some x | None \<Rightarrow> b)"

definition acct_auth_user :: "account \<Rightarrow> string" where
  "acct_auth_user a =
     (case ac_auth_user (acfg a) of Some u \<Rightarrow> if u \<noteq> [] then u else parsed_user a | None \<Rightarrow> parsed_user a)"

text \<open>The outbound proxy: the account's, its alias, the global one, or built from the server.\<close>

definition acct_outbound :: "libre \<Rightarrow> vox_cfg \<Rightarrow> account \<Rightarrow> cptr" where
  "acct_outbound L G a =
     (case first_some (ac_outbound (acfg a)) (first_some (ac_outbound_proxy (acfg a)) (vc_outbound_proxy G)) of
        Some ob \<Rightarrow> Some ob
      | None \<Rightarrow>
          (let surl = (case ac_server_url (acfg a) of
                         Some u \<Rightarrow> Some u
                       | None \<Rightarrow> if auto_server_url a \<noteq> [] then Some (auto_server_url a) else None);
               shost = probe_host a;
               sport = (if ac_server_port (acfg a) \<noteq> 0 then ac_server_port (acfg a) else parsed_port a)
           in if surl \<noteq> None \<or> shost \<noteq> [] then
                Some (vox_build_outbound L surl (Some shost) sport (parsed_transport a) 512)
              else None))"

definition acct_media_enc :: "vox_cfg \<Rightarrow> account \<Rightarrow> media_enc" where
  "acct_media_enc G a = (if ac_media_enc (acfg a) \<noteq> MENC_NONE then ac_media_enc (acfg a) else vc_media_enc G)"

definition acct_codecs :: "libre \<Rightarrow> vox_cfg \<Rightarrow> account \<Rightarrow> string" where
  "acct_codecs L G a =
     (let c = acfg a;
          codecs = (if 0 < ac_audio_codec_name_count c then
                      codec_names_list_str (ac_audio_codec_names c) (ac_audio_codec_name_count c) 256
                    else if 0 < ac_audio_codec_count c then
                      codec_list_str (ac_audio_codecs c) (ac_audio_codec_count c) 256
                    else if 0 < vc_audio_codec_name_count G then
                      codec_names_list_str (vc_audio_codec_names G) (vc_audio_codec_name_count G) 256
                    else if 0 < vc_audio_codec_count G then
                      codec_list_str (vc_audio_codecs G) (vc_audio_codec_count G) 256
                    else [])
      in if codecs = [] then lb_ncpy L 256 VOX_DEFAULT_AUDIO_CODECS else codecs)"

definition dtmf_map :: "dtmf_mode \<Rightarrow> ba_dtmf" where
  "dtmf_map m = (case m of DTMF_RFC4733 \<Rightarrow> DTMFMODE_RTP_EVENT | DTMF_SIP_INFO \<Rightarrow> DTMFMODE_SIP_INFO
     | DTMF_AUTO \<Rightarrow> DTMFMODE_AUTO | DTMF_other _ \<Rightarrow> DTMFMODE_RTP_EVENT)"

definition configure_baresip_account :: "libre \<Rightarrow> vox_cfg \<Rightarrow> account \<Rightarrow> ba_eff list" where
  "configure_baresip_account L G a =
     (let c = acfg a;
          turn = first_some (ac_turn_server c) (vc_turn_server G);
          stun = first_some (ac_stun_server c) (vc_stun_server G)
      in opt_eff Ba_auth_pass (ac_password c)
         @ (if acct_auth_user a \<noteq> [] then [Ba_auth_user (acct_auth_user a)] else [])
         @ opt_eff Ba_display_name (ac_display_name c)
         @ [Ba_regint (vc_reg_expires G)]
         @ opt_eff Ba_outbound (acct_outbound L G a)
         @ opt_eff Ba_mediaenc (vox_mediaenc_str (acct_media_enc G a))
         @ (if ac_ice_enabled c \<or> vc_ice_enabled G then [Ba_medianat ''ice''] else [])
         @ [Ba_rtcp_mux (if ac_rtcp_mux_set c then ac_rtcp_mux c else vc_rtcp_mux G)]
         @ opt_eff Ba_stun_uri (first_some turn stun)
         @ opt_eff Ba_stun_user (first_some (ac_turn_user c) (vc_turn_user G))
         @ opt_eff Ba_stun_pass (first_some (ac_turn_pass c) (vc_turn_pass G))
         @ (if acct_codecs L G a \<noteq> [] then [Ba_audio_codecs (acct_codecs L G a)] else [])
         @ [Ba_dtmfmode (dtmf_map (ac_dtmf_mode c)), Ba_call_transfer True])"

section \<open>Readers\<close>

definition voxsdk_account_get_aor :: "libre \<Rightarrow> account option \<Rightarrow> nat \<Rightarrow> vox_error \<times> string" where
  "voxsdk_account_get_aor L acct sz =
     (case acct of
        None \<Rightarrow> (ERR_INVAL, [])
      | Some a \<Rightarrow>
          if sz = 0 then (ERR_INVAL, [])
          else
            (case lb_snprintf L sz (''sip:'' @ parsed_user a @ ''@''
                @ (if CHR '':'' \<in> set (parsed_host a) then ''['' @ parsed_host a @ '']'' else parsed_host a)) of
               (buf, n) \<Rightarrow> if n < 0 then (ERR_NOMEM, []) else (VOX_OK, buf)))"

definition voxsdk_account_get_reg_state :: "account option \<Rightarrow> reg_state" where
  "voxsdk_account_get_reg_state acct = (case acct of None \<Rightarrow> REG_UNREGISTERED | Some a \<Rightarrow> reg_state a)"

section \<open>The URI round trip\<close>

lemma strchr_none: "c \<notin> set s \<Longrightarrow> strchr c s = None" by simp

lemma bounded_exact [simp]: "n < sz \<Longrightarrow> bounded sz n s = take n s"
  by (simp add: bounded_def)

lemma bounded_length: "0 < sz \<Longrightarrow> length (bounded sz n s) < sz"
  by (auto simp: bounded_def)

definition uri_host :: "string \<Rightarrow> string" where
  "uri_host h = (if CHR '':'' \<in> set h then ''['' @ h @ '']'' else h)"

lemma parse_uri_text:
  assumes "CHR ''@'' \<notin> set user" and "length user < 64" and "length h < 256"
    and "set h \<inter> {CHR '';'', CHR ''['', CHR '']''} = {}"
  shows "parse_account_uri L (Some (''sip:'' @ user @ ''@'' @ uri_host h)) 64 256 = (user, h, 0)"
proof -
  let ?hp = "uri_host h"
  have st: "strip_sip (''sip:'' @ user @ ''@'' @ ?hp) = user @ CHR ''@'' # ?hp"
    by (simp add: strip_sip_def starts_with_ci_def)
  have semi: "strchr (CHR '';'') ?hp = None"
    using assms(4) by (auto simp: uri_host_def)
  have at: "strchr (CHR ''@'') (user @ CHR ''@'' # ?hp) = Some (length user)" using assms(1) by simp
  have dr: "drop (Suc (length user)) (user @ CHR ''@'' # ?hp) = ?hp" by simp
  show ?thesis
  proof (cases "CHR '':'' \<in> set h")
    case True
    then have hp: "?hp = CHR ''['' # h @ '']''" by (simp add: uri_host_def)
    have "memchr (CHR '']'') (length ?hp) ?hp = Some (Suc (length h))"
      using assms(4) by (auto simp: hp memchr_def)
    then show ?thesis
      unfolding parse_account_uri_def option.case Let_def st at dr semi using assms(2,3) by (simp add: hp)
  next
    case False
    then have hp: "?hp = h" by (simp add: uri_host_def)
    have "\<not> (h \<noteq> [] \<and> hd h = CHR ''['')" using assms(4) by (cases h) auto
    moreover have "memchr (CHR '':'') (length h) h = None" using False by (simp add: memchr_def)
    ultimately show ?thesis
      unfolding parse_account_uri_def option.case Let_def st at dr semi using assms(2,3) by (auto simp: hp)
  qed
qed

section \<open>Properties\<close>

text \<open>
  C37: The address of record an account reports parses back to the account. For every user
  without \<open>@\<close> and every host without URI delimiters that fit the account's buffers, the text of
  \<open>voxsdk_account_get_aor\<close> is accepted by \<open>parse_account_uri\<close> with the same user and host, IPv6
  literals included, so an application can create a twin account from it.
\<close>

theorem aor_parses_back:
  assumes "libre_laws L" and "CHR ''@'' \<notin> set (parsed_user a)" and "length (parsed_user a) < 64"
    and "length (parsed_host a) < 256" and "set (parsed_host a) \<inter> {CHR '';'', CHR ''['', CHR '']''} = {}"
    and "327 \<le> sz"
  shows "fst (voxsdk_account_get_aor L (Some a) sz) = VOX_OK \<and>
    parse_account_uri L (Some (snd (voxsdk_account_get_aor L (Some a) sz))) 64 256 = (parsed_user a, parsed_host a, 0)"
proof -
  let ?t = "''sip:'' @ parsed_user a @ ''@'' @ uri_host (parsed_host a)"
  have "length ?t < sz" using assms(3,4,6) by (simp add: uri_host_def)
  then have "lb_snprintf L sz ?t = (?t, int (length ?t))" by (rule libre_snprintf_fits [OF assms(1)])
  then have "voxsdk_account_get_aor L (Some a) sz = (VOX_OK, ?t)"
    using assms(6) by (simp add: voxsdk_account_get_aor_def uri_host_def)
  then show ?thesis using parse_uri_text [OF assms(2-5)] by simp
qed

definition acct_v6 :: account where
  "acct_v6 = (account_zero 1 acct_cfg_zero)\<lparr>parsed_user := ''alice'', parsed_host := ''2001:db8::1''\<rparr>"

theorem aor_parses_back_witness:
  "snd (voxsdk_account_get_aor libre_ref (Some acct_v6) 512) = ''sip:alice@[2001:db8::1]'' \<and>
   parse_account_uri libre_ref (Some (snd (voxsdk_account_get_aor libre_ref (Some acct_v6) 512))) 64 256
     = (''alice'', ''2001:db8::1'', 0)"
proof -
  have "parsed_user acct_v6 = ''alice''" "parsed_host acct_v6 = ''2001:db8::1''" by (simp_all add: acct_v6_def)
  moreover have "snd (voxsdk_account_get_aor libre_ref (Some acct_v6) 512) = ''sip:alice@[2001:db8::1]''"
    by code_simp
  ultimately show ?thesis
    using aor_parses_back [OF libre_ref_laws, of acct_v6 512] by simp
qed

end
