(* ===== verification/Vox_Account_Api.thy ===== *)
theory Vox_Account_Api
  imports Vox_Account_Cfg Vox_Reg_Fsm Vox_Ws
begin

text \<open>
  The life of accounts in \<^verbatim>\<open>src/account.c\<close>: \<open>create_fn\<close> with its error paths, \<open>destroy_fn\<close> and
  the destructor, the list of accounts and its readers, and the claims the accounts hold in
  the WebSocket registry of \<open>Vox_Ws\<close>.
\<close>

section \<open>State and environment\<close>

record acct_db =
  db_accounts :: "account list"
  db_ws :: ws_reg

definition acct_db_init :: acct_db where
  "acct_db_init = \<lparr>db_accounts = [], db_ws = ws_reg_init\<rparr>"

text \<open>
  The result of a creation: an SDK error, or an error number of libre or baresip. The
  environment of a creation: whether the object's memory and the copies of the configuration's
  strings could be allocated, the address of the new object, and what \<open>ua_alloc\<close> answers for
  an address of record.
\<close>

datatype create_err = Create_vox vox_error | Create_errno errno

record create_env =
  mem_ok :: bool
  dup_ok :: "nat \<Rightarrow> bool"
  new_handle :: acct_id
  ua_alloc :: "string \<Rightarrow> errno + nat"

section \<open>Creation\<close>

definition auto_port :: "transport \<Rightarrow> u16 \<Rightarrow> u16" where
  "auto_port tp port =
     (if port \<noteq> 0 then port
      else case tp of TP_WSS \<Rightarrow> 443 | TP_WS \<Rightarrow> 80 | TP_TLS \<Rightarrow> 5061 | TP_TCP \<Rightarrow> 5060 | TP_UDP \<Rightarrow> 5060)"

definition auto_scheme :: "transport \<Rightarrow> string" where
  "auto_scheme tp = (case tp of TP_WSS \<Rightarrow> ''wss'' | TP_WS \<Rightarrow> ''ws'' | TP_TLS \<Rightarrow> ''sips'' | TP_TCP \<Rightarrow> ''sip'' | TP_UDP \<Rightarrow> ''sip'')"

text \<open>
  The transport and server of the account: from its server URL, or from its URI with a URL
  made up for it. The result is the account with \<open>tp\<close>, \<open>ws_host\<close>, \<open>ws_port\<close> and \<open>ws_path\<close>.
\<close>

definition create_server :: "libre \<Rightarrow> account \<Rightarrow> account \<times> transport \<times> string \<times> u16 \<times> string" where
  "create_server L a =
     (case ac_server_url (acfg a) of
        Some url \<Rightarrow>
          (case vox_parse_server_url L (Some url) 256 256 of
             Inl _ \<Rightarrow> (a, ac_transport (acfg a), [], 0, [])
           | Inr (tp, sv_host, sv_port, path) \<Rightarrow>
               (a\<lparr>parsed_host := (if parsed_host a = [] then lb_ncpy L 256 sv_host else parsed_host a),
                  parsed_port := sv_port\<rparr>,
                tp, lb_ncpy L 256 sv_host, sv_port, path))
      | None \<Rightarrow>
          (let tp = ac_transport (acfg a);
               port = auto_port tp (parsed_port a)
           in (a\<lparr>auto_server_url := fst (lb_snprintf L 512
                   (auto_scheme tp @ ''://'' @ parsed_host a @ '':'' @ show_nat (unat port)))\<rparr>,
               tp, lb_ncpy L 256 (parsed_host a), port, [])))"

text \<open>The claim in the WebSocket registry.\<close>

definition create_claim ::
  "libre \<Rightarrow> account \<times> transport \<times> string \<times> u16 \<times> string \<Rightarrow> ws_reg \<Rightarrow> account \<times> ws_reg" where
  "create_claim L x r =
     (case x of (a0, tp, wh, wp, path) \<Rightarrow>
        (let a = a0\<lparr>parsed_transport := tp\<rparr>
         in if tp = TP_WS \<or> tp = TP_WSS then
              (let a1 = a\<lparr>ws_host := lb_ncpy L 256 wh, ws_pin_path := lb_ncpy L 256 path, ws_port := wp\<rparr>
               in (a1, vox_ws_set_server L tp (Some (ws_host a1)) (ws_port a1) (Some (ws_pin_path a1)) r))
            else (a, r)))"

definition create_rwait :: "libre \<Rightarrow> vox_cfg \<Rightarrow> string" where
  "create_rwait L G =
     (if 5 \<le> vc_reg_refresh_pct G \<and> vc_reg_refresh_pct G \<le> 95
      then fst (lb_snprintf L 24 ('';rwait='' @ show_nat (unat (vc_reg_refresh_pct G)))) else [])"

definition create_aor :: "libre \<Rightarrow> vox_cfg \<Rightarrow> account \<Rightarrow> string" where
  "create_aor L G a =
     (let host = (if CHR '':'' \<in> set (parsed_host a) then ''['' @ parsed_host a @ '']'' else parsed_host a);
          port = (if parsed_port a \<noteq> 0 then '':'' @ show_nat (unat (parsed_port a)) else [])
      in fst (lb_snprintf L 512 (''sip:'' @ parsed_user a @ ''@'' @ host @ port
           @ '';transport='' @ vox_transport_str (parsed_transport a) @ create_rwait L G)))"

text \<open>
  The destructor: the account's claim is released; its timers, headers and strings go with
  the object.
\<close>

definition account_destructor :: "libre \<Rightarrow> account \<Rightarrow> ws_reg \<Rightarrow> ws_reg" where
  "account_destructor L a r =
     (if ws_port a \<noteq> 0
      then vox_ws_unset_server L (parsed_transport a) (Some (ws_host a)) (ws_port a) (Some (ws_pin_path a)) r
      else r)"

datatype api_eff =
    Api_ua_alloc string
  | Api_configure acct_id "ba_eff list"
  | Api_acct acct_id acct_eff

text \<open>The object before it has a user agent, with the registry; \<open>None\<close> when it has no URI.\<close>

definition create_account :: "libre \<Rightarrow> create_env \<Rightarrow> acct_cfg \<Rightarrow> ws_reg \<Rightarrow> (account \<times> ws_reg) option" where
  "create_account L e cfg r =
     (let a0 = account_zero (new_handle e) (vox_acct_cfg_deep_copy (dup_ok e) cfg)
      in if ac_uri (acfg a0) = None then None
         else
           (case parse_account_uri L (ac_uri (acfg a0)) 64 256 of
              (user, host, port) \<Rightarrow>
                Some (create_claim L (create_server L
                  (a0\<lparr>parsed_user := user, parsed_host := host, parsed_port := port\<rparr>)) r)))"

definition create_fn ::
  "libre \<Rightarrow> vox_cfg \<Rightarrow> create_env \<Rightarrow> acct_cfg \<Rightarrow> acct_db \<Rightarrow> (create_err + acct_id) \<times> acct_db \<times> api_eff list" where
  "create_fn L G e cfg db =
     (if \<not> mem_ok e then (Inl (Create_errno ENOMEM), db, [])
      else
        (case create_account L e cfg (db_ws db) of
           None \<Rightarrow> (Inl (Create_vox ERR_INVAL), db, [])
         | Some (a, ws) \<Rightarrow>
             (let aor = create_aor L G a
              in case ua_alloc e aor of
                   Inl err \<Rightarrow>
                     (Inl (Create_errno err), db\<lparr>db_ws := account_destructor L a ws\<rparr>, [Api_ua_alloc aor])
                 | Inr u \<Rightarrow>
                     (let a1 = a\<lparr>ua := Some u\<rparr>
                      in (Inr (handle a1), db\<lparr>db_accounts := db_accounts db @ [a1], db_ws := ws\<rparr>,
                          [Api_ua_alloc aor, Api_configure (handle a1) (configure_baresip_account L G a1)])))))"

text \<open>
  The public call checks its arguments before it dispatches; \<open>dispatched\<close> is what
  \<open>vox_dispatch_sync\<close> returns.
\<close>

definition voxsdk_account_create ::
  "libre \<Rightarrow> vox_cfg \<Rightarrow> create_env \<Rightarrow> vox_error \<Rightarrow> acct_cfg option \<Rightarrow> acct_db \<Rightarrow> (create_err + acct_id) \<times> acct_db \<times> api_eff list" where
  "voxsdk_account_create L G e dispatched cfg db =
     (case cfg of
        None \<Rightarrow> (Inl (Create_vox ERR_INVAL), db, [])
      | Some c \<Rightarrow>
          if ac_uri c = None then (Inl (Create_vox ERR_INVAL), db, [])
          else if dispatched \<noteq> VOX_OK then (Inl (Create_vox dispatched), db, [])
          else create_fn L G e c db)"

section \<open>Destruction and the readers\<close>

definition destroy_fn :: "libre \<Rightarrow> acct_id \<Rightarrow> acct_db \<Rightarrow> acct_db \<times> api_eff list" where
  "destroy_fn L h db =
     (case find (\<lambda>a. handle a = h) (db_accounts db) of
        None \<Rightarrow> (db, [])
      | Some a \<Rightarrow>
          (case destroy_account a of
             (a1, es) \<Rightarrow>
               (db\<lparr>db_accounts := filter (\<lambda>x. handle x \<noteq> h) (db_accounts db),
                   db_ws := account_destructor L a1 (db_ws db)\<rparr>, map (Api_acct h) es)))"

definition vox_account_find_by_ua :: "nat \<Rightarrow> acct_db \<Rightarrow> account option" where
  "vox_account_find_by_ua u db = find (\<lambda>a. ua a = Some u) (db_accounts db)"

definition voxsdk_account_foreach :: "acct_db \<Rightarrow> acct_id list" where
  "voxsdk_account_foreach db = map handle (filter (\<lambda>a. \<not> destroyed a) (db_accounts db))"

section \<open>The machine\<close>

text \<open>
  What happens to the accounts as a sequence of steps: an application creates and destroys
  them, and in between each gets its own inputs (\<open>Vox_Reg_Fsm\<close>).
\<close>

datatype api_in =
    Api_Create create_env acct_cfg
  | Api_Destroy acct_id
  | Api_Input acct_id env acct_in

definition acct_apply :: "acct_id \<Rightarrow> handler \<Rightarrow> acct_db \<Rightarrow> acct_db \<times> api_eff list" where
  "acct_apply h f db =
     (db\<lparr>db_accounts := map (\<lambda>a. if handle a = h then fst (f a) else a) (db_accounts db)\<rparr>,
      concat (map (\<lambda>a. if handle a = h then map (Api_acct h) (snd (f a)) else []) (db_accounts db)))"

fun api_step :: "libre \<Rightarrow> vox_cfg \<Rightarrow> api_in \<Rightarrow> (acct_db, api_eff) act" where
  "api_step L G (Api_Create e cfg) db = snd (create_fn L G e cfg db)"
| "api_step L G (Api_Destroy h) db = destroy_fn L h db"
| "api_step L G (Api_Input h E i) db = acct_apply h (acct_input L G E i) db"

section \<open>What an input leaves of an account\<close>

text \<open>The part of an account that is settled at its creation and gone only with it.\<close>

definition ident :: "account \<Rightarrow> acct_id \<times> nat option \<times> bool \<times> transport \<times> string \<times> u16 \<times> string" where
  "ident a = (handle a, ua a, destroyed a, parsed_transport a, ws_host a, ws_port a, ws_pin_path a)"

lemma ident_prepare: "vox_account_reg_ev_prepare ev a = (n, ev', a') \<Longrightarrow> ident a' = ident a"
  by (auto simp: vox_account_reg_ev_prepare_def vox_account_reconnect_reset_def Let_def ident_def split: if_splits)

lemma ident_post [simp]: "ident (fst (post_prepared k ev a)) = ident a" "ident (fst (post_stamped ev a)) = ident a"
  "ident (fst (post_if_news ev a)) = ident a"
  by (auto simp: post_prepared_def post_stamped_def post_if_news_def ident_prepare split: prod.splits)

lemma ident_upd [simp]:
  "ident (a\<lparr>reg_state := st\<rparr>) = ident a" "ident (a\<lparr>reg_error := e\<rparr>) = ident a"
  "ident (a\<lparr>reg_error_str := t\<rparr>) = ident a" "ident (a\<lparr>reconnecting := b\<rparr>) = ident a"
  "ident (a\<lparr>retry_attempt := n\<rparr>) = ident a" "ident (a\<lparr>retry_delay_ms := n\<rparr>) = ident a"
  "ident (a\<lparr>retry_tmr := tm\<rparr>) = ident a" "ident (a\<lparr>reg_watch_tmr := tm\<rparr>) = ident a"
  "ident (a\<lparr>reg_watch_elapsed_ms := n\<rparr>) = ident a" "ident (a\<lparr>reg_wanted := b\<rparr>) = ident a"
  "ident (a\<lparr>ka_tmr := tm\<rparr>) = ident a" "ident (a\<lparr>ka_in_flight := b\<rparr>) = ident a"
  "ident (a\<lparr>ka_failed := b\<rparr>) = ident a" "ident (a\<lparr>srv_idx := k\<rparr>) = ident a"
  "ident (a\<lparr>srv_count := k\<rparr>) = ident a" "ident (a\<lparr>srv_uri := us\<rparr>) = ident a"
  "ident (a\<lparr>srv_pending := b\<rparr>) = ident a" "ident (a\<lparr>srv_tried := b\<rparr>) = ident a"
  "ident (a\<lparr>acfg := c\<rparr>) = ident a"
  by (simp_all add: ident_def)

lemma ident_arm [simp]: "ident (vox_account_keepalive_arm G a) = ident a"
  "ident (vox_account_keepalive_cancel a) = ident a" "ident (vox_account_watch_registration a) = ident a"
  by (simp_all add: vox_account_keepalive_arm_def vox_account_keepalive_cancel_def vox_account_watch_registration_def)

lemma ident_schedule [simp]: "ident (fst (vox_account_schedule_retry G E a)) = ident a"
  by (simp add: vox_account_schedule_retry_def Let_def)

lemma ident_fail_state: "vox_account_reg_fail_state G e a = (st, a') \<Longrightarrow> ident a' = ident a"
  by (auto simp: vox_account_reg_fail_state_def Let_def)

lemma ident_srv [simp]: "ident (srv_store L res is a) = ident a"
  by (induction L res "is" a rule: srv_store.induct) (auto simp: Let_def split: sum.splits)


lemma ident_handlers [simp]:
  "ident (fst (srv_advance E a)) = ident a"
  "ident (fst (retry_timer_handler E a)) = ident a"
  "ident (fst (vox_account_srv_resolve L G E a)) = ident a"
  "ident (fst (register_fn L G E a)) = ident a"
  "ident (fst (unregister_fn a)) = ident a"
  "ident (fst (keepalive_handler L G E a)) = ident a"
  "ident (fst (cancel_retry_fn a)) = ident a"
  "ident (fst (retry_now_fn a)) = ident a"
  "ident (fst (fst (set_push_token_fn L tok a))) = ident a"
  "ident (fst (vox_account_reg_reconnecting a)) = ident a"
  "ident (srv_done_handler L E res a) = ident a"
  by (simp_all add: srv_advance_def retry_timer_handler_def vox_account_srv_resolve_def register_fn_def
      unregister_fn_def keepalive_handler_def cancel_retry_fn_def retry_now_fn_def set_push_token_fn_def
      vox_account_reg_reconnecting_def srv_done_handler_def Let_def split: prod.splits)

lemma ident_watch [simp]: "ident (fst (reg_watch_handler L G E a)) = ident a"
  by (auto simp: reg_watch_handler_def Let_def ident_fail_state split: prod.splits)

lemma ident_ka_resp [simp]: "ident (fst (keepalive_resp_handler L G E w a)) = ident a"
  by (auto simp: keepalive_resp_handler_def Let_def ident_fail_state split: prod.splits option.splits)

lemma ident_fail [simp]: "ident (fst (bev_register_fail L G E r a)) = ident a"
  by (auto simp: bev_register_fail_def Let_def ident_fail_state onlyif_def split: prod.splits option.splits)

lemma ident_bev [simp]: "ident (fst (bev_registering L E a)) = ident a"
  "ident (fst (bev_register_ok G a)) = ident a" "ident (fst (bev_unregistering a)) = ident a"
  by (simp_all add: bev_registering_def bev_register_ok_def bev_unregistering_def Let_def)

lemma ident_policy [simp]: "ident (set_retry_policy_fn i m b n a) = ident a"
  by (simp add: set_retry_policy_fn_def ident_def)

lemma ident_input:
  assumes "i \<noteq> In_Destroy"
  shows "ident (fst (acct_input L G E i a)) = ident a"
  using assms
  by (cases i) (auto simp: fires_def mark_reconnecting_def reregister_account_def handover_account_to_retry_def
      keepalive_now_fn_def)

section \<open>The claims of the live accounts\<close>

definition acct_claim :: "account \<Rightarrow> ws_claim_t" where
  "acct_claim a = (parsed_transport a, ws_host a, ws_port a, ws_pin_path a)"

definition holds_claim :: "account \<Rightarrow> bool" where
  "holds_claim a \<longleftrightarrow> ws_port a \<noteq> 0 \<and> ws_host a \<noteq> []"

definition claims_of :: "libre \<Rightarrow> account list \<Rightarrow> (string \<times> string) multiset" where
  "claims_of L as = mset (map (\<lambda>a. ws_key L (acct_claim a)) (filter holds_claim as))"

definition acct_wf :: "account \<Rightarrow> bool" where
  "acct_wf a \<longleftrightarrow> ua a \<noteq> None \<and> \<not> destroyed a \<and> (holds_claim a \<longrightarrow> ws_valid (acct_claim a))"

definition db_wf :: "libre \<Rightarrow> acct_db \<Rightarrow> bool" where
  "db_wf L db \<longleftrightarrow> ws_wf (db_ws db) \<and> ws_abs (db_ws db) = claims_of L (db_accounts db) \<and>
     distinct (map handle (db_accounts db)) \<and> distinct (map ua (db_accounts db)) \<and>
     list_all acct_wf (db_accounts db)"

text \<open>
  What a step may assume: a new object's address and user agent are new and its claim finds
  room in the table; an account is destroyed by \<open>destroy_fn\<close> only.
\<close>

fun api_ok :: "libre \<Rightarrow> vox_cfg \<Rightarrow> api_in \<Rightarrow> acct_db \<Rightarrow> bool" where
  "api_ok L G (Api_Create e cfg) db =
     (new_handle e \<notin> set (map handle (db_accounts db)) \<and>
      (case create_account L e cfg (db_ws db) of
         None \<Rightarrow> True
       | Some (a, _) \<Rightarrow>
           (holds_claim a \<longrightarrow> ws_room L (acct_claim a) (db_ws db)) \<and>
           (case ua_alloc e (create_aor L G a) of Inl _ \<Rightarrow> True | Inr u \<Rightarrow> Some u \<notin> set (map ua (db_accounts db)))))"
| "api_ok L G (Api_Destroy h) db = True"
| "api_ok L G (Api_Input h E i) db = (i \<noteq> In_Destroy)"


lemma ident_claims: "ident a = ident b \<Longrightarrow> acct_claim a = acct_claim b \<and> holds_claim a = holds_claim b \<and>
    acct_wf a = acct_wf b \<and> handle a = handle b \<and> ua a = ua b"
  by (simp add: ident_def acct_claim_def holds_claim_def acct_wf_def)

lemma claims_of_simps [simp]:
  "claims_of L [] = {#}"
  "claims_of L (a # as) = (if holds_claim a then add_mset (ws_key L (acct_claim a)) (claims_of L as) else claims_of L as)"
  "claims_of L (as @ bs) = claims_of L as + claims_of L bs"
  by (simp_all add: claims_of_def)

lemma claims_of_same:
  "(\<And>a. a \<in> set as \<Longrightarrow> ident (f a) = ident a) \<Longrightarrow> claims_of L (map f as) = claims_of L as"
  by (induction as) (simp_all, metis ident_claims)

lemma claims_of_remove:
  "distinct (map handle as) \<Longrightarrow> a \<in> set as \<Longrightarrow>
   claims_of L (filter (\<lambda>x. handle x \<noteq> handle a) as) =
     claims_of L as - (if holds_claim a then {#ws_key L (acct_claim a)#} else {#})"
proof (induction as)
  case (Cons b as)
  show ?case
  proof (cases "b = a")
    case True
    have "filter (\<lambda>x. handle x \<noteq> handle a) as = as" using Cons.prems(1) True by (simp add: filter_id_conv) (metis image_eqI)
    then show ?thesis using True by simp
  next
    case False
    then have m: "a \<in> set as" using Cons.prems(2) by simp
    then have h: "handle b \<noteq> handle a" using Cons.prems(1) by auto
    have "holds_claim a \<Longrightarrow> ws_key L (acct_claim a) \<in># claims_of L as" using m by (auto simp: claims_of_def)
    then show ?thesis using Cons.IH [OF _ m] Cons.prems(1) h by simp
  qed
qed simp

lemma set_server_claim: "holds_claim a \<Longrightarrow>
    vox_ws_set_server L (parsed_transport a) (Some (ws_host a)) (ws_port a) (Some (ws_pin_path a)) r = ws_claim L (acct_claim a) r"
  by (simp add: ws_claim_def acct_claim_def)

lemma destructor_release: "account_destructor L a r = (if holds_claim a then ws_release L (acct_claim a) r else r)"
  by (simp add: account_destructor_def holds_claim_def ws_release_def acct_claim_def vox_ws_unset_server_def)

text \<open>What \<open>create_account\<close> makes: a claim in the registry exactly when the account says so.\<close>

lemma create_account_made:
  assumes "libre_laws L" and "create_account L e cfg r = Some (a, r')"
  shows "handle a = new_handle e" and "\<not> destroyed a" and "holds_claim a \<Longrightarrow> ws_valid (acct_claim a)"
    and "r' = (if holds_claim a then ws_claim L (acct_claim a) r else r)"
proof -
  have n: "length (lb_ncpy L 256 x) < 256" for x using libre_ncpy [OF assms(1), of 256 x] by simp
  obtain a1 tp wh wp path where c: "create_claim L (a1, tp, wh, wp, path) r = (a, r')"
    and f: "handle a1 = new_handle e" "\<not> destroyed a1" "ws_port a1 = 0"
    using assms(2)
    by (auto simp: create_account_def create_server_def account_zero_def Let_def
        split: if_splits prod.splits option.splits sum.splits)
  show "handle a = new_handle e" "\<not> destroyed a" "holds_claim a \<Longrightarrow> ws_valid (acct_claim a)"
    using c f n by (auto simp: create_claim_def Let_def holds_claim_def ws_valid_def acct_claim_def split: if_splits)
  show "r' = (if holds_claim a then ws_claim L (acct_claim a) r else r)"
  proof (cases "tp = TP_WS \<or> tp = TP_WSS")
    case True
    with c have r: "r' = vox_ws_set_server L (parsed_transport a) (Some (ws_host a)) (ws_port a) (Some (ws_pin_path a)) r"
      by (auto simp: create_claim_def Let_def)
    show ?thesis
      by (cases "holds_claim a") (simp_all add: r set_server_claim, auto simp: holds_claim_def vox_ws_set_server_def)
  next
    case False
    with c f show ?thesis by (auto simp: create_claim_def Let_def holds_claim_def)
  qed
qed


lemma create_keeps:
  assumes "libre_laws L" and "db_wf L db" and "api_ok L G (Api_Create e cfg) db"
  shows "db_wf L (fst (snd (create_fn L G e cfg db)))"
proof (cases "mem_ok e \<and> create_account L e cfg (db_ws db) \<noteq> None")
  case False
  then show ?thesis using assms(2) by (cases "create_account L e cfg (db_ws db)") (simp_all add: create_fn_def)
next
  case True
  then obtain a r where c: "create_account L e cfg (db_ws db) = Some (a, r)" and m: "mem_ok e" by auto
  note made = create_account_made [OF assms(1) c]
  have wf: "ws_wf (db_ws db)" "ws_abs (db_ws db) = claims_of L (db_accounts db)" using assms(2) by (simp_all add: db_wf_def)
  have room: "holds_claim a \<Longrightarrow> ws_room L (acct_claim a) (db_ws db)" using assms(3) c by simp
  show ?thesis
  proof (cases "ua_alloc e (create_aor L G a)")
    case (Inl err)
    have "ws_wf (account_destructor L a r) \<and> ws_abs (account_destructor L a r) = ws_abs (db_ws db)"
      using ws.claim_release [of L "db_ws db" "acct_claim a"] assms(1) wf room made(3,4)
      by (simp add: destructor_release)
    then show ?thesis using assms(2) c m Inl by (simp add: create_fn_def db_wf_def Let_def)
  next
    case (Inr u)
    have "ws_wf r \<and> ws_abs r = claims_of L (db_accounts db) + claims_of L [a]"
      using ws.add_law [of L "db_ws db" "acct_claim a"] assms(1) wf room made(3,4) by simp
    moreover have "claims_of L [a\<lparr>ua := Some u\<rparr>] = claims_of L [a]"
      by (simp add: holds_claim_def acct_claim_def)
    ultimately show ?thesis
      using assms(2,3) c m Inr made(1-3)
      by (simp add: create_fn_def db_wf_def Let_def acct_wf_def holds_claim_def acct_claim_def)
  qed
qed

lemma destroy_keeps:
  assumes "libre_laws L" and "db_wf L db"
  shows "db_wf L (fst (destroy_fn L h db))"
proof (cases "find (\<lambda>a. handle a = h) (db_accounts db)")
  case None
  then show ?thesis using assms(2) by (simp add: destroy_fn_def)
next
  case (Some a)
  then have a: "a \<in> set (db_accounts db)" "h = handle a" by (auto simp: find_Some_iff)
  have wf: "ws_wf (db_ws db)" "ws_abs (db_ws db) = claims_of L (db_accounts db)"
    "distinct (map handle (db_accounts db))" "distinct (map ua (db_accounts db))" "acct_wf a"
    using assms(2) a(1) by (auto simp: db_wf_def list_all_iff)
  have same: "acct_claim (fst (destroy_account a)) = acct_claim a" "holds_claim (fst (destroy_account a)) = holds_claim a"
    by (simp_all add: destroy_account_def acct_claim_def holds_claim_def)
  let ?r = "account_destructor L (fst (destroy_account a)) (db_ws db)"
  have "ws_wf ?r \<and> ws_abs ?r = claims_of L (filter (\<lambda>x. handle x \<noteq> h) (db_accounts db))"
    using ws.remove_law [of L "db_ws db" "acct_claim a"] assms(1) wf claims_of_remove [OF wf(3) a(1)]
    by (auto simp: destructor_release same acct_wf_def a(2))
  then show ?thesis
    using assms(2) Some
    by (auto simp: destroy_fn_def db_wf_def distinct_map_filter list_all_iff split: prod.splits)
qed

lemma db_wf_map:
  assumes "db_wf L db" and id: "\<And>a. ident (f a) = ident a"
  shows "db_wf L (db\<lparr>db_accounts := map f (db_accounts db)\<rparr>)"
proof -
  note same = ident_claims [OF id]
  have "handle \<circ> f = handle" "ua \<circ> f = ua" "acct_wf \<circ> f = acct_wf"
    using same by (auto simp: fun_eq_iff)
  then show ?thesis using assms(1) claims_of_same [of "db_accounts db" f L] id
    by (simp add: db_wf_def list.pred_map)
qed

lemma input_keeps:
  assumes "db_wf L db" and "i \<noteq> In_Destroy"
  shows "db_wf L (fst (acct_apply h (acct_input L G E i) db))"
  unfolding acct_apply_def fst_conv
  by (rule db_wf_map [OF assms(1)]) (simp add: ident_input [OF assms(2)])

interpretation api: invariant_machine "api_step L G" "api_ok L G" "\<lambda>db. libre_laws L \<and> db_wf L db" for L G
proof
  fix db i
  assume "libre_laws L \<and> db_wf L db" and "api_ok L G i db"
  then show "libre_laws L \<and> db_wf L (fst (api_step L G i db))"
    by (cases i) (simp_all add: create_keeps destroy_keeps input_keeps del: api_ok.simps(1))
qed

lemma db_init_wf: "db_wf L acct_db_init"
  using ws_init_wf by (simp add: db_wf_def acct_db_init_def)

lemma find_by_ua_unique:
  "distinct (map ua as) \<Longrightarrow> a \<in> set as \<Longrightarrow> ua a = Some u \<Longrightarrow> find (\<lambda>x. ua x = Some u) as = Some a"
proof (induction as)
  case (Cons b as)
  show ?case
  proof (cases "b = a")
    case False
    with Cons.prems have m: "a \<in> set as" by simp
    then have "ua b \<noteq> ua a" using Cons.prems(1) by (auto simp: image_iff)
    then show ?thesis using Cons.IH [OF _ m] Cons.prems by simp
  qed (use Cons.prems in simp)
qed simp

section \<open>Properties\<close>



definition wss_cfg :: "string \<Rightarrow> acct_cfg" where
  "wss_cfg url = acct_cfg_zero\<lparr>ac_uri := Some ''al@io'', ac_server_url := Some url\<rparr>"

definition create_env0 :: "nat \<Rightarrow> create_env" where
  "create_env0 n = \<lparr>mem_ok = True, dup_ok = (\<lambda>_. True), new_handle = n, ua_alloc = (\<lambda>_. Inr n)\<rparr>"

definition two_servers_run :: "api_in list" where
  "two_servers_run = [Api_Create (create_env0 1) (wss_cfg ''wss://a.io''),
     Api_Create (create_env0 2) (wss_cfg ''wss://b.io''),
     Api_Input 2 env0 In_Register, Api_Destroy 1]"


text \<open>
  C38: A failed creation leaves nothing behind. Whatever makes \<open>create_fn\<close> fail (no memory for
  the object, no memory for its URI, a user agent that cannot be allocated), the list of
  accounts is the old one and the WebSocket servers pinned are the old ones, although the
  claim was already entered when the user agent failed.
\<close>

theorem failed_create_leaves_nothing:
  assumes "libre_laws L" and "db_wf L db" and "api_ok L G (Api_Create e cfg) db"
    and "create_fn L G e cfg db = (Inl err, db', es)"
  shows "db_accounts db' = db_accounts db \<and> g_vox_ws_server (db_ws db') = g_vox_ws_server (db_ws db) \<and>
    g_vox_ws_path (db_ws db') = g_vox_ws_path (db_ws db)"
proof -
  have acc: "db_accounts db' = db_accounts db"
    using assms(4) by (auto simp: create_fn_def Let_def split: if_splits option.splits sum.splits)
  have "db_wf L db'" using create_keeps [OF assms(1-3)] assms(4) by simp
  with assms(2) acc show ?thesis by (metis db_wf_def ws_wf_def pin_rel_unique)
qed

definition failing_env :: create_env where
  "failing_env = (create_env0 3)\<lparr>ua_alloc := (\<lambda>_. Inl EINVAL)\<rparr>"

definition one_account_db :: acct_db where
  "one_account_db = fst (api_step libre_ref cfg0 (Api_Create (create_env0 1) (wss_cfg ''wss://a.io'')) acct_db_init)"

theorem failed_create_leaves_nothing_witness:
  "fst (create_fn libre_ref cfg0 failing_env (wss_cfg ''wss://b.io'') one_account_db) = Inl (Create_errno EINVAL) \<and>
   g_vox_ws_server (db_ws (fst (snd (create_fn libre_ref cfg0 failing_env (wss_cfg ''wss://b.io'') one_account_db))))
     = ''wss://a.io:443''"
proof -
  let ?cfg = "wss_cfg ''wss://b.io''"
  have "legal_run (api_step libre_ref cfg0) (api_ok libre_ref cfg0)
      [Api_Create (create_env0 1) (wss_cfg ''wss://a.io'')] acct_db_init" by code_simp
  from api.run_inv [OF _ this] libre_ref_laws db_init_wf have wf: "db_wf libre_ref one_account_db"
    by (simp add: one_account_db_def del: api_step.simps)
  have ok: "api_ok libre_ref cfg0 (Api_Create failing_env ?cfg) one_account_db" by code_simp
  have f: "fst (create_fn libre_ref cfg0 failing_env ?cfg one_account_db) = Inl (Create_errno EINVAL)" by code_simp
  have s: "g_vox_ws_server (db_ws one_account_db) = ''wss://a.io:443''" by code_simp
  obtain db' es where c: "create_fn libre_ref cfg0 failing_env ?cfg one_account_db = (Inl (Create_errno EINVAL), db', es)"
    using f by (metis prod.collapse)
  from failed_create_leaves_nothing [OF libre_ref_laws wf ok c] show ?thesis by (simp add: c s)
qed

text \<open>
  C40: An IPv6 account without a server URL gets a broken outbound proxy. The URL that
  \<open>create_fn\<close> makes up for the account writes the host without brackets, and the outbound
  builder that reads it back cuts the host at its first colon: registration for
  \<open>a@[2001::1]\<close> goes to the host \<open>2001\<close>.
\<close>

definition v6_cfg :: acct_cfg where
  "v6_cfg = acct_cfg_zero\<lparr>ac_uri := Some ''a@[2001::1]''\<rparr>"

theorem ipv6_account_outbound_cut:
  "map_option (\<lambda>(a, _). (parsed_host a, acct_outbound libre_ref voxsdk_config_init a)) (create_account libre_ref (create_env0 1) v6_cfg ws_reg_init)
   = Some (''2001::1'', Some ''sip:2001:5060;transport=udp'')"
  by code_simp

end
