(* ===== verification/Vox_Event_Queue.thy ===== *)
theory Vox_Event_Queue
  imports Vox_Types "HOL-Library.Multiset"
begin

text \<open>
  The event queue between the re_main thread and the application: \<^verbatim>\<open>src/event.c\<close> (posting,
  the event thread, the owned clones, release and shutdown), the hand-rolled posts of
  \<^verbatim>\<open>src/log.c\<close> and \<^verbatim>\<open>src/trace.c\<close>, and the handler swap of \<^verbatim>\<open>src/core.c\<close>.

  Each step below is what one thread does while it holds the queue's lock, or between giving
  it up and taking it back; a run is an interleaving of steps. The strings of a queued event
  are pointers, so that a copy that still points into the original's buffer can be told from
  one that does not.
\<close>

section \<open>Queued events\<close>

text \<open>A \<open>const char *\<close>: NULL, an offset into the inline buffer of a queued event, or a string
  that lives elsewhere.\<close>

datatype sptr = P_null | P_buf nat nat | P_ext nat

definition QEV_BUF :: nat where "QEV_BUF = 4096"

record qevent =
  q_id :: nat
  q_ev :: "sptr event"
  q_buf :: string
  q_deref :: "call_id option"

text \<open>The text a pointer shows, given the events in memory and the strings outside them.\<close>

definition c_string :: "string \<Rightarrow> string" where
  "c_string s = takeWhile (\<lambda>c. c \<noteq> CHR 0x00) s"

fun ptr_text :: "(nat \<Rightarrow> string) \<Rightarrow> qevent list \<Rightarrow> sptr \<Rightarrow> cptr" where
  "ptr_text ext qs P_null = None"
| "ptr_text ext qs (P_ext k) = Some (ext k)"
| "ptr_text ext qs (P_buf i off) = map_option (\<lambda>q. c_string (drop off (q_buf q))) (find (\<lambda>q. q_id q = i) qs)"

section \<open>Cloning\<close>

definition rb :: "qevent \<Rightarrow> nat \<Rightarrow> sptr \<Rightarrow> sptr" where
  "rb old n p = (case p of P_buf i off \<Rightarrow> if i = q_id old \<and> off < QEV_BUF then P_buf n off else p | _ \<Rightarrow> p)"

text \<open>The \<open>switch\<close> of \<open>qev_clone\<close>: every string of the active member is rebased, but for the
  two SDP texts, which live in the call wrapper.\<close>

fun rebase_event :: "(sptr \<Rightarrow> sptr) \<Rightarrow> sptr event \<Rightarrow> sptr event" where
  "rebase_event f (EV_LOG message) = EV_LOG (f message)"
| "rebase_event f (EV_REG_STATE r) =
     EV_REG_STATE (RegEv (reg_account r) (reg_st r) (reg_err r) (reg_retry_attempt r) (reg_retry_delay_ms r) (f (reg_str r)))"
| "rebase_event f (EV_INCOMING_CALL a c from_uri display_name) = EV_INCOMING_CALL a c (f from_uri) (f display_name)"
| "rebase_event f (EV_CALL_STATE a c st err reason) = EV_CALL_STATE a c st err (f reason)"
| "rebase_event f (EV_SDP_NEGOTIATION c local remote codec crypto) =
     EV_SDP_NEGOTIATION c local remote (f codec) (f crypto)"
| "rebase_event f (EV_SIP_TRACE dir transport remote raw ts) = EV_SIP_TRACE dir (f transport) (f remote) (f raw) ts"
| "rebase_event f (EV_MEDIA_STATS c codec_name) = EV_MEDIA_STATS c (f codec_name)"
| "rebase_event f (EV_REGISTRAR_WARNING message) = EV_REGISTRAR_WARNING (f message)"
| "rebase_event f (EV_TRANSFER_REQUEST a c refer_to b1 b2) = EV_TRANSFER_REQUEST a c (f refer_to) b1 b2"
| "rebase_event f (EV_TRANSFER_FAILED a c reason) = EV_TRANSFER_FAILED a c (f reason)"
| "rebase_event f (EV_MWI a b n1 n2 n3 n4 raw_body) = EV_MWI a b n1 n2 n3 n4 (f raw_body)"
| "rebase_event f (EV_MESSAGE a from_uri body content_type) = EV_MESSAGE a (f from_uri) (f body) (f content_type)"
| "rebase_event f (EV_PRESENCE_STATE a target st) = EV_PRESENCE_STATE a (f target) st"
| "rebase_event f (EV_QUALITY_ALERT c i v t b) = EV_QUALITY_ALERT c i v t b"
| "rebase_event f (EV_CALL_DTMF c d) = EV_CALL_DTMF c d"
| "rebase_event f (EV_NETWORK e c a local_addr n1 n2 n3 b err) = EV_NETWORK e c a (f local_addr) n1 n2 n3 b err"

fun sdp_call :: "'s event \<Rightarrow> call_id option" where
  "sdp_call (EV_SDP_NEGOTIATION c _ _ _ _) = c"
| "sdp_call _ = None"

text \<open>
  The clone at address \<open>n\<close>, the original (whose reference moved to the clone), and the call
  the clone took a reference on itself.
\<close>

definition qev_clone :: "nat \<Rightarrow> qevent \<Rightarrow> qevent \<times> qevent \<times> call_id option" where
  "qev_clone n old =
     (let ev = rebase_event (rb old n) (q_ev old);
          extra = (if q_deref old = None then sdp_call ev else None);
          own = \<lparr>q_id = n, q_ev = ev, q_buf = q_buf old,
                 q_deref = (if q_deref old = None then sdp_call ev else q_deref old)\<rparr>
      in (own, old\<lparr>q_deref := None\<rparr>, extra))"

section \<open>The queue\<close>

text \<open>The three fields a delivery snapshots: callback (\<open>None\<close> for NULL), user data, ownership.\<close>

type_synonym ev_handler = "nat option \<times> nat \<times> bool"

text \<open>
  The queue with its length counter, the delivery under way with its snapshot, the clones the
  application holds, and the references to call wrappers that events own. \<open>ev_delivering\<close> is
  that a delivery is under way.
\<close>

record evq =
  ev_queue :: "qevent list"
  ev_queue_len :: u64
  ev_queue_max :: u64
  ev_shutdown :: bool
  ev_exited :: bool
  ev_cb :: ev_handler
  ev_inflight :: "(qevent \<times> ev_handler) option"
  ev_owned :: "qevent list"
  ev_refs :: "call_id multiset"

datatype ev_eff =
    Queued nat
  | Dropped nat
  | Taken nat
  | Deliver ev_handler qevent
  | CallDeref call_id

definition own_ref :: "qevent \<Rightarrow> call_id multiset" where
  "own_ref q = (case q_deref q of None \<Rightarrow> {#} | Some c \<Rightarrow> {#c#})"

text \<open>\<open>mem_deref\<close> of a queued event, which runs its destructor.\<close>

definition qev_destructor :: "qevent \<Rightarrow> (evq, ev_eff) act" where
  "qev_destructor q s =
     (case q_deref q of
        None \<Rightarrow> (s, [])
      | Some c \<Rightarrow> (s\<lparr>ev_refs := ev_refs s - {#c#}\<rparr>, [CallDeref c]))"

definition ev_append :: "qevent \<Rightarrow> evq \<Rightarrow> evq" where
  "ev_append q s = s\<lparr>ev_queue := ev_queue s @ [q], ev_queue_len := ev_queue_len s + 1\<rparr>"

definition vox_event_post_qev :: "qevent \<Rightarrow> evq \<Rightarrow> bool \<times> evq \<times> ev_eff list" where
  "vox_event_post_qev q s =
     (if ev_queue_max s \<le> ev_queue_len s then
        (case qev_destructor q s of (s', es) \<Rightarrow> (False, s', es @ [Dropped (q_id q)]))
      else (True, ev_append q s, [Queued (q_id q)]))"

text \<open>The same bookkeeping by hand, in \<open>queue_log_event\<close> and \<open>sip_trace_handler\<close>.\<close>

definition queue_post_silent :: "qevent \<Rightarrow> (evq, ev_eff) act" where
  "queue_post_silent q s =
     (if ev_queue_max s \<le> ev_queue_len s then
        (case qev_destructor q s of (s', es) \<Rightarrow> (s', es @ [Dropped (q_id q)]))
      else (ev_append q s, [Queued (q_id q)]))"

text \<open>A producer posts: the reference the event carries is the event's from here on.\<close>

definition ev_post :: "(qevent \<Rightarrow> (evq, ev_eff) act) \<Rightarrow> qevent \<Rightarrow> (evq, ev_eff) act" where
  "ev_post post q s = post q (s\<lparr>ev_refs := ev_refs s + own_ref q\<rparr>)"

section \<open>The event thread\<close>

text \<open>Under the lock: take the head, snapshot the handler.\<close>

definition event_take :: "(evq, ev_eff) act" where
  "event_take s =
     (case ev_queue s of
        [] \<Rightarrow> (s, [])
      | q # qs \<Rightarrow>
          (s\<lparr>ev_queue := qs, ev_queue_len := ev_queue_len s - 1, ev_inflight := Some (q, ev_cb s)\<rparr>,
           [Taken (q_id q)]))"

text \<open>Without it: the callback (\<open>n\<close> is the address of a clone, \<open>None\<close> when there is no memory
  for one), then the event is freed and the delivery is over.\<close>

definition event_deliver :: "nat option \<Rightarrow> (evq, ev_eff) act" where
  "event_deliver n s =
     (case ev_inflight s of
        None \<Rightarrow> (s, [])
      | Some (q, h) \<Rightarrow>
          (let s0 = s\<lparr>ev_inflight := None\<rparr>
           in case h of (cb, ud, owned) \<Rightarrow>
                if cb = None then qev_destructor q s0
                else if owned then
                  (case n of
                     None \<Rightarrow> qev_destructor q s0
                   | Some k \<Rightarrow>
                       (case qev_clone k q of
                          (own, q', extra) \<Rightarrow>
                            andthen (emit (Deliver h own)) (qev_destructor q')
                              (s0\<lparr>ev_owned := ev_owned s0 @ [own],
                                  ev_refs := ev_refs s0 + (case extra of None \<Rightarrow> {#} | Some c \<Rightarrow> {#c#})\<rparr>)))
                else andthen (emit (Deliver h q)) (qev_destructor q) s0))"

text \<open>The thread leaves its loop when the queue is empty and shutdown was asked for.\<close>

definition event_exit :: "evq \<Rightarrow> evq" where
  "event_exit s = (if ev_queue s = [] \<and> ev_inflight s = None \<and> ev_shutdown s then s\<lparr>ev_exited := True\<rparr> else s)"

definition voxsdk_event_release :: "nat \<Rightarrow> (evq, ev_eff) act" where
  "voxsdk_event_release i s =
     (case find (\<lambda>q. q_id q = i) (ev_owned s) of
        None \<Rightarrow> (s, [])
      | Some q \<Rightarrow> qev_destructor q (s\<lparr>ev_owned := remove1 q (ev_owned s)\<rparr>))"

text \<open>The handler swap; from another thread it returns once \<open>swap_returns\<close> holds.\<close>

definition voxsdk_set_event_handler :: "ev_handler \<Rightarrow> evq \<Rightarrow> evq" where
  "voxsdk_set_event_handler h s = s\<lparr>ev_cb := h\<rparr>"

definition swap_returns :: "evq \<Rightarrow> bool" where
  "swap_returns s \<longleftrightarrow> ev_inflight s = None"

text \<open>\<open>vox_event_close\<close>: the request, and after the join the rest of the queue is freed.\<close>

definition event_close_signal :: "evq \<Rightarrow> evq" where
  "event_close_signal s = s\<lparr>ev_shutdown := True\<rparr>"

fun free_all :: "qevent list \<Rightarrow> (evq, ev_eff) act" where
  "free_all [] = skip"
| "free_all (q # qs) = andthen (qev_destructor q) (free_all qs)"

definition event_close_free :: "(evq, ev_eff) act" where
  "event_close_free s = free_all (ev_queue s) (s\<lparr>ev_queue := [], ev_queue_len := 0\<rparr>)"


definition VOXSDK_EV_QUEUE_MAX :: u64 where "VOXSDK_EV_QUEUE_MAX = 4096"

definition evq_init :: "ev_handler \<Rightarrow> evq" where
  "evq_init h = \<lparr>ev_queue = [], ev_queue_len = 0, ev_queue_max = VOXSDK_EV_QUEUE_MAX, ev_shutdown = False,
     ev_exited = False, ev_cb = h, ev_inflight = None, ev_owned = [], ev_refs = {#}\<rparr>"

section \<open>The machine\<close>

datatype evq_in =
    Q_Post qevent | Q_Silent qevent | Q_Take | Q_Deliver "nat option" | Q_Exit
  | Q_Release nat | Q_Swap ev_handler | Q_Shutdown | Q_Free

fun evq_step :: "evq_in \<Rightarrow> (evq, ev_eff) act" where
  "evq_step (Q_Post q) s = ev_post (\<lambda>q s. snd (vox_event_post_qev q s)) q s"
| "evq_step (Q_Silent q) s = ev_post queue_post_silent q s"
| "evq_step Q_Take s = (if ev_inflight s = None \<and> \<not> ev_exited s then event_take s else (s, []))"
| "evq_step (Q_Deliver n) s = event_deliver n s"
| "evq_step Q_Exit s = (event_exit s, [])"
| "evq_step (Q_Release i) s = voxsdk_event_release i s"
| "evq_step (Q_Swap h) s = (voxsdk_set_event_handler h s, [])"
| "evq_step Q_Shutdown s = (event_close_signal s, [])"
| "evq_step Q_Free s = (if ev_exited s then event_close_free s else (s, []))"

section \<open>Counter and references\<close>

definition refs_of :: "evq \<Rightarrow> call_id multiset" where
  "refs_of s = sum_list (map own_ref (ev_queue s))
     + (case ev_inflight s of None \<Rightarrow> {#} | Some (q, _) \<Rightarrow> own_ref q)
     + sum_list (map own_ref (ev_owned s))"

definition evq_wf :: "evq \<Rightarrow> bool" where
  "evq_wf s \<longleftrightarrow> unat (ev_queue_len s) = length (ev_queue s) \<and> ev_queue_len s \<le> ev_queue_max s \<and>
     ev_refs s = refs_of s"

lemma own_ref_none [simp]: "own_ref (q\<lparr>q_deref := None\<rparr>) = {#}"
  by (simp add: own_ref_def)

lemma destructor_simps [simp]:
  "fst (qev_destructor q s) = s\<lparr>ev_refs := ev_refs s - own_ref q\<rparr>"
  "snd (qev_destructor q s) = map CallDeref (case q_deref q of None \<Rightarrow> [] | Some c \<Rightarrow> [c])"
  by (simp_all add: qev_destructor_def own_ref_def split: option.splits)

lemma clone_refs:
  assumes "qev_clone n q = (own, q', extra)"
  shows "own_ref q' = {#}" and "own_ref own = own_ref q + (case extra of None \<Rightarrow> {#} | Some c \<Rightarrow> {#c#})"
  using assms by (auto simp: qev_clone_def Let_def own_ref_def split: option.splits)

lemma free_all_refs: "fst (free_all qs s) = s\<lparr>ev_refs := ev_refs s - sum_list (map own_ref qs)\<rparr>"
  by (induction qs arbitrary: s) (simp_all add: skip_def)

lemma len_incr:
  assumes "(n :: u64) < m"
  shows "unat (n + 1) = Suc (unat n)" and "n + 1 \<le> m"
proof -
  have "unat n < unat m" using assms by (simp add: word_less_nat_alt)
  moreover have "unat m < 2 ^ 64" using unsigned_less [of m, where ?'a = nat] by simp
  ultimately show u: "unat (n + 1) = Suc (unat n)" by (simp add: unat_word_ariths(1))
  show "n + 1 \<le> m" using assms u by (simp add: word_less_nat_alt word_le_nat_alt)
qed

lemma len_decr:
  assumes "unat (n :: u64) = Suc k"
  shows "unat (n - 1) = k" and "n - 1 \<le> n"
proof -
  have "n \<noteq> 0" using assms by auto
  then show u: "unat (n - 1) = k" using assms by (simp add: unat_minus_one)
  show "n - 1 \<le> n" using assms u by (simp add: word_le_nat_alt)
qed


lemma post_keeps:
  assumes "evq_wf s"
  shows "evq_wf (fst (evq_step (Q_Post q) s))" and "evq_wf (fst (evq_step (Q_Silent q) s))"
proof -
  have "evq_wf (fst (queue_post_silent q (s\<lparr>ev_refs := ev_refs s + own_ref q\<rparr>)))"
  proof (cases "ev_queue_max s \<le> ev_queue_len s")
    case True
    then show ?thesis using assms by (auto simp: queue_post_silent_def case_prod_beta evq_wf_def refs_of_def)
  next
    case False
    then have lt: "ev_queue_len s < ev_queue_max s" by simp
    show ?thesis using False assms len_incr [OF lt]
      by (simp add: queue_post_silent_def ev_append_def evq_wf_def refs_of_def)
  qed
  moreover have "snd (vox_event_post_qev q x) = queue_post_silent q x" for x
    by (simp add: vox_event_post_qev_def queue_post_silent_def case_prod_beta)
  ultimately show "evq_wf (fst (evq_step (Q_Post q) s))" "evq_wf (fst (evq_step (Q_Silent q) s))"
    by (simp_all add: ev_post_def)
qed

lemma take_keeps: "evq_wf s \<Longrightarrow> evq_wf (fst (evq_step Q_Take s))"
proof (cases "ev_queue s")
  case (Cons q qs)
  assume wf: "evq_wf s"
  then have "unat (ev_queue_len s) = Suc (length qs)" using Cons by (simp add: evq_wf_def)
  note d = len_decr [OF this]
  show ?thesis using wf Cons d order_trans [OF d(2)]
    by (auto simp: event_take_def evq_wf_def refs_of_def add.commute)
qed (simp add: event_take_def)

lemma deliver_keeps:
  assumes "evq_wf s"
  shows "evq_wf (fst (event_deliver n s))"
proof (cases "ev_inflight s")
  case (Some x)
  then obtain q cb ud ow where x: "ev_inflight s = Some (q, (cb, ud, ow))" by (cases x) auto
  show ?thesis
  proof (cases "cb = None \<or> \<not> ow \<or> n = None")
    case True
    then show ?thesis using assms x
      by (auto simp: event_deliver_def evq_wf_def refs_of_def Let_def split: option.splits)
  next
    case False
    then obtain k where k: "n = Some k" by auto
    obtain own q' ex where c: "qev_clone k q = (own, q', ex)" by (metis prod_cases3)
    show ?thesis using assms x False k c clone_refs [OF c]
      by (simp add: event_deliver_def evq_wf_def refs_of_def Let_def ac_simps)
  qed
qed (use assms in \<open>simp add: event_deliver_def\<close>)

lemma release_keeps:
  assumes "evq_wf s"
  shows "evq_wf (fst (voxsdk_event_release i s))"
proof (cases "find (\<lambda>q. q_id q = i) (ev_owned s)")
  case (Some q)
  then have "q \<in> set (ev_owned s)" by (auto simp: find_Some_iff)
  then have "sum_list (map own_ref (ev_owned s)) = own_ref q + sum_list (map own_ref (remove1 q (ev_owned s)))"
    by (rule sum_list_map_remove1)
  then show ?thesis using assms Some by (simp add: voxsdk_event_release_def evq_wf_def refs_of_def ac_simps)
qed (use assms in \<open>simp add: voxsdk_event_release_def\<close>)

lemma free_keeps: "evq_wf s \<Longrightarrow> evq_wf (fst (evq_step Q_Free s))"
  by (simp add: event_close_free_def free_all_refs evq_wf_def refs_of_def)

interpretation evq: invariant_machine evq_step "\<lambda>_ _. True" evq_wf
proof
  fix s i
  assume "evq_wf s"
  then show "evq_wf (fst (evq_step i s))"
    using post_keeps take_keeps free_keeps
    by (cases i) (simp_all del: evq_step.simps(1,2,3,9)
        add: deliver_keeps release_keeps,
      simp_all add: evq_wf_def refs_of_def event_exit_def voxsdk_set_event_handler_def event_close_signal_def)
qed

lemma evq_init_wf: "evq_wf (evq_init h)"
  by (simp add: evq_wf_def evq_init_def refs_of_def VOXSDK_EV_QUEUE_MAX_def)


section \<open>First in, first out\<close>

text \<open>
  The contract of a queue that is seen through a trace: \<open>ins\<close> and \<open>outs\<close> read from the effects
  what went in and what came out, \<open>items\<close> is what is inside.
\<close>

locale fifo_machine =
  fixes step :: "'i \<Rightarrow> ('s, 'e) act"
    and ok :: "'i \<Rightarrow> 's \<Rightarrow> bool"
    and items :: "'s \<Rightarrow> 'a list"
    and ins :: "'e list \<Rightarrow> 'a list"
    and outs :: "'e list \<Rightarrow> 'a list"
  assumes ins_hom: "ins [] = []" "ins (es @ es') = ins es @ ins es'"
    and outs_hom: "outs [] = []" "outs (es @ es') = outs es @ outs es'"
    and step_fifo: "ok i s \<Longrightarrow> items s @ ins (snd (step i s)) = outs (snd (step i s)) @ items (fst (step i s))"
begin

lemma run_fifo:
  "legal_run step ok is s \<Longrightarrow>
   items s @ ins (snd (run_acts step is s)) = outs (snd (run_acts step is s)) @ items (fst (run_acts step is s))"
proof (induction "is" arbitrary: s)
  case Nil
  then show ?case by (simp add: ins_hom outs_hom)
next
  case (Cons i "is")
  then show ?case
    using step_fifo [of i s] Cons.IH [of "fst (step i s)"]
    by (simp add: ins_hom outs_hom) (metis append.assoc)
qed

end

fun queued_ids :: "ev_eff list \<Rightarrow> nat list" where
  "queued_ids [] = []"
| "queued_ids (Queued i # es) = i # queued_ids es"
| "queued_ids (_ # es) = queued_ids es"

fun taken_ids :: "ev_eff list \<Rightarrow> nat list" where
  "taken_ids [] = []"
| "taken_ids (Taken i # es) = i # taken_ids es"
| "taken_ids (_ # es) = taken_ids es"

lemma queued_ids_append [simp]: "queued_ids (es @ es') = queued_ids es @ queued_ids es'"
  by (induction es rule: queued_ids.induct) simp_all

lemma taken_ids_append [simp]: "taken_ids (es @ es') = taken_ids es @ taken_ids es'"
  by (induction es rule: taken_ids.induct) simp_all

lemma ids_deref [simp]: "queued_ids (map CallDeref cs) = []" "taken_ids (map CallDeref cs) = []"
  by (induction cs) simp_all

definition not_free :: "evq_in \<Rightarrow> evq \<Rightarrow> bool" where
  "not_free i s \<longleftrightarrow> i \<noteq> Q_Free"

lemma deliver_ids:
  "queued_ids (snd (event_deliver n s)) = []" "taken_ids (snd (event_deliver n s)) = []"
  "ev_queue (fst (event_deliver n s)) = ev_queue s"
  by (auto simp: event_deliver_def Let_def split: option.splits prod.splits)

lemma release_ids:
  "queued_ids (snd (voxsdk_event_release i s)) = []" "taken_ids (snd (voxsdk_event_release i s)) = []"
  "ev_queue (fst (voxsdk_event_release i s)) = ev_queue s"
  by (auto simp: voxsdk_event_release_def split: option.splits)

interpretation fifo: fifo_machine evq_step not_free "\<lambda>s. map q_id (ev_queue s)" queued_ids taken_ids
proof
  fix i s
  assume "not_free i s"
  then show "map q_id (ev_queue s) @ queued_ids (snd (evq_step i s))
      = taken_ids (snd (evq_step i s)) @ map q_id (ev_queue (fst (evq_step i s)))"
    by (cases i) (auto simp: not_free_def ev_post_def vox_event_post_qev_def queue_post_silent_def ev_append_def
        case_prod_beta event_take_def deliver_ids release_ids event_exit_def voxsdk_set_event_handler_def
        event_close_signal_def split: list.splits)
qed simp_all

section \<open>The handler a delivery uses\<close>

fun deliver_handlers :: "ev_eff list \<Rightarrow> ev_handler list" where
  "deliver_handlers [] = []"
| "deliver_handlers (Deliver h q # es) = h # deliver_handlers es"
| "deliver_handlers (_ # es) = deliver_handlers es"

lemma handlers_append [simp]: "deliver_handlers (es @ es') = deliver_handlers es @ deliver_handlers es'"
  by (induction es rule: deliver_handlers.induct) simp_all

lemma handlers_deref [simp]: "deliver_handlers (map CallDeref cs) = []"
  by (induction cs) simp_all

fun not_swap :: "evq_in \<Rightarrow> bool" where
  "not_swap (Q_Swap h) = False"
| "not_swap _ = True"

definition uses :: "ev_handler \<Rightarrow> evq \<Rightarrow> bool" where
  "uses h s \<longleftrightarrow> ev_cb s = h \<and> (\<forall>q h'. ev_inflight s = Some (q, h') \<longrightarrow> h' = h)"

lemma free_all_trace: "deliver_handlers (snd (free_all qs s)) = []"
  by (induction qs arbitrary: s) (simp_all add: skip_def)

lemma step_uses:
  assumes "uses h s" and "not_swap i"
  shows "uses h (fst (evq_step i s)) \<and> set (deliver_handlers (snd (evq_step i s))) \<subseteq> {h}"
  using assms
  by (cases i) (auto simp: uses_def ev_post_def vox_event_post_qev_def queue_post_silent_def ev_append_def
      case_prod_beta event_take_def event_deliver_def Let_def voxsdk_event_release_def event_exit_def
      event_close_signal_def event_close_free_def free_all_refs free_all_trace
      split: list.splits option.splits prod.splits if_splits)

lemma run_uses:
  "uses h s \<Longrightarrow> list_all not_swap is \<Longrightarrow> set (deliver_handlers (snd (run_acts evq_step is s))) \<subseteq> {h}"
proof (induction "is" arbitrary: s)
  case (Cons i "is")
  then show ?case using step_uses [of h s i] Cons.IH [of "fst (evq_step i s)"] by simp
qed simp


section \<open>Draining at shutdown\<close>

text \<open>The event thread's own steps for the rest of a queue: take, deliver, over and over, then exit.\<close>

fun drain :: "nat option list \<Rightarrow> evq_in list" where
  "drain [] = [Q_Exit]"
| "drain (n # ns) = Q_Take # Q_Deliver n # drain ns"

lemma deliver_settles:
  "ev_inflight (fst (event_deliver n s)) = None" "ev_shutdown (fst (event_deliver n s)) = ev_shutdown s"
  "ev_exited (fst (event_deliver n s)) = ev_exited s" "ev_cb (fst (event_deliver n s)) = ev_cb s"
  by (auto simp: event_deliver_def Let_def split: option.splits prod.splits)

lemma drain_exits:
  "length ns = length (ev_queue s) \<Longrightarrow> ev_inflight s = None \<Longrightarrow> \<not> ev_exited s \<Longrightarrow> ev_shutdown s \<Longrightarrow>
   ev_exited (fst (run_acts evq_step (drain ns) s)) \<and> ev_queue (fst (run_acts evq_step (drain ns) s)) = [] \<and>
   taken_ids (snd (run_acts evq_step (drain ns) s)) = map q_id (ev_queue s)"
proof (induction ns arbitrary: s)
  case Nil
  then show ?case by (simp add: event_exit_def)
next
  case (Cons n ns)
  then obtain q qs where q: "ev_queue s = q # qs" by (cases "ev_queue s") auto
  let ?t = "fst (event_deliver n (fst (event_take s)))"
  have "ev_queue ?t = qs" "ev_inflight ?t = None" "\<not> ev_exited ?t" "ev_shutdown ?t"
    using Cons.prems q by (simp_all add: deliver_ids deliver_settles event_take_def)
  then show ?case
    using Cons.IH [of ?t] Cons.prems q by (simp add: deliver_ids) (simp add: event_take_def)
qed

section \<open>What a clone shows\<close>

text \<open>
  How the producers fill an event: its pointers are NULL, strings elsewhere, or offsets into
  its own buffer; the SDP texts, which the clone copies as they are, are never in the buffer.
\<close>

fun own_ptr :: "nat \<Rightarrow> sptr \<Rightarrow> bool" where
  "own_ptr i (P_buf j off) = (i = j \<and> off < QEV_BUF)"
| "own_ptr i _ = True"

fun into_buf :: "nat \<Rightarrow> sptr \<Rightarrow> bool" where
  "into_buf i (P_buf j off) = (i = j)"
| "into_buf i _ = False"

fun sdp_texts :: "'s event \<Rightarrow> 's set" where
  "sdp_texts (EV_SDP_NEGOTIATION c local remote codec crypto) = {local, remote}"
| "sdp_texts _ = {}"

definition packed :: "qevent \<Rightarrow> bool" where
  "packed q \<longleftrightarrow> (\<forall>p \<in> set_event (q_ev q). own_ptr (q_id q) p) \<and> (\<forall>p \<in> sdp_texts (q_ev q). \<not> into_buf (q_id q) p)"

lemma rb_outside: "\<not> into_buf (q_id q) p \<Longrightarrow> rb q n p = p"
  by (cases p) (auto simp: rb_def)

lemma map_reg_ev_eq: "map_reg_ev f r =
    RegEv (reg_account r) (reg_st r) (reg_err r) (reg_retry_attempt r) (reg_retry_delay_ms r) (f (reg_str r))"
  by (cases r) simp

lemma rebase_is_map:
  "\<forall>p \<in> sdp_texts ev. f p = p \<Longrightarrow> rebase_event f ev = map_event f ev"
  by (cases ev) (simp_all add: map_reg_ev_eq)

lemma rb_reads:
  "own_ptr (q_id q) p \<Longrightarrow> ptr_text ext [(fst (qev_clone n q))] (rb q n p) = ptr_text ext [q] p"
  by (cases p) (auto simp: rb_def qev_clone_def Let_def)

lemma clone_ev:
  assumes "packed q"
  shows "q_ev (fst (qev_clone n q)) = map_event (rb q n) (q_ev q)"
  using assms rebase_is_map [of "q_ev q" "rb q n"] rb_outside
  by (simp add: qev_clone_def Let_def packed_def)

section \<open>Properties\<close>

text \<open>
  C9: The queue's books balance. After any interleaving of posts (from any thread, the
  silent ones of the log and trace hooks included), deliveries, releases, handler swaps and
  shutdown, the length counter is the length of the queue and within its limit, so the queue
  can neither wedge nor overrun, and the references to call wrappers that events own are
  exactly those of the events still queued, being delivered, or held by the application:
  none is leaked on the drop paths and none is released twice.
\<close>

theorem event_books_balance:
  assumes "s = fst (run_acts evq_step xs (evq_init h))"
  shows "unat (ev_queue_len s) = length (ev_queue s) \<and> ev_queue_len s \<le> ev_queue_max s \<and>
    ev_refs s = sum_list (map own_ref (ev_queue s))
      + (case ev_inflight s of None \<Rightarrow> {#} | Some (q, _) \<Rightarrow> own_ref q) + sum_list (map own_ref (ev_owned s))"
  using evq.run_inv_always [OF TrueI evq_init_wf, of xs h] assms by (simp add: evq_wf_def refs_of_def)

definition ended_ev :: qevent where
  "ended_ev = \<lparr>q_id = 1, q_ev = EV_CALL_STATE None (Some 7) CALL_ENDED VOX_OK (P_buf 1 0), q_buf = ''bye'', q_deref = Some 7\<rparr>"

definition ended_run :: "evq_in list" where
  "ended_run = [Q_Post ended_ev, Q_Post (ended_ev\<lparr>q_id := 2\<rparr>), Q_Take, Q_Swap (None, 0, False), Q_Deliver (Some 3)]"

theorem event_books_balance_witness:
  "ev_refs (fst (run_acts evq_step ended_run (evq_init (Some 0, 0, True)))) = {#7, 7#}"
proof -
  let ?s = "fst (run_acts evq_step ended_run (evq_init (Some 0, 0, True)))"
  have "sum_list (map own_ref (ev_queue ?s)) = {#7#}" "ev_inflight ?s = None"
    "sum_list (map own_ref (ev_owned ?s)) = {#7#}"
    by code_simp+
  then show ?thesis using event_books_balance [OF refl, of ended_run "(Some 0, 0, True)"] by simp
qed

text \<open>
  C11: Events are taken for delivery in the order they were queued, and none that was queued
  is lost before shutdown frees the rest: what was queued, in order, is what the event thread
  took, in order, followed by what is still in the queue.
\<close>

theorem events_in_order:
  assumes "list_all (\<lambda>x. x \<noteq> Q_Free) xs"
  shows "queued_ids (snd (run_acts evq_step xs (evq_init h))) =
    taken_ids (snd (run_acts evq_step xs (evq_init h))) @ map q_id (ev_queue (fst (run_acts evq_step xs (evq_init h))))"
proof -
  have "legal_run evq_step not_free xs s" for s
    using assms by (induction xs arbitrary: s) (simp_all add: not_free_def)
  from fifo.run_fifo [OF this, of "evq_init h"] show ?thesis by (simp add: evq_init_def)
qed

theorem events_in_order_witness:
  "queued_ids (snd (run_acts evq_step ended_run (evq_init (Some 0, 0, True)))) = [1, 2]"
proof -
  have "taken_ids (snd (run_acts evq_step ended_run (evq_init (Some 0, 0, True)))) = [1]"
    "map q_id (ev_queue (fst (run_acts evq_step ended_run (evq_init (Some 0, 0, True))))) = [2]"
    by code_simp+
  moreover have "list_all (\<lambda>x. x \<noteq> Q_Free) ended_run" by (simp add: ended_run_def)
  ultimately show ?thesis using events_in_order [of ended_run] by simp
qed

text \<open>
  C24: An owned clone shows the application the same event as the original, with the original
  freed. For an event filled the way the producers fill it, every text the application reads
  through the clone's pointers is the text of the original, read in a memory that holds only
  the clone, and no pointer of the clone leads into the original's buffer.
\<close>

theorem clone_is_self_contained:
  assumes "packed q" and "n \<noteq> q_id q"
  shows "map_event (ptr_text ext [fst (qev_clone n q)]) (q_ev (fst (qev_clone n q)))
      = map_event (ptr_text ext [q]) (q_ev q) \<and>
    (\<forall>p \<in> set_event (q_ev (fst (qev_clone n q))). \<not> into_buf (q_id q) p)"
proof
  have "own_ptr (q_id q) p \<Longrightarrow> \<not> into_buf (q_id q) (rb q n p)" for p
    using assms(2) by (cases p) (auto simp: rb_def)
  then show "\<forall>p \<in> set_event (q_ev (fst (qev_clone n q))). \<not> into_buf (q_id q) p"
    using assms(1) by (auto simp: clone_ev event.set_map packed_def)
  show "map_event (ptr_text ext [fst (qev_clone n q)]) (q_ev (fst (qev_clone n q))) = map_event (ptr_text ext [q]) (q_ev q)"
    unfolding clone_ev [OF assms(1)] event.map_comp
    using assms(1) by (intro event.map_cong refl) (simp add: packed_def rb_reads)
qed

theorem clone_is_self_contained_witness:
  "map_event (ptr_text (\<lambda>_. []) [fst (qev_clone 9 ended_ev)]) (q_ev (fst (qev_clone 9 ended_ev)))
     = EV_CALL_STATE None (Some 7) CALL_ENDED VOX_OK (Some ''bye'')"
proof -
  have "packed ended_ev" by (simp add: packed_def ended_ev_def QEV_BUF_def)
  moreover have "map_event (ptr_text (\<lambda>_. []) [ended_ev]) (q_ev ended_ev)
      = EV_CALL_STATE None (Some 7) CALL_ENDED VOX_OK (Some ''bye'')"
    by (simp add: ended_ev_def c_string_def)
  ultimately show ?thesis
    using clone_is_self_contained [of ended_ev 9 "\<lambda>_. []"] by (simp add: ended_ev_def)
qed





end
