(* ===== verification/Vox_Record.thy ===== *)
theory Vox_Record
  imports Vox_Types
begin

text \<open>
  \<^verbatim>\<open>src/record.c\<close>: the WAV recording of a call. The file is the bytes written so far; samples
  are 16-bit words read as signed numbers; numbers go to the file in the little-endian order of
  the platforms the SDK is built for.
\<close>

section \<open>State\<close>

text \<open>The recording fields of \<open>struct voxsdk_call\<close>; \<open>rec_file\<close> is \<open>None\<close> for NULL.\<close>

type_synonym s16 = "16 word"

record rec_st =
  rec_file :: "u8 list option"
  rec_data_bytes :: u32
  rec_srate :: u32
  rec_ch :: u8
  rec_hdr_written :: bool
  rec_active :: bool
  rec_tx_buf :: "s16 list"
  rec_tx_count :: nat

definition REC_FRAME_MAX :: nat where "REC_FRAME_MAX = 4096"

definition rec_zero :: rec_st where
  "rec_zero = \<lparr>rec_file = None, rec_data_bytes = 0, rec_srate = 0, rec_ch = 0, rec_hdr_written = False,
     rec_active = False, rec_tx_buf = replicate REC_FRAME_MAX 0, rec_tx_count = 0\<rparr>"

section \<open>Writing\<close>

definition le16 :: "u16 \<Rightarrow> u8 list" where
  "le16 w = [ucast w, ucast (drop_bit 8 w)]"

definition le32 :: "u32 \<Rightarrow> u8 list" where
  "le32 w = [ucast w, ucast (drop_bit 8 w), ucast (drop_bit 16 w), ucast (drop_bit 24 w)]"

definition tag :: "string \<Rightarrow> u8 list" where
  "tag s = map of_char s"

text \<open>The 44 bytes of the header, in the order of the \<open>fwrite\<close> calls.\<close>

definition wav_header :: "u32 \<Rightarrow> u8 \<Rightarrow> u32 \<Rightarrow> u8 list" where
  "wav_header srate ch data_bytes =
     (let channels = ucast ch :: u16;
          byte_rate = srate * ucast channels * 2 :: u32;
          block_align = channels * 2
      in tag ''RIFF'' @ le32 (36 + data_bytes) @ tag ''WAVE'' @ tag ''fmt '' @ le32 16 @ le16 1 @ le16 channels
         @ le32 srate @ le32 byte_rate @ le16 block_align @ le16 16 @ tag ''data'' @ le32 data_bytes)"

text \<open>Bytes written at a position of a file, as \<open>fwrite\<close> after \<open>rewind\<close> does it.\<close>

definition overwrite :: "u8 list \<Rightarrow> u8 list \<Rightarrow> u8 list" where
  "overwrite bs f = bs @ drop (length bs) f"

definition mix_sample :: "s16 \<Rightarrow> s16 \<Rightarrow> s16" where
  "mix_sample d s =
     (let v = sint d + sint s
      in if 32767 < v then 32767 else if v < - 32768 then - 32768 else of_int v)"

text \<open>\<open>mix_s16\<close> over the first \<open>count\<close> samples.\<close>

fun mix_s16 :: "nat \<Rightarrow> s16 list \<Rightarrow> s16 list \<Rightarrow> s16 list" where
  "mix_s16 (Suc n) (d # ds) (s # ss) = mix_sample d s # mix_s16 n ds ss"
| "mix_s16 _ ds _ = ds"

definition pcm_bytes :: "s16 list \<Rightarrow> u8 list" where
  "pcm_bytes xs = concat (map le16 xs)"

text \<open>
  A frame is \<open>samples\<close> values at \<open>pcm\<close>; the list is what is there.
\<close>

definition vox_record_write_frame :: "media_dir \<Rightarrow> s16 list \<Rightarrow> u32 \<Rightarrow> u8 \<Rightarrow> rec_st \<Rightarrow> rec_st" where
  "vox_record_write_frame dir pcm srate ch r =
     (if \<not> rec_active r then r
      else case rec_file r of
             None \<Rightarrow> r
           | Some f \<Rightarrow>
               (let r1 = (if rec_srate r = 0 then r\<lparr>rec_srate := srate, rec_ch := ch\<rparr> else r)
                in if srate \<noteq> rec_srate r1 \<or> ch \<noteq> rec_ch r1 then r1
                   else if dir = DIR_TX then
                     (let n = min (length pcm) REC_FRAME_MAX
                      in r1\<lparr>rec_tx_count := n, rec_tx_buf := take n pcm @ drop n (rec_tx_buf r1)\<rparr>)
                   else
                     (let f1 = (if rec_hdr_written r1 then f else f @ wav_header (rec_srate r1) (rec_ch r1) 0);
                          mix0 = take REC_FRAME_MAX pcm;
                          n = length mix0;
                          mix = (if rec_tx_count r1 = n then mix_s16 n mix0 (rec_tx_buf r1) else mix0)
                      in r1\<lparr>rec_file := Some (f1 @ pcm_bytes mix), rec_hdr_written := True,
                            rec_data_bytes := rec_data_bytes r1 + of_nat (2 * n)\<rparr>)))"

section \<open>Start and stop\<close>

text \<open>\<open>record_start_fn\<close>: \<open>opened\<close> says whether \<open>fopen\<close> gives a file, with the error number if not.\<close>

definition record_start_fn :: "errno option \<Rightarrow> rec_st \<Rightarrow> errno option \<times> rec_st" where
  "record_start_fn opened r =
     (if rec_active r then (Some EALREADY, r)
      else case opened of
             Some e \<Rightarrow> (Some e, r\<lparr>rec_file := None\<rparr>)
           | None \<Rightarrow>
               (None, r\<lparr>rec_file := Some [], rec_data_bytes := 0, rec_srate := 0, rec_ch := 0,
                        rec_hdr_written := False, rec_tx_count := 0, rec_active := True\<rparr>))"

text \<open>The public call: the outcome of the dispatch is its result.\<close>

definition voxsdk_call_record_start :: "cptr \<Rightarrow> vox_error \<Rightarrow> errno option \<Rightarrow> rec_st \<Rightarrow> vox_error \<times> rec_st" where
  "voxsdk_call_record_start path dispatched opened r =
     (if path = None then (ERR_INVAL, r)
      else if dispatched \<noteq> VOX_OK then (dispatched, r)
      else (VOX_OK, snd (record_start_fn opened r)))"

text \<open>\<open>record_stop_fn\<close>: the closed file, if there was one, and the state.\<close>

definition record_stop_fn :: "rec_st \<Rightarrow> u8 list option \<times> rec_st" where
  "record_stop_fn r =
     (map_option (\<lambda>f. if rec_srate r \<noteq> 0 then overwrite (wav_header (rec_srate r) (rec_ch r) (rec_data_bytes r)) f else f)
        (rec_file r),
      r\<lparr>rec_active := False, rec_file := None\<rparr>)"

section \<open>Reading a WAV file\<close>

text \<open>A reader of the format: sample rate, channels and the samples of the data chunk.\<close>

definition get16 :: "u8 list \<Rightarrow> u16" where
  "get16 bs = ucast (bs ! 0) OR push_bit 8 (ucast (bs ! 1))"

definition get32 :: "u8 list \<Rightarrow> u32" where
  "get32 bs = ucast (bs ! 0) OR push_bit 8 (ucast (bs ! 1)) OR push_bit 16 (ucast (bs ! 2)) OR push_bit 24 (ucast (bs ! 3))"

fun get_samples :: "u8 list \<Rightarrow> s16 list" where
  "get_samples (a # b # bs) = get16 [a, b] # get_samples bs"
| "get_samples _ = []"

definition wav_read :: "u8 list \<Rightarrow> (u32 \<times> u16 \<times> s16 list) option" where
  "wav_read f =
     (if length f < 44 \<or> take 4 f \<noteq> tag ''RIFF'' \<or> take 8 (drop 8 f) \<noteq> tag ''WAVEfmt '' \<or>
         get32 (drop 16 f) \<noteq> 16 \<or> get16 (drop 20 f) \<noteq> 1 \<or> get16 (drop 34 f) \<noteq> 16 \<or> take 4 (drop 36 f) \<noteq> tag ''data'' \<or>
         get32 (drop 4 f) \<noteq> 36 + get32 (drop 40 f)
      then None
      else Some (get32 (drop 24 f), get16 (drop 22 f), get_samples (take (unat (get32 (drop 40 f))) (drop 44 f))))"

section \<open>Lemmas\<close>

lemma get16_le16 [simp]: "get16 (le16 w) = w"
  unfolding get16_def le16_def by (rule bit_word_eqI) (auto simp: bit_simps)

lemma get32_le32 [simp]: "get32 (le32 w) = w"
proof (rule bit_word_eqI)
  fix n
  assume "n < LENGTH(32)"
  then consider "n < 8" | "8 \<le> n" "n < 16" | "16 \<le> n" "n < 24" | "24 \<le> n" "n < 32" by fastforce
  then show "bit (get32 (le32 w)) n = bit w n"
    by cases (auto simp: get32_def le32_def bit_simps)
qed

lemma lengths [simp]: "length (le16 v) = 2" "length (le32 w) = 4" "length (tag t) = length t"
  by (simp_all add: le16_def le32_def tag_def)

lemma length_wav_header [simp]: "length (wav_header sr ch n) = 44"
  by (simp add: wav_header_def Let_def)

lemma get_prefix [simp]: "get16 (le16 v @ bs) = v" "get32 (le32 w @ bs) = w"
  using get16_le16 [of v] get32_le32 [of w]
  by (simp_all add: get16_def get32_def le16_def le32_def nth_append numeral_eq_Suc)

text \<open>Reading a file that starts with the header gives its fields and its samples.\<close>

lemma wav_read_header:
  "wav_read (wav_header sr ch n @ bs) = Some (sr, ucast ch, get_samples (take (unat n) bs))"
  by (simp add: wav_read_def wav_header_def Let_def tag_def)

lemma get_samples_pcm [simp]: "get_samples (pcm_bytes xs) = xs"
proof (induction xs)
  case (Cons x xs)
  have "get16 [ucast x, ucast (drop_bit 8 x)] = x" using get16_le16 [of x] by (simp add: le16_def)
  then show ?case using Cons by (simp add: pcm_bytes_def le16_def)
qed (simp add: pcm_bytes_def)

lemma length_pcm_bytes [simp]: "length (pcm_bytes xs) = 2 * length xs"
  by (induction xs) (simp_all add: pcm_bytes_def)

lemma pcm_bytes_Nil [simp]: "pcm_bytes [] = []"
  by (simp add: pcm_bytes_def)

lemma pcm_bytes_append: "pcm_bytes (xs @ ys) = pcm_bytes xs @ pcm_bytes ys"
  by (simp add: pcm_bytes_def)

text \<open>Mixing is the sum, saturated.\<close>

definition clip_sum :: "int \<Rightarrow> int \<Rightarrow> int" where
  "clip_sum a b = max (- 32768) (min 32767 (a + b))"

lemma sint_range: "- 32768 \<le> sint (x :: s16)" "sint (x :: s16) \<le> 32767"
  using sint_ge [of x] sint_lt [of x] by simp_all

lemma sint_of_int16: "- 32768 \<le> v \<Longrightarrow> v \<le> 32767 \<Longrightarrow> sint (of_int v :: s16) = v"
  by (simp add: signed_of_int signed_take_bit_int_eq_self)

lemma sint_mix_sample: "sint (mix_sample d s) = clip_sum (sint d) (sint s)"
  using sint_of_int16 [of "sint d + sint s"]
  by (auto simp: mix_sample_def clip_sum_def Let_def simp del: of_int_add)

lemma mix_s16_sint:
  "length ds = n \<Longrightarrow> n \<le> length ss \<Longrightarrow> map sint (mix_s16 n ds ss) = map2 clip_sum (map sint ds) (map sint (take n ss))"
proof (induction n ds ss rule: mix_s16.induct)
  case (1 n d ds s ss)
  then show ?case by (simp add: sint_mix_sample)
qed simp_all

lemma length_mix_s16 [simp]: "length (mix_s16 n ds ss) = length ds"
  by (induction n ds ss rule: mix_s16.induct) simp_all


section \<open>A recording, from start to stop\<close>

type_synonym frame = "media_dir \<times> s16 list \<times> u32 \<times> u8"

definition write_frame :: "frame \<Rightarrow> rec_st \<Rightarrow> rec_st" where
  "write_frame x = (case x of (dir, pcm, srate, ch) \<Rightarrow> vox_record_write_frame dir pcm srate ch)"

text \<open>
  What should be on the record: the format is the first frame's, frames of another format are
  left out, each received frame is added, saturated, to the last sent frame when the lengths
  agree.
\<close>

fun on_record :: "u32 \<times> u8 \<Rightarrow> int list \<Rightarrow> frame list \<Rightarrow> int list" where
  "on_record fmt tx [] = []"
| "on_record fmt tx ((dir, pcm, srate, ch) # fs) =
     (if (srate, ch) \<noteq> fmt then on_record fmt tx fs
      else
        (let p = map sint (take REC_FRAME_MAX pcm)
         in if dir = DIR_TX then on_record fmt p fs
            else (if length tx = length p then map2 clip_sum p tx else p) @ on_record fmt tx fs))"

definition frame_fmt :: "frame \<Rightarrow> u32 \<times> u8" where
  "frame_fmt x = (case x of (_, _, srate, ch) \<Rightarrow> (srate, ch))"

text \<open>The state of a running recording that has \<open>xs\<close> in its file.\<close>

definition recording :: "u32 \<times> u8 \<Rightarrow> int list \<Rightarrow> s16 list \<Rightarrow> rec_st \<Rightarrow> bool" where
  "recording fmt tx xs r \<longleftrightarrow> rec_active r \<and> length (rec_tx_buf r) = REC_FRAME_MAX \<and> rec_tx_count r \<le> REC_FRAME_MAX \<and>
     map sint (take (rec_tx_count r) (rec_tx_buf r)) = tx \<and> (rec_srate r, rec_ch r) = fmt \<and>
     rec_data_bytes r = of_nat (2 * length xs) \<and>
     (if rec_hdr_written r then \<exists>h. length h = 44 \<and> rec_file r = Some (h @ pcm_bytes xs) else xs = [] \<and> rec_file r = Some [])"

lemma recording_step:
  assumes "recording fmt tx xs r" and "fst fmt \<noteq> 0"
  shows "\<exists>ys tx'. recording fmt tx' (xs @ ys) (write_frame x r) \<and>
    on_record fmt tx (x # fs) = map sint ys @ on_record fmt tx' fs"
proof -
  obtain dir pcm sr ch where x: "x = (dir, pcm, sr, ch)" by (metis prod_cases4)
  have fmt: "fmt = (rec_srate r, rec_ch r)" "rec_srate r \<noteq> 0" using assms by (auto simp: recording_def)
  obtain f where f: "rec_file r = Some f" using assms(1) by (auto simp: recording_def split: if_splits)
  consider (skip) "(sr, ch) \<noteq> fmt" | (tx) "(sr, ch) = fmt" "dir = DIR_TX" | (rx) "(sr, ch) = fmt" "dir = DIR_RX"
    by (cases dir) auto
  then show ?thesis
  proof cases
    case skip
    then have "write_frame x r = r"
      using fmt f by (simp add: x write_frame_def vox_record_write_frame_def)
    then show ?thesis using skip assms(1) by (intro exI [of _ "[]"] exI [of _ tx]) (simp add: x)
  next
    case tx
    let ?n = "min (length pcm) REC_FRAME_MAX"
    have "write_frame x r = r\<lparr>rec_tx_count := ?n, rec_tx_buf := take ?n pcm @ drop ?n (rec_tx_buf r)\<rparr>"
      using tx fmt f assms(1) by (simp add: x write_frame_def vox_record_write_frame_def recording_def Let_def)
    then have "recording fmt (map sint (take REC_FRAME_MAX pcm)) xs (write_frame x r)"
      using assms(1) by (auto simp: recording_def min_def)
    then show ?thesis using tx by (intro exI [of _ "[]"] exI) (auto simp: x)
  next
    case rx
    let ?p = "take REC_FRAME_MAX pcm"
    let ?m = "if rec_tx_count r = length ?p then mix_s16 (length ?p) ?p (rec_tx_buf r) else ?p"
    let ?f = "if rec_hdr_written r then f else f @ wav_header (rec_srate r) (rec_ch r) 0"
    have w: "write_frame x r = r\<lparr>rec_file := Some (?f @ pcm_bytes ?m), rec_hdr_written := True,
        rec_data_bytes := rec_data_bytes r + of_nat (2 * length ?p)\<rparr>"
      using rx fmt f assms(1) by (simp add: x write_frame_def vox_record_write_frame_def recording_def Let_def)
    have len: "length ?m = length ?p" by simp
    have "recording fmt tx (xs @ ?m) (write_frame x r)"
      unfolding w using assms(1) f len
      by (auto simp: recording_def pcm_bytes_append split: if_splits)
    moreover have "map sint ?m = (if length tx = length ?p then map2 clip_sum (map sint ?p) tx else map sint ?p)"
      using assms(1) mix_s16_sint [of ?p "length ?p" "rec_tx_buf r"] by (auto simp: recording_def)
    ultimately show ?thesis using rx
      by (intro exI [of _ ?m] exI [of _ tx] conjI) (assumption, cases fmt, simp add: x Let_def)
  qed
qed


lemma recording_run:
  "recording fmt tx xs r \<Longrightarrow> fst fmt \<noteq> 0 \<Longrightarrow>
   \<exists>ys tx'. recording fmt tx' (xs @ ys) (fold write_frame fs r) \<and> map sint ys = on_record fmt tx fs"
proof (induction fs arbitrary: tx xs r)
  case Nil
  then show ?case by auto
next
  case (Cons x fs)
  from recording_step [OF Cons.prems, of x fs] obtain ys tx' where
    1: "recording fmt tx' (xs @ ys) (write_frame x r)" "on_record fmt tx (x # fs) = map sint ys @ on_record fmt tx' fs"
    by blast
  from Cons.IH [OF 1(1) Cons.prems(2)] obtain zs tx'' where
    "recording fmt tx'' ((xs @ ys) @ zs) (fold write_frame fs (write_frame x r))" "map sint zs = on_record fmt tx' fs"
    by blast
  with 1(2) show ?case by (intro exI [of _ "ys @ zs"] exI [of _ tx'']) simp
qed

lemma first_frame:
  assumes "rec_active r" and "rec_file r = Some []" and "rec_srate r = 0" and "frame_fmt x = fmt" and "fst fmt \<noteq> 0"
  shows "write_frame x r = write_frame x (r\<lparr>rec_srate := fst fmt, rec_ch := snd fmt\<rparr>)"
  using assms by (cases x) (auto simp: write_frame_def vox_record_write_frame_def frame_fmt_def Let_def)

section \<open>Properties\<close>

text \<open>
  C32: A recording plays back as what was said. From a successful start, through any frames
  sent and received (frames of a format other than the first one's included), to the stop, the
  file is a well-formed WAV file with the first frame's sample rate and channels whose samples
  are each received frame added, with saturation and without wrap-around, to the last frame
  sent. The sizes in the header are right although they were written as 0 at first. It holds
  up to the 4 GB that the format's 32-bit sizes allow.
\<close>

theorem recording_reads_back:
  assumes "\<not> rec_active r0" and "length (rec_tx_buf r0) = REC_FRAME_MAX" and "fs \<noteq> []"
    and "frame_fmt (hd fs) = (sr, ch)" and "sr \<noteq> 0" and "2 * length (on_record (sr, ch) [] fs) < 2 ^ 32"
  shows "\<exists>file samples. fst (record_stop_fn (fold write_frame fs (snd (record_start_fn None r0)))) = Some file \<and>
    wav_read file = Some (sr, ucast ch, samples) \<and> map sint samples = on_record (sr, ch) [] fs"
proof -
  let ?r = "snd (record_start_fn None r0)"
  let ?r' = "?r\<lparr>rec_srate := sr, rec_ch := ch\<rparr>"
  obtain x gs where fs: "fs = x # gs" using assms(3) by (cases fs) auto
  have start: "recording (sr, ch) [] [] ?r'"
    using assms(1,2) by (simp add: record_start_fn_def recording_def)
  from recording_run [OF start, of fs] assms(5) obtain ys tx' where
    run: "recording (sr, ch) tx' ys (fold write_frame fs ?r')" "map sint ys = on_record (sr, ch) [] fs" by auto
  have same: "fold write_frame fs ?r = fold write_frame fs ?r'"
    using first_frame [of ?r x "(sr, ch)"] assms(1,4,5) by (simp add: fs record_start_fn_def)
  define r where "r = fold write_frame fs ?r"
  have r: "recording (sr, ch) tx' ys r" using run(1) same by (simp add: r_def)
  have len: "2 * length ys < 2 ^ 32" using assms(6) run(2) by (metis length_map)
  then have n: "unat (rec_data_bytes r) = 2 * length ys"
    using r by (simp add: recording_def unsigned_of_nat take_bit_nat_eq_self del: of_nat_mult)
  obtain f where f: "rec_file r = Some f" "drop 44 f = pcm_bytes ys"
    using r by (auto simp: recording_def pcm_bytes_def split: if_splits)
  let ?file = "overwrite (wav_header sr ch (rec_data_bytes r)) f"
  have "fst (record_stop_fn r) = Some ?file"
    using r f(1) assms(5) by (auto simp: record_stop_fn_def recording_def)
  moreover have "wav_read ?file = Some (sr, ucast ch, ys)"
    by (simp add: overwrite_def wav_read_header f(2) n)
  ultimately show ?thesis using run(2) unfolding r_def by blast
qed

definition demo_frames :: "frame list" where
  "demo_frames = [(DIR_TX, [30000, 5], 8000, 1), (DIR_RX, [30000, - 7], 8000, 1), (DIR_RX, [1], 16000, 1), (DIR_RX, [9], 8000, 1)]"

theorem recording_reads_back_witness:
  "on_record (8000, 1) [] demo_frames = [32767, - 2, 9] \<and>
   (\<exists>file samples. fst (record_stop_fn (fold write_frame demo_frames (snd (record_start_fn None rec_zero)))) = Some file \<and>
     wav_read file = Some (8000, 1, samples) \<and> map sint samples = on_record (8000, 1) [] demo_frames)"
proof -
  have d: "on_record (8000, 1) [] demo_frames = [32767, - 2, 9]"
    by (simp add: demo_frames_def clip_sum_def REC_FRAME_MAX_def)
  have "\<not> rec_active rec_zero" "length (rec_tx_buf rec_zero) = REC_FRAME_MAX" "demo_frames \<noteq> []"
    "frame_fmt (hd demo_frames) = (8000, 1)"
    by (simp_all add: rec_zero_def demo_frames_def frame_fmt_def)
  from recording_reads_back [OF this] show ?thesis by (simp add: d)
qed

text \<open>
  C35: A recording that could not be started is reported as started. \<open>record_start_fn\<close> has an
  error for a file that cannot be opened and for a recording that already runs, but the public
  call returns the outcome of the dispatch instead of it.
\<close>

theorem record_start_hides_errors:
  "fst (record_start_fn (Some EIO) rec_zero) = Some EIO \<and>
   fst (voxsdk_call_record_start (Some ''/nowhere/x.wav'') VOX_OK (Some EIO) rec_zero) = VOX_OK \<and>
   \<not> rec_active (snd (voxsdk_call_record_start (Some ''/nowhere/x.wav'') VOX_OK (Some EIO) rec_zero))"
  by (simp add: record_start_fn_def voxsdk_call_record_start_def rec_zero_def)

end
