(* ===== verification/Vox_Call.thy ===== *)
theory Vox_Call
  imports Vox_Account_Api
begin

text \<open>
  \<^verbatim>\<open>src/call.c\<close>: the call wrappers and their list, the setup watchdog, dialling with its
  retry without ICE, and the other functions the public call API dispatches to the re_main
  thread.
\<close>

section \<open>The call wrapper\<close>

datatype mig_state =
    MIG_IDLE | MIG_STALLED | MIG_WAIT_ADDR | MIG_DEFERRED | MIG_SENT | MIG_DONE | MIG_FAILED

text \<open>An address of the host or a peer, as \<open>sa_cmp\<close> with \<open>SA_ADDR\<close> sees it: family and address.\<close>

datatype af = INET | INET6

datatype sa = SA (sa_af: af) (sa_text: string)

definition VOX_NET_MAX_CAND :: nat where "VOX_NET_MAX_CAND = 4"

text \<open>
  The fields of \<open>struct voxsdk_call\<close>, without those of the recording (\<open>Vox_Record\<close>), the media
  tap and the statistics history. An address that is not set is \<open>None\<close>; the array of tried
  addresses with its counter is a list. \<open>lc_handle\<close> is its address; \<open>lc_bc\<close> baresip's call, \<open>None\<close>
  once that is gone; times are milliseconds of \<open>tmr_jiffies\<close>.
\<close>

record vcall =
  lc_handle :: call_id
  lc_bc :: "nat option"
  lc_acct :: "acct_id option"
  lc_state :: call_state
  local_sdp :: string
  remote_sdp :: string
  local_sdp_set :: bool
  remote_sdp_set :: bool
  local_hold :: bool
  lc_custom_hdrs :: "(string \<times> string) list"
  xfer_refer_to :: string
  xfer_pending :: bool
  stats_call_start :: u64
  net_mig_state :: mig_state
  net_mig_tries :: u32
  net_mig_gen :: u32
  net_rx_at_mig :: u32
  net_mig_start :: u64
  net_mig_laddr :: "sa option"
  net_mig_due :: u64
  net_ice_stale_sent :: bool
  net_ice_restarted :: bool
  net_mig_path_moved :: bool
  net_mig_stall :: bool
  net_stall_repair_at :: u64
  net_stall_rounds :: u8
  net_mig_tried :: "sa list"
  adapt_bitrate :: u32
  adapt_clean_ticks :: u32
  stall_rx_packets :: u32
  stall_since :: u64
  stall_active :: bool
  setup_start :: u64

definition call_zero :: "call_id \<Rightarrow> nat \<Rightarrow> acct_id option \<Rightarrow> call_state \<Rightarrow> vcall" where
  "call_zero h bc acct st = \<lparr>lc_handle = h, lc_bc = Some bc, lc_acct = acct, lc_state = st, local_sdp = [],
     remote_sdp = [], local_sdp_set = False, remote_sdp_set = False, local_hold = False, lc_custom_hdrs = [],
     xfer_refer_to = [], xfer_pending = False, stats_call_start = 0, net_mig_state = MIG_IDLE,
     net_mig_tries = 0, net_mig_gen = 0, net_rx_at_mig = 0, net_mig_start = 0, net_mig_laddr = None, net_mig_due = 0,
     net_ice_stale_sent = False, net_ice_restarted = False, net_mig_path_moved = False, net_mig_stall = False,
     net_stall_repair_at = 0, net_stall_rounds = 0, net_mig_tried = [],
     adapt_bitrate = 0, adapt_clean_ticks = 0, stall_rx_packets = 0, stall_since = 0, stall_active = False,
     setup_start = 0\<rparr>"

text \<open>The file's static state: the list of calls and the setup timer.\<close>

record calls =
  s_calls :: "vcall list"
  s_setup_tmr :: "u32 option"

definition vox_call_global_init :: calls where
  "vox_call_global_init = \<lparr>s_calls = [], s_setup_tmr = None\<rparr>"

section \<open>Lookup\<close>

definition vox_call_find :: "nat \<Rightarrow> calls \<Rightarrow> vcall option" where
  "vox_call_find bc cs = find (\<lambda>lc. lc_bc lc = Some bc) (s_calls cs)"

definition vox_call_register :: "vcall \<Rightarrow> calls \<Rightarrow> calls" where
  "vox_call_register lc cs = cs\<lparr>s_calls := s_calls cs @ [lc]\<rparr>"

definition vox_call_unregister :: "call_id \<Rightarrow> calls \<Rightarrow> calls" where
  "vox_call_unregister h cs = cs\<lparr>s_calls := filter (\<lambda>lc. lc_handle lc \<noteq> h) (s_calls cs)\<rparr>"

definition vox_call_foreach :: "(vcall \<Rightarrow> vcall) \<Rightarrow> calls \<Rightarrow> calls" where
  "vox_call_foreach f cs = cs\<lparr>s_calls := map f (s_calls cs)\<rparr>"

text \<open>A write through a pointer to a registered wrapper.\<close>

definition call_write :: "call_id \<Rightarrow> (vcall \<Rightarrow> vcall) \<Rightarrow> calls \<Rightarrow> calls" where
  "call_write h f = vox_call_foreach (\<lambda>lc. if lc_handle lc = h then f lc else lc)"

definition call_get :: "call_id \<Rightarrow> calls \<Rightarrow> vcall option" where
  "call_get h cs = find (\<lambda>lc. lc_handle lc = h) (s_calls cs)"

section \<open>Effects\<close>

datatype call_eff =
    C_Post "cptr event" "call_id option"
  | C_Hangup "nat option" nat u16 cptr
  | C_Connect string
  | C_SetMedianat cptr
  | C_Answer nat
  | C_Hold nat bool
  | C_Digit nat char
  | C_Transfer nat string
  | C_ReplaceTransfer nat nat
  | C_CallAlloc nat
  | C_CallConnect nat string
  | C_NotifySipfrag nat u16 string
  | C_CallFree nat
  | C_UaAccept

section \<open>The setup watchdog\<close>

definition VOX_SETUP_TICK_MS :: u32 where "VOX_SETUP_TICK_MS = 500"
definition VOX_SETUP_MAX_SNAP :: nat where "VOX_SETUP_MAX_SNAP = 64"

record setup_snap =
  sn_v :: "call_id list"
  sn_more :: bool

definition setup_visit :: "u32 \<Rightarrow> u64 \<Rightarrow> vcall \<Rightarrow> setup_snap \<Rightarrow> vcall \<times> setup_snap" where
  "setup_visit limit now lc sn =
     (if setup_start lc = 0 then (lc, sn)
      else if lc_state lc \<noteq> CALL_CALLING then (lc\<lparr>setup_start := 0\<rparr>, sn)
      else if limit = 0 then (lc\<lparr>setup_start := 0\<rparr>, sn)
      else if now - setup_start lc < ucast limit then (lc, sn\<lparr>sn_more := True\<rparr>)
      else if length (sn_v sn) < VOX_SETUP_MAX_SNAP then (lc, sn\<lparr>sn_v := sn_v sn @ [lc_handle lc]\<rparr>)
      else (lc, sn))"

fun setup_sweep :: "u32 \<Rightarrow> u64 \<Rightarrow> vcall list \<Rightarrow> setup_snap \<Rightarrow> vcall list \<times> setup_snap" where
  "setup_sweep limit now [] sn = ([], sn)"
| "setup_sweep limit now (lc # lcs) sn =
     (case setup_visit limit now lc sn of
        (lc', sn') \<Rightarrow> (case setup_sweep limit now lcs sn' of (lcs', sn'') \<Rightarrow> (lc' # lcs', sn'')))"

text \<open>The user agent of a call's account, as \<open>lc->acct->ua\<close> shows it.\<close>

definition call_ua :: "acct_db \<Rightarrow> vcall \<Rightarrow> nat option" where
  "call_ua db lc =
     (case lc_acct lc of
        None \<Rightarrow> None
      | Some h \<Rightarrow> (case find (\<lambda>a. handle a = h) (db_accounts db) of None \<Rightarrow> None | Some a \<Rightarrow> ua a))"

definition setup_expire :: "acct_db \<Rightarrow> call_id \<Rightarrow> (calls, call_eff) act" where
  "setup_expire db h cs =
     (case call_get h cs of
        None \<Rightarrow> (cs, [])
      | Some lc \<Rightarrow>
          (call_write h (\<lambda>x. x\<lparr>setup_start := 0\<rparr>) cs,
           case (lc_bc lc, call_ua db lc) of
             (Some bc, Some u) \<Rightarrow> [C_Hangup (Some u) bc 408 (Some ''Request Timeout'')]
           | _ \<Rightarrow> []))"

fun setup_expire_all :: "acct_db \<Rightarrow> call_id list \<Rightarrow> (calls, call_eff) act" where
  "setup_expire_all db [] = skip"
| "setup_expire_all db (h # hs) = andthen (setup_expire db h) (setup_expire_all db hs)"

definition setup_watch_handler :: "u32 \<Rightarrow> u64 \<Rightarrow> acct_db \<Rightarrow> (calls, call_eff) act" where
  "setup_watch_handler limit now db cs =
     (case setup_sweep limit now (s_calls cs) \<lparr>sn_v = [], sn_more = False\<rparr> of
        (lcs, sn) \<Rightarrow>
          andthen (setup_expire_all db (sn_v sn))
            (upd (\<lambda>c. if sn_more sn then c\<lparr>s_setup_tmr := Some VOX_SETUP_TICK_MS\<rparr> else c))
            (cs\<lparr>s_calls := lcs, s_setup_tmr := None\<rparr>))"

definition vox_call_setup_watch_start :: "u32 \<Rightarrow> u64 \<Rightarrow> call_id \<Rightarrow> calls \<Rightarrow> calls" where
  "vox_call_setup_watch_start limit now h cs =
     (if limit = 0 then cs
      else
        (let cs1 = call_write h (\<lambda>x. x\<lparr>setup_start := now\<rparr>) cs
         in if s_setup_tmr cs1 = None then cs1\<lparr>s_setup_tmr := Some VOX_SETUP_TICK_MS\<rparr> else cs1))"

definition vox_call_setup_watch_cancel :: "call_id \<Rightarrow> calls \<Rightarrow> calls" where
  "vox_call_setup_watch_cancel h = call_write h (\<lambda>x. x\<lparr>setup_start := 0\<rparr>)"

definition vox_call_setup_watch_close :: "calls \<Rightarrow> calls" where
  "vox_call_setup_watch_close cs = cs\<lparr>s_setup_tmr := None\<rparr>"


section \<open>Making a wrapper\<close>

text \<open>
  \<open>vox_call_wrap_new\<close>: \<open>mem\<close> is whether the wrapper could be allocated, with its address;
  \<open>hdr_ok i\<close> whether the copy of the account's \<open>i\<close>-th header could.
\<close>

definition inherited_hdrs :: "(nat \<Rightarrow> bool) \<Rightarrow> account \<Rightarrow> (string \<times> string) list" where
  "inherited_hdrs hdr_ok a =
     map snd (filter (\<lambda>(i, _). hdr_ok i) (enumerate 0 (custom_hdrs a)))"

definition acct_of :: "acct_db \<Rightarrow> acct_id option \<Rightarrow> account option" where
  "acct_of db h = (case h of None \<Rightarrow> None | Some i \<Rightarrow> find (\<lambda>a. handle a = i) (db_accounts db))"

definition vox_call_wrap_new ::
  "call_id option \<Rightarrow> (nat \<Rightarrow> bool) \<Rightarrow> acct_db \<Rightarrow> nat \<Rightarrow> acct_id option \<Rightarrow> call_state \<Rightarrow> bool \<Rightarrow> calls \<Rightarrow> vcall option \<times> calls" where
  "vox_call_wrap_new mem hdr_ok db bc acct st inherit_hdrs cs =
     (case mem of
        None \<Rightarrow> (None, cs)
      | Some h \<Rightarrow>
          (let lc0 = call_zero h bc acct st;
               lc = (case acct_of db acct of
                       Some a \<Rightarrow> if inherit_hdrs then lc0\<lparr>lc_custom_hdrs := inherited_hdrs hdr_ok a\<rparr> else lc0
                     | None \<Rightarrow> lc0)
           in (Some lc, vox_call_register lc cs)))"

section \<open>Dialling\<close>

text \<open>
  What the stack answers to a dial: \<open>ua_isregistered\<close>; the completed URI for a dial string; the
  result of \<open>ua_connect\<close> (the call it made, if any) for a URI, with the account's media NAT
  and without it; the media NAT of the account.
\<close>

datatype conn_err = E_AFNOSUPPORT | E_NOTCONN | E_conn errno

record dial_env =
  de_registered :: bool
  de_complete :: "string \<Rightarrow> errno + string"
  de_connect :: "string \<Rightarrow> cptr \<Rightarrow> conn_err + nat option"
  de_medianat :: cptr
  de_wrapper :: "call_id option"
  de_hdr_ok :: "nat \<Rightarrow> bool"
  de_now :: u64

definition invite_refused :: "dial_env \<Rightarrow> account \<Rightarrow> bool" where
  "invite_refused D a \<longleftrightarrow> reg_state a = REG_FAILED \<or> (reg_state a = REG_RECONNECTING \<and> \<not> de_registered D)"

definition dial_string :: "string \<Rightarrow> string" where
  "dial_string uri = (if CHR ''@'' \<notin> set uri \<and> starts_with_ci ''sip:'' uri then drop 4 uri else uri)"

text \<open>The connect, and the second one without ICE when the host has no IPv6; the effects leave
  the account's media NAT as they found it.\<close>

definition invite_connect :: "libre \<Rightarrow> dial_env \<Rightarrow> string \<Rightarrow> (conn_err + nat option) \<times> call_eff list" where
  "invite_connect L D ruri =
     (case de_connect D ruri (de_medianat D) of
        Inl E_AFNOSUPPORT \<Rightarrow>
          (let keep = (case de_medianat D of None \<Rightarrow> [] | Some m \<Rightarrow> lb_ncpy L 32 m)
           in (de_connect D ruri None,
               [C_Connect ruri, C_SetMedianat None, C_Connect ruri]
               @ (if keep \<noteq> [] then [C_SetMedianat (Some keep)] else [])))
      | r \<Rightarrow> (r, [C_Connect ruri]))"

definition invite_fn ::
  "libre \<Rightarrow> vox_cfg \<Rightarrow> u32 \<Rightarrow> dial_env \<Rightarrow> acct_db \<Rightarrow> account \<Rightarrow> string \<Rightarrow> calls \<Rightarrow> (conn_err + call_id) \<times> calls \<times> call_eff list" where
  "invite_fn L G timer_b D db a uri cs =
     (if invite_refused D a then (Inl E_NOTCONN, cs, [])
      else
        (case de_complete D (dial_string uri) of
           Inl e \<Rightarrow> (Inl (E_conn e), cs, [])
         | Inr ruri \<Rightarrow>
             (case invite_connect L D ruri of
                (Inl e, es) \<Rightarrow> (Inl e, cs, es)
              | (Inr None, es) \<Rightarrow> (Inl (E_conn EINVAL), cs, es)
              | (Inr (Some bc), es) \<Rightarrow>
                  (case vox_call_wrap_new (de_wrapper D) (de_hdr_ok D) db bc (Some (handle a)) CALL_CALLING True cs of
                     (None, _) \<Rightarrow> (Inl (E_conn ENOMEM), cs, es @ [C_Hangup (ua a) bc 500 (Some ''Out of Memory'')])
                   | (Some lc, cs1) \<Rightarrow>
                       (Inr (lc_handle lc),
                        vox_call_setup_watch_start timer_b (de_now D) (lc_handle lc)
                          (call_write (lc_handle lc) (\<lambda>x. x\<lparr>local_sdp_set := True\<rparr>) cs1),
                        es)))))"

section \<open>The other operations on a call\<close>

definition answer_fn :: "vcall \<Rightarrow> errno option \<Rightarrow> errno option \<times> call_eff list" where
  "answer_fn lc r = (case lc_bc lc of None \<Rightarrow> (Some ENOENT, []) | Some bc \<Rightarrow> (r, [C_Answer bc]))"

definition hangup_fn :: "acct_db \<Rightarrow> vcall \<Rightarrow> (calls, call_eff) act" where
  "hangup_fn db lc cs =
     (case lc_bc lc of
        None \<Rightarrow> (cs, [])
      | Some bc \<Rightarrow> (call_write (lc_handle lc) (\<lambda>x. x\<lparr>lc_state := CALL_ENDED\<rparr>) cs, [C_Hangup (call_ua db lc) bc 0 None]))"

definition reject_fn :: "acct_db \<Rightarrow> vcall \<Rightarrow> u16 \<Rightarrow> string \<Rightarrow> (calls, call_eff) act" where
  "reject_fn db lc scode reason cs =
     (call_write (lc_handle lc) (\<lambda>x. x\<lparr>lc_state := CALL_ENDED\<rparr>) cs,
      case lc_bc lc of
        None \<Rightarrow> []
      | Some bc \<Rightarrow> [C_Hangup (call_ua db lc) bc scode (if reason \<noteq> [] then Some reason else None)])"

definition hold_fn :: "vcall \<Rightarrow> bool \<Rightarrow> errno option \<Rightarrow> calls \<Rightarrow> errno option \<times> calls \<times> call_eff list" where
  "hold_fn lc hold r cs =
     (case lc_bc lc of
        None \<Rightarrow> (Some ENOENT, cs, [])
      | Some bc \<Rightarrow>
          (r, if r = None then call_write (lc_handle lc) (\<lambda>x. x\<lparr>local_hold := hold\<rparr>) cs else cs, [C_Hold bc hold]))"

definition voxsdk_call_is_held :: "vcall option \<Rightarrow> bool" where
  "voxsdk_call_is_held call = (case call of None \<Rightarrow> False | Some lc \<Rightarrow> local_hold lc \<or> lc_state lc = CALL_HELD)"

definition dtmf_fn :: "vcall \<Rightarrow> char \<Rightarrow> errno option \<Rightarrow> errno option \<times> call_eff list" where
  "dtmf_fn lc digit r = (case lc_bc lc of None \<Rightarrow> (Some ENOENT, []) | Some bc \<Rightarrow> (r, [C_Digit bc digit]))"

definition transfer_fn :: "vcall \<Rightarrow> string \<Rightarrow> errno option \<Rightarrow> errno option \<times> call_eff list" where
  "transfer_fn lc uri r = (case lc_bc lc of None \<Rightarrow> (Some ENOENT, []) | Some bc \<Rightarrow> (r, [C_Transfer bc uri]))"

definition voxsdk_call_get_state :: "vcall option \<Rightarrow> call_state" where
  "voxsdk_call_get_state call = (case call of None \<Rightarrow> CALL_ENDED | Some lc \<Rightarrow> lc_state lc)"

definition voxsdk_call_get_account :: "vcall option \<Rightarrow> acct_id option" where
  "voxsdk_call_get_account call = (case call of None \<Rightarrow> None | Some lc \<Rightarrow> lc_acct lc)"

text \<open>\<open>ok\<close> gives the outcomes of the three allocations of a header.\<close>

definition add_call_hdr_fn :: "vcall \<Rightarrow> (nat \<Rightarrow> bool) \<Rightarrow> string \<Rightarrow> string \<Rightarrow> calls \<Rightarrow> errno option \<times> calls" where
  "add_call_hdr_fn lc ok name value cs =
     (if lc_bc lc = None then (Some ENOENT, cs)
      else if \<not> ok 0 then (Some ENOMEM, cs)
      else if vox_strdup (ok 1) (Some name) = None \<or> vox_strdup (ok 2) (Some value) = None then (Some ENOMEM, cs)
      else (None, call_write (lc_handle lc) (\<lambda>x. x\<lparr>lc_custom_hdrs := lc_custom_hdrs x @ [(name, value)]\<rparr>) cs))"

text \<open>\<open>transp_from_baresip\<close>, with baresip's enumeration.\<close>

datatype sip_transp = ST_UDP | ST_TCP | ST_TLS | ST_WS | ST_WSS | ST_NONE

definition transp_from_baresip :: "sip_transp \<Rightarrow> transport" where
  "transp_from_baresip tp =
     (case tp of ST_TCP \<Rightarrow> TP_TCP | ST_TLS \<Rightarrow> TP_TLS | ST_WS \<Rightarrow> TP_WS | ST_WSS \<Rightarrow> TP_WSS | _ \<Rightarrow> TP_UDP)"


text \<open>\<open>call_info_fn\<close>: what baresip's readers give for a call, and the struct filled from it.\<close>

record bc_info =
  bi_peeruri :: cptr
  bi_peername :: cptr
  bi_localuri :: cptr
  bi_contacturi :: cptr
  bi_id :: cptr
  bi_diverteruri :: cptr
  bi_outgoing :: bool
  bi_onhold :: bool
  bi_scode :: u16
  bi_setup_s :: u32
  bi_linenum :: u32
  bi_transp :: sip_transp

record call_info =
  o_state :: call_state
  o_duration_ms :: u64
  o_peer_uri :: string
  o_peer_display_name :: string
  o_local_uri :: string
  o_contact_uri :: string
  o_call_id :: string
  o_diverter_uri :: string
  o_is_outgoing :: bool
  o_is_remote_hold :: bool
  o_sip_status :: u16
  o_setup_duration_ms :: u32
  o_line_number :: u32
  o_transport :: transport

definition call_info_zero :: call_info where
  "call_info_zero = \<lparr>o_state = CALL_CALLING, o_duration_ms = 0, o_peer_uri = [], o_peer_display_name = [],
     o_local_uri = [], o_contact_uri = [], o_call_id = [], o_diverter_uri = [], o_is_outgoing = False,
     o_is_remote_hold = False, o_sip_status = 0, o_setup_duration_ms = 0, o_line_number = 0, o_transport = TP_UDP\<rparr>"

definition copy_opt :: "libre \<Rightarrow> nat \<Rightarrow> cptr \<Rightarrow> string \<Rightarrow> string" where
  "copy_opt L sz sv old = (case sv of None \<Rightarrow> old | Some x \<Rightarrow> lb_ncpy L sz x)"

definition call_info_fn :: "libre \<Rightarrow> u64 \<Rightarrow> (nat \<Rightarrow> bc_info) \<Rightarrow> vcall \<Rightarrow> call_info \<Rightarrow> call_info" where
  "call_info_fn L now bi lc o0 =
     (let o1 = o0\<lparr>o_state := lc_state lc,
                 o_duration_ms := (if stats_call_start lc \<noteq> 0 then now - stats_call_start lc else o_duration_ms o0)\<rparr>
      in case lc_bc lc of
           None \<Rightarrow> o1
         | Some bc \<Rightarrow>
             o1\<lparr>o_peer_uri := copy_opt L 256 (bi_peeruri (bi bc)) (o_peer_uri o1),
                o_peer_display_name := copy_opt L 128 (bi_peername (bi bc)) (o_peer_display_name o1),
                o_local_uri := copy_opt L 256 (bi_localuri (bi bc)) (o_local_uri o1),
                o_contact_uri := copy_opt L 256 (bi_contacturi (bi bc)) (o_contact_uri o1),
                o_call_id := copy_opt L 128 (bi_id (bi bc)) (o_call_id o1),
                o_diverter_uri := copy_opt L 256 (bi_diverteruri (bi bc)) (o_diverter_uri o1),
                o_is_outgoing := bi_outgoing (bi bc), o_is_remote_hold := bi_onhold (bi bc),
                o_sip_status := bi_scode (bi bc), o_setup_duration_ms := bi_setup_s (bi bc) * 1000,
                o_line_number := bi_linenum (bi bc), o_transport := transp_from_baresip (bi_transp (bi bc))\<rparr>)"

section \<open>The watchdog never forgets a call\<close>

text \<open>A call is watched while it dials; a watched call needs the timer.\<close>

definition watched :: "vcall \<Rightarrow> bool" where
  "watched lc \<longleftrightarrow> setup_start lc \<noteq> 0"

definition watch_wf :: "calls \<Rightarrow> bool" where
  "watch_wf cs \<longleftrightarrow> distinct (map lc_handle (s_calls cs)) \<and>
     (list_ex watched (s_calls cs) \<longrightarrow> s_setup_tmr cs \<noteq> None)"


definition expired :: "u32 \<Rightarrow> u64 \<Rightarrow> vcall \<Rightarrow> bool" where
  "expired limit now lc \<longleftrightarrow> watched lc \<and> lc_state lc = CALL_CALLING \<and> limit \<noteq> 0 \<and> ucast limit \<le> now - setup_start lc"

definition pending :: "u32 \<Rightarrow> u64 \<Rightarrow> vcall \<Rightarrow> bool" where
  "pending limit now lc \<longleftrightarrow> watched lc \<and> lc_state lc = CALL_CALLING \<and> limit \<noteq> 0 \<and> now - setup_start lc < ucast limit"

definition unwatch :: "vcall \<Rightarrow> vcall" where
  "unwatch lc = lc\<lparr>setup_start := 0\<rparr>"

definition swept :: "u32 \<Rightarrow> vcall \<Rightarrow> vcall" where
  "swept limit lc = (if watched lc \<and> (lc_state lc \<noteq> CALL_CALLING \<or> limit = 0) then unwatch lc else lc)"

text \<open>What one sweep over the list collects: the expired calls as far as the snapshot has room,
  and whether a call is still inside its deadline.\<close>

lemma unwatch_handle [simp]: "lc_handle (unwatch lc) = lc_handle lc"
  by (simp add: unwatch_def)

lemma setup_visit_spec:
  "setup_visit limit now lc sn =
     (swept limit lc,
      \<lparr>sn_v = sn_v sn @ (if expired limit now lc \<and> length (sn_v sn) < VOX_SETUP_MAX_SNAP then [lc_handle lc] else []),
       sn_more = (sn_more sn \<or> pending limit now lc)\<rparr>)"
  by (cases sn) (simp add: setup_visit_def expired_def pending_def swept_def watched_def unwatch_def not_le [symmetric])

lemma setup_sweep_spec:
  "setup_sweep limit now lcs sn =
     (map (swept limit) lcs,
      \<lparr>sn_v = sn_v sn @ take (VOX_SETUP_MAX_SNAP - length (sn_v sn)) (map lc_handle (filter (expired limit now) lcs)),
       sn_more = (sn_more sn \<or> list_ex (pending limit now) lcs)\<rparr>)"
proof (induction lcs arbitrary: sn)
  case Nil
  then show ?case by (cases sn) simp
next
  case (Cons lc lcs)
  show ?case
  proof (cases "expired limit now lc \<and> length (sn_v sn) < VOX_SETUP_MAX_SNAP")
    case True
    then have "VOX_SETUP_MAX_SNAP - length (sn_v sn) = Suc (VOX_SETUP_MAX_SNAP - Suc (length (sn_v sn)))"
      by (simp add: Suc_diff_Suc)
    then show ?thesis using True by (simp add: Cons setup_visit_spec)
  next
    case False
    then show ?thesis by (cases "expired limit now lc") (simp_all add: Cons setup_visit_spec)
  qed
qed

lemma call_get_write [simp]:
  "(\<And>lc. lc_handle (f lc) = lc_handle lc) \<Longrightarrow>
   call_get h (call_write h' f cs) = map_option (\<lambda>lc. if lc_handle lc = h' then f lc else lc) (call_get h cs)"
proof -
  assume f: "\<And>lc. lc_handle (f lc) = lc_handle lc"
  have "find (\<lambda>lc. lc_handle lc = h) (map (\<lambda>lc. if lc_handle lc = h' then f lc else lc) xs) =
      map_option (\<lambda>lc. if lc_handle lc = h' then f lc else lc) (find (\<lambda>lc. lc_handle lc = h) xs)" for xs
    by (induction xs) (simp_all add: f)
  then show ?thesis by (simp add: call_get_def call_write_def vox_call_foreach_def)
qed

text \<open>The hangup a call gets when its setup has timed out.\<close>

definition timeout_hangup :: "acct_db \<Rightarrow> vcall \<Rightarrow> call_eff list" where
  "timeout_hangup db lc =
     (case (lc_bc lc, call_ua db lc) of
        (Some bc, Some u) \<Rightarrow> [C_Hangup (Some u) bc 408 (Some ''Request Timeout'')]
      | _ \<Rightarrow> [])"

lemma timeout_hangup_unwatch [simp]: "timeout_hangup db (unwatch lc) = timeout_hangup db lc"
  by (simp add: timeout_hangup_def unwatch_def call_ua_def)

lemma setup_expire_spec:
  "setup_expire db h cs = (call_write h unwatch cs, case call_get h cs of None \<Rightarrow> [] | Some lc \<Rightarrow> timeout_hangup db lc)"
proof (cases "call_get h cs")
  case None
  then have "\<forall>lc \<in> set (s_calls cs). lc_handle lc \<noteq> h" by (auto simp: call_get_def find_None_iff)
  then have "call_write h unwatch cs = cs"
    by (cases cs) (auto simp: call_write_def vox_call_foreach_def map_idI)
  then show ?thesis using None by (simp add: setup_expire_def)
qed (simp add: setup_expire_def timeout_hangup_def unwatch_def [abs_def])

lemma setup_expire_all_spec:
  "setup_expire_all db hs cs =
     (vox_call_foreach (\<lambda>lc. if lc_handle lc \<in> set hs then unwatch lc else lc) cs,
      concat (map (\<lambda>h. case call_get h cs of None \<Rightarrow> [] | Some lc \<Rightarrow> timeout_hangup db lc) hs))"
proof (induction hs arbitrary: cs)
  case Nil
  then show ?case by (cases cs) (simp add: skip_def vox_call_foreach_def)
next
  case (Cons h hs)
  have g: "(case call_get k (call_write h unwatch cs) of None \<Rightarrow> [] | Some lc \<Rightarrow> timeout_hangup db lc) =
      (case call_get k cs of None \<Rightarrow> [] | Some lc \<Rightarrow> timeout_hangup db lc)" for k
    by (cases "call_get k cs") simp_all
  have m: "vox_call_foreach (\<lambda>lc. if lc_handle lc \<in> set hs then unwatch lc else lc) (call_write h unwatch cs) =
      vox_call_foreach (\<lambda>lc. if lc_handle lc \<in> set (h # hs) then unwatch lc else lc) cs"
    by (auto simp: call_write_def vox_call_foreach_def unwatch_def)
  show ?case unfolding setup_expire_all.simps andthen_def setup_expire_spec Cons prod.case m g by simp
qed


lemma find_handle:
  "distinct (map lc_handle lcs) \<Longrightarrow> lc \<in> set lcs \<Longrightarrow> find (\<lambda>x. lc_handle x = lc_handle lc) lcs = Some lc"
proof (induction lcs)
  case (Cons x lcs)
  then show ?case by (cases "x = lc") (auto simp: image_iff)
qed simp

lemma swept_simps [simp]: "lc_handle (swept limit lc) = lc_handle lc" "timeout_hangup db (swept limit lc) = timeout_hangup db lc"
  by (simp_all add: swept_def)

lemma call_get_swept:
  assumes "distinct (map lc_handle (s_calls cs))" and "lc \<in> set (s_calls cs)"
  shows "call_get (lc_handle lc) (cs\<lparr>s_calls := map (swept limit) (s_calls cs), s_setup_tmr := t\<rparr>) = Some (swept limit lc)"
  using find_handle [of "map (swept limit) (s_calls cs)" "swept limit lc"] assms
  by (simp add: call_get_def comp_def)

text \<open>The handler as a whole, for any number of calls.\<close>

lemma setup_watch_spec:
  assumes "distinct (map lc_handle (s_calls cs))"
  shows "setup_watch_handler limit now db cs =
    (let hit = take VOX_SETUP_MAX_SNAP (filter (expired limit now) (s_calls cs))
     in (\<lparr>s_calls = map (\<lambda>lc. if lc_handle lc \<in> lc_handle ` set hit then unwatch (swept limit lc) else swept limit lc) (s_calls cs),
          s_setup_tmr = (if list_ex (pending limit now) (s_calls cs) then Some VOX_SETUP_TICK_MS else None)\<rparr>,
         concat (map (timeout_hangup db) hit)))"
proof -
  let ?hit = "take VOX_SETUP_MAX_SNAP (filter (expired limit now) (s_calls cs))"
  let ?cs = "cs\<lparr>s_calls := map (swept limit) (s_calls cs), s_setup_tmr := None\<rparr>"
  have "concat (map (\<lambda>h. case call_get h ?cs of None \<Rightarrow> [] | Some lc \<Rightarrow> timeout_hangup db lc) (map lc_handle ?hit))
      = concat (map (timeout_hangup db) ?hit)"
    using assms by (auto simp: call_get_swept dest!: in_set_takeD intro!: arg_cong [of _ _ concat])
  then show ?thesis
    by (cases cs) (simp add: setup_watch_handler_def setup_sweep_spec setup_expire_all_spec andthen_def upd_def Let_def
        take_map vox_call_foreach_def if_distrib [of unwatch] cong: if_cong)
qed


section \<open>Properties\<close>

text \<open>
  C16: The call-setup watchdog cancels every call whose setup has timed out and no other, and
  keeps watching. In a sweep that finds at most 64 calls past the deadline, exactly those
  calls (still dialling, with a stack call and a user agent) are hung up with 408, in list
  order; afterwards every call that is still watched is one inside its deadline, and the timer
  runs exactly when there is such a call.
\<close>

theorem setup_watchdog_sweeps:
  assumes "distinct (map lc_handle (s_calls cs))" and "limit \<noteq> 0"
    and "length (filter (expired limit now) (s_calls cs)) \<le> VOX_SETUP_MAX_SNAP"
    and "setup_watch_handler limit now db cs = (cs', es)"
  shows "es = concat (map (timeout_hangup db) (filter (expired limit now) (s_calls cs))) \<and>
    (\<forall>lc \<in> set (s_calls cs'). watched lc \<longrightarrow> pending limit now lc) \<and>
    (s_setup_tmr cs' \<noteq> None \<longleftrightarrow> list_ex watched (s_calls cs'))"
proof -
  let ?x = "filter (expired limit now) (s_calls cs)"
  let ?f = "\<lambda>lc. if lc_handle lc \<in> lc_handle ` set ?x then unwatch (swept limit lc) else swept limit lc"
  have h: "setup_watch_handler limit now db cs = (\<lparr>s_calls = map ?f (s_calls cs),
      s_setup_tmr = (if list_ex (pending limit now) (s_calls cs) then Some VOX_SETUP_TICK_MS else None)\<rparr>,
      concat (map (timeout_hangup db) ?x))"
    using setup_watch_spec [OF assms(1), of limit now db] assms(3) by (simp add: Let_def)
  have exp: "lc_handle lc \<in> lc_handle ` set ?x \<longleftrightarrow> expired limit now lc" if "lc \<in> set (s_calls cs)" for lc
    using that assms(1) by (auto simp: distinct_map inj_on_def)
  have f: "?f lc = (if pending limit now lc then lc else unwatch lc)" if "lc \<in> set (s_calls cs)" for lc
    using exp [OF that] assms(2)
    by (auto simp: expired_def pending_def swept_def watched_def unwatch_def)
  have "\<not> watched (unwatch lc)" for lc by (simp add: watched_def unwatch_def)
  moreover have "pending limit now lc \<Longrightarrow> watched lc" for lc by (simp add: pending_def)
  ultimately have w: "watched (?f lc) \<longleftrightarrow> pending limit now lc" "watched (?f lc) \<longrightarrow> pending limit now (?f lc)"
    if "lc \<in> set (s_calls cs)" for lc
    using f [OF that] by simp_all
  have "list_ex watched (map ?f (s_calls cs)) = list_ex (pending limit now) (s_calls cs)"
    unfolding list_ex_iff set_map using w(1) by blast
  moreover have "\<forall>lc \<in> set (map ?f (s_calls cs)). watched lc \<longrightarrow> pending limit now lc"
    unfolding set_map using w(2) by blast
  moreover have "cs' = fst (setup_watch_handler limit now db cs)" "es = snd (setup_watch_handler limit now db cs)"
    using assms(4) by simp_all
  ultimately show ?thesis unfolding h fst_conv snd_conv by simp
qed

definition dialling :: "call_id \<Rightarrow> u64 \<Rightarrow> vcall" where
  "dialling i t = (call_zero i i (Some 1) CALL_CALLING)\<lparr>setup_start := t\<rparr>"

definition db_one :: acct_db where
  "db_one = acct_db_init\<lparr>db_accounts := [(account_zero 1 acct_cfg_zero)\<lparr>ua := Some 9\<rparr>]\<rparr>"

definition two_dials :: calls where
  "two_dials = \<lparr>s_calls = [dialling 1 1000, dialling 2 8000], s_setup_tmr = Some 500\<rparr>"

theorem setup_watchdog_sweeps_witness:
  "snd (setup_watch_handler 8000 9000 db_one two_dials) = [C_Hangup (Some 9) 1 408 (Some ''Request Timeout'')] \<and>
   (s_setup_tmr (fst (setup_watch_handler 8000 9000 db_one two_dials)) \<noteq> None)"
proof -
  have d: "distinct (map lc_handle (s_calls two_dials))" "(8000 :: u32) \<noteq> 0"
    "length (filter (expired 8000 9000) (s_calls two_dials)) \<le> VOX_SETUP_MAX_SNAP"
    by code_simp+
  have e: "concat (map (timeout_hangup db_one) (filter (expired 8000 9000) (s_calls two_dials))) =
      [C_Hangup (Some 9) 1 408 (Some ''Request Timeout'')]" by code_simp
  have w: "list_ex watched (s_calls (fst (setup_watch_handler 8000 9000 db_one two_dials)))" by code_simp
  from setup_watchdog_sweeps [OF d prod.collapse [symmetric], of db_one] w show ?thesis unfolding e by blast
qed

definition dials65 :: calls where
  "dials65 = \<lparr>s_calls = map (\<lambda>i. dialling i 1000) [0..<65], s_setup_tmr = Some 500\<rparr>"

text \<open>
  With more than 64 calls past the deadline in one sweep the watchdog stops for the rest.
  The snapshot holds 64 calls; the 65th is not hung up, and since no call is inside its
  deadline the timer is not started again: it stays watched with nothing left to cancel it.
\<close>

theorem setup_watchdog_starves:
  "s_setup_tmr (fst (setup_watch_handler 8000 9000 db_one dials65)) = None \<and>
   list_ex watched (s_calls (fst (setup_watch_handler 8000 9000 db_one dials65)))"
proof -
  have x: "expired 8000 9000 (dialling i 1000)" "\<not> pending 8000 9000 (dialling i 1000)" for i
    by (simp_all add: expired_def pending_def watched_def dialling_def call_zero_def word_less_def word_le_def)
  have h: "lc_handle (dialling i 1000) = i" for i by (simp add: dialling_def call_zero_def)
  have d: "distinct (map lc_handle (s_calls dials65))" by (simp add: dials65_def comp_def h)
  have f: "filter (expired 8000 9000) (s_calls dials65) = map (\<lambda>i. dialling i 1000) [0..<65]"
    by (simp add: dials65_def filter_map comp_def x)
  have "lc_handle ` set (take 64 (map (\<lambda>i. dialling i 1000) [0..<65])) = {0..<64}"
    by (simp add: take_map take_upt image_image h)
  moreover have "\<not> list_ex (pending 8000 9000) (s_calls dials65)" by (auto simp: dials65_def list_ex_iff x)
  ultimately have w: "setup_watch_handler 8000 9000 db_one dials65 =
      (\<lparr>s_calls = map (\<lambda>lc. if lc_handle lc \<in> {0..<64} then unwatch (swept 8000 lc) else swept 8000 lc) (s_calls dials65),
        s_setup_tmr = None\<rparr>, concat (map (timeout_hangup db_one) (take 64 (map (\<lambda>i. dialling i 1000) [0..<65]))))"
    unfolding setup_watch_spec [OF d] Let_def f VOX_SETUP_MAX_SNAP_def by simp
  let ?f = "\<lambda>lc. if lc_handle lc \<in> {0..<64} then unwatch (swept 8000 lc) else swept 8000 lc"
  have "watched (?f (dialling 64 1000))"
    by (simp add: h) (simp add: swept_def watched_def dialling_def call_zero_def)
  moreover have "?f (dialling 64 1000) \<in> set (map ?f (s_calls dials65))"
    unfolding set_map by (rule imageI) (auto simp: dials65_def)
  ultimately have "list_ex watched (map ?f (s_calls dials65))" unfolding list_ex_iff by blast
  then show ?thesis unfolding w fst_conv by simp
qed

end
