(* ===== verification/Vox_Adapt.thy ===== *)
theory Vox_Adapt
  imports Vox_Call
begin

text \<open>
  \<^verbatim>\<open>src/adapt.c\<close>: what the SDK does about a link that has gone bad under a call. The rewriting
  of the codec parameters, the bitrate steps, and the detection of stalled media. Percentages
  and the values in alerts are floats, modelled as in \<open>Vox_Float\<close>.
\<close>

section \<open>Configuration\<close>

text \<open>The fields of the global configuration that are read here.\<close>

record adapt_cfg =
  adaptive_bitrate :: bool
  adapt_min_bitrate :: u32
  adapt_max_bitrate :: u32
  adapt_loss_down_pct :: rat
  adapt_loss_up_pct :: rat
  adapt_recover_ticks_cfg :: u32
  media_stall_ms :: u32
  g_media_enc :: media_enc

definition VOX_ADAPT_BR_MIN :: u32 where "VOX_ADAPT_BR_MIN = 6000"
definition VOX_ADAPT_BR_MAX :: u32 where "VOX_ADAPT_BR_MAX = 510000"

definition adapt_min_br :: "adapt_cfg \<Rightarrow> u32" where
  "adapt_min_br C =
     (let v = (if adapt_min_bitrate C \<noteq> 0 then adapt_min_bitrate C else 12000)
      in if v < VOX_ADAPT_BR_MIN then VOX_ADAPT_BR_MIN else v)"

definition adapt_max_br :: "adapt_cfg \<Rightarrow> u32" where
  "adapt_max_br C =
     (let v0 = (if adapt_max_bitrate C \<noteq> 0 then adapt_max_bitrate C else 32000);
          v = (if VOX_ADAPT_BR_MAX < v0 then VOX_ADAPT_BR_MAX else v0)
      in if v < adapt_min_br C then adapt_min_br C else v)"

definition adapt_down_pct :: "adapt_cfg \<Rightarrow> rat" where
  "adapt_down_pct C = (if 0 < adapt_loss_down_pct C then adapt_loss_down_pct C else 5)"

definition adapt_up_pct :: "adapt_cfg \<Rightarrow> rat" where
  "adapt_up_pct C =
     (let up = (if 0 < adapt_loss_up_pct C then adapt_loss_up_pct C else 1)
      in if adapt_down_pct C \<le> up then f32_mult (adapt_down_pct C) (1 / 2) else up)"

definition adapt_recover_ticks :: "adapt_cfg \<Rightarrow> u32" where
  "adapt_recover_ticks C = (if adapt_recover_ticks_cfg C \<noteq> 0 then adapt_recover_ticks_cfg C else 5)"

section \<open>Rewriting the codec parameters\<close>

definition fmtp_key :: string where "fmtp_key = ''maxaveragebitrate''"

text \<open>The test on a token of length \<open>len\<close> at the start of \<open>p\<close>: it is copied.\<close>

definition fmtp_keeps :: "string \<Rightarrow> nat \<Rightarrow> bool" where
  "fmtp_keeps p len \<longleftrightarrow> 0 < len \<and>
     \<not> (length fmtp_key \<le> len \<and> starts_with_ci fmtp_key p \<and> (len = length fmtp_key \<or> p ! length fmtp_key = CHR ''=''))"

text \<open>The loop, with what is in the buffer so far.\<close>

function fmtp_loop :: "nat \<Rightarrow> string \<Rightarrow> string \<Rightarrow> errno + string" where
  "fmtp_loop sz p buf =
     (if p = [] then Inr buf
      else
        (let e = strchr (CHR '';'') p;
             len = (case e of Some i \<Rightarrow> i | None \<Rightarrow> length p);
             rest = (case e of Some i \<Rightarrow> drop (Suc i) p | None \<Rightarrow> [])
         in if fmtp_keeps p len then
              (if sz < length buf + len + 2 then Inl EINVAL
               else fmtp_loop sz rest ((if buf \<noteq> [] then buf @ '';'' else buf) @ take len p))
            else fmtp_loop sz rest buf))"
  by pat_completeness auto
termination
  by (relation "measure (\<lambda>(sz, p, buf). length p)")
    (auto split: option.splits dest: strchr_Some_less)

declare fmtp_loop.simps [simp del]

definition vox_adapt_fmtp_set_bitrate :: "libre \<Rightarrow> nat \<Rightarrow> cptr \<Rightarrow> u32 \<Rightarrow> errno + string" where
  "vox_adapt_fmtp_set_bitrate L sz src bitrate =
     (if sz = 0 then Inl EINVAL
      else
        (case fmtp_loop sz (case src of None \<Rightarrow> [] | Some s \<Rightarrow> s) [] of
           Inl e \<Rightarrow> Inl e
         | Inr buf \<Rightarrow>
             if bitrate \<noteq> 0 then
               (case lb_snprintf L (sz - length buf)
                   ((if buf \<noteq> [] then '';'' else []) @ fmtp_key @ ''='' @ show_nat (unat bitrate)) of
                  (out, n) \<Rightarrow> if n < 0 then Inl EINVAL else Inr (buf @ out))
             else Inr buf))"

section \<open>Applying a bitrate\<close>

datatype adapt_eff =
    A_EncoderSet nat string
  | A_Post "cptr event"
  | A_CallStalled call_id

text \<open>
  What the stack shows of a call: its audio stream's negotiated format (whether it has an
  encoder-update handler, and the remote parameters), \<open>None\<close> while there is no stream or no
  format; the outcome of \<open>audio_encoder_set\<close>; \<open>call_is_onhold\<close>; whether each stream is secure.
\<close>

record media_env =
  me_format :: "(bool \<times> cptr) option"
  me_encoder :: "errno option"
  me_onhold :: bool
  me_secure :: "bool list"
  me_now :: u64

definition vox_adapt_apply_bitrate :: "libre \<Rightarrow> media_env \<Rightarrow> u32 \<Rightarrow> vcall \<Rightarrow> errno option \<times> vcall \<times> adapt_eff list" where
  "vox_adapt_apply_bitrate L M bitrate lc =
     (case lc_bc lc of
        None \<Rightarrow> (Some EINVAL, lc, [])
      | Some bc \<Rightarrow>
          (case me_format M of
             None \<Rightarrow> (Some ENOENT, lc, [])
           | Some (encupdh, params) \<Rightarrow>
               if \<not> encupdh then (Some ENOTSUP, lc, [])
               else
                 (case vox_adapt_fmtp_set_bitrate L 512 params bitrate of
                    Inl e \<Rightarrow> (Some e, lc, [])
                  | Inr fmtp \<Rightarrow>
                      (case me_encoder M of
                         Some e \<Rightarrow> (Some e, lc, [A_EncoderSet bc fmtp])
                       | None \<Rightarrow> (None, lc\<lparr>adapt_bitrate := bitrate\<rparr>, [A_EncoderSet bc fmtp])))))"

section \<open>Stalled media\<close>

definition VOX_MEDIA_SETUP_GRACE_MS :: u32 where "VOX_MEDIA_SETUP_GRACE_MS = 12000"

definition media_setup_pending :: "adapt_cfg \<Rightarrow> account option \<Rightarrow> media_env \<Rightarrow> vcall \<Rightarrow> bool" where
  "media_setup_pending C acct M lc =
     (if lc_bc lc = None then False
      else
        (let enc = (case acct of Some a \<Rightarrow> ac_media_enc (acfg a) | None \<Rightarrow> g_media_enc C)
         in if enc \<noteq> MENC_DTLS_SRTP then False else list_ex (\<lambda>secure. \<not> secure) (me_secure M)))"

text \<open>The numbers of a statistics sample that are read here.\<close>

record media_stats =
  packets_received :: u32
  packets_sent :: u32
  rtt_ms :: rat
  loss_pct :: rat

definition stall_alert :: "adapt_cfg \<Rightarrow> vcall \<Rightarrow> u32 \<Rightarrow> bool \<Rightarrow> adapt_eff" where
  "stall_alert C lc elapsed recovering =
     A_Post (EV_QUALITY_ALERT (Some (lc_handle lc)) QUALITY_MEDIA_STALL (f32_of_u32 elapsed) (f32_of_u32 (media_stall_ms C)) recovering)"

definition stall_clear :: "adapt_cfg \<Rightarrow> u32 \<Rightarrow> (vcall, adapt_eff) act" where
  "stall_clear C elapsed lc =
     (if \<not> stall_active lc then (lc, []) else (lc\<lparr>stall_active := False\<rparr>, [stall_alert C lc elapsed True]))"

definition stall_excused :: "media_env \<Rightarrow> vcall \<Rightarrow> bool" where
  "stall_excused M lc \<longleftrightarrow> lc_state lc = CALL_HELD \<or> local_hold lc \<or> me_onhold M \<or>
     net_mig_state lc = MIG_STALLED \<or> net_mig_state lc = MIG_WAIT_ADDR \<or> net_mig_state lc = MIG_DEFERRED \<or>
     net_mig_state lc = MIG_SENT"

definition stall_tick :: "adapt_cfg \<Rightarrow> account option \<Rightarrow> media_env \<Rightarrow> media_stats \<Rightarrow> (vcall, adapt_eff) act" where
  "stall_tick C acct M s lc =
     (if media_stall_ms C = 0 then (lc, [])
      else if stall_excused M lc then
        andthen (stall_clear C 0) (upd (\<lambda>x. x\<lparr>stall_rx_packets := packets_received s, stall_since := me_now M\<rparr>)) lc
      else if packets_received s \<noteq> stall_rx_packets lc then
        stall_clear C 0 (lc\<lparr>stall_rx_packets := packets_received s, stall_since := me_now M\<rparr>)
      else
        (let elapsed = ucast (me_now M - stall_since lc) :: u32
         in if \<not> stall_active lc \<and> media_stall_ms C \<le> elapsed then
              (if elapsed < VOX_MEDIA_SETUP_GRACE_MS \<and> media_setup_pending C acct M lc then (lc, [])
               else (lc\<lparr>stall_active := True\<rparr>, [stall_alert C lc elapsed False, A_CallStalled (lc_handle lc)]))
            else (lc, [])))"

section \<open>Bitrate steps\<close>

text \<open>The decision: the call's clean-tick count afterwards, and the rate to move to if any.\<close>

definition bitrate_decide :: "adapt_cfg \<Rightarrow> media_stats \<Rightarrow> vcall \<Rightarrow> vcall \<times> u32 option" where
  "bitrate_decide C s lc =
     (let min_br = adapt_min_br C; max_br = adapt_max_br C;
          cur = (if adapt_bitrate lc \<noteq> 0 then adapt_bitrate lc else max_br)
      in if adapt_down_pct C < loss_pct s then
           (let next = (if cur div 2 < min_br then min_br else cur div 2)
            in (lc\<lparr>adapt_clean_ticks := 0\<rparr>, if next = cur then None else Some next))
         else if loss_pct s \<le> adapt_up_pct C then
           (let lc1 = lc\<lparr>adapt_clean_ticks := adapt_clean_ticks lc + 1\<rparr>
            in if adapt_clean_ticks lc1 < adapt_recover_ticks C then (lc1, None)
               else
                 (let next = (if max_br < cur + cur div 4 then max_br else cur + cur div 4)
                  in (lc1\<lparr>adapt_clean_ticks := 0\<rparr>, if next = cur then None else Some next)))
         else (lc\<lparr>adapt_clean_ticks := 0\<rparr>, None))"

definition bitrate_tick :: "libre \<Rightarrow> adapt_cfg \<Rightarrow> media_env \<Rightarrow> media_stats \<Rightarrow> (vcall, adapt_eff) act" where
  "bitrate_tick L C M s lc =
     (if \<not> adaptive_bitrate C then (lc, [])
      else if packets_sent s = 0 \<or> rtt_ms s \<le> 0 then (lc, [])
      else
        (case bitrate_decide C s lc of
           (lc1, None) \<Rightarrow> (lc1, [])
         | (lc1, Some next) \<Rightarrow> snd (vox_adapt_apply_bitrate L M next lc1)))"

section \<open>Entry points\<close>

definition vox_adapt_call_start :: "u64 \<Rightarrow> vcall \<Rightarrow> vcall" where
  "vox_adapt_call_start now lc = lc\<lparr>adapt_bitrate := 0, adapt_clean_ticks := 0, stall_active := False,
     stall_rx_packets := 0, stall_since := now\<rparr>"

definition vox_adapt_tick :: "libre \<Rightarrow> adapt_cfg \<Rightarrow> account option \<Rightarrow> media_env \<Rightarrow> media_stats \<Rightarrow> (vcall, adapt_eff) act" where
  "vox_adapt_tick L C acct M s lc =
     (if lc_bc lc = None then (lc, []) else andthen (stall_tick C acct M s) (bitrate_tick L C M s) lc)"

definition set_bitrate_fn :: "libre \<Rightarrow> media_env \<Rightarrow> u32 \<Rightarrow> vcall \<Rightarrow> vox_error \<times> vcall \<times> adapt_eff list" where
  "set_bitrate_fn L M bitrate lc =
     (case vox_adapt_apply_bitrate L M bitrate lc of
        (err, r) \<Rightarrow>
          (case err of
             None \<Rightarrow> VOX_OK
           | Some EINVAL \<Rightarrow> ERR_INVAL
           | Some ENOENT \<Rightarrow> ERR_STATE
           | Some ENOTSUP \<Rightarrow> ERR_STATE
           | Some _ \<Rightarrow> ERR_TRANSPORT, r))"

definition voxsdk_call_set_bitrate :: "libre \<Rightarrow> media_env \<Rightarrow> vox_error \<Rightarrow> u32 \<Rightarrow> vcall option \<Rightarrow> vox_error \<times> vcall option \<times> adapt_eff list" where
  "voxsdk_call_set_bitrate L M dispatched bitrate_bps call =
     (case call of
        None \<Rightarrow> (ERR_INVAL, None, [])
      | Some lc \<Rightarrow>
          if bitrate_bps \<noteq> 0 \<and> (bitrate_bps < VOX_ADAPT_BR_MIN \<or> VOX_ADAPT_BR_MAX < bitrate_bps) then (ERR_INVAL, call, [])
          else if dispatched \<noteq> VOX_OK then (dispatched, call, [])
          else (case set_bitrate_fn L M bitrate_bps lc of (r, lc', es) \<Rightarrow> (r, Some lc', es)))"

definition set_adaptive_fn :: "bool \<Rightarrow> u32 \<Rightarrow> u32 \<Rightarrow> adapt_cfg \<Rightarrow> adapt_cfg" where
  "set_adaptive_fn enabled min_bps max_bps C =
     C\<lparr>adaptive_bitrate := enabled,
       adapt_min_bitrate := (if min_bps \<noteq> 0 then min_bps else adapt_min_bitrate C),
       adapt_max_bitrate := (if max_bps \<noteq> 0 then max_bps else adapt_max_bitrate C)\<rparr>"


section \<open>The parameters as a list\<close>

fun tokens :: "string \<Rightarrow> string list" where
  "tokens [] = [[]]"
| "tokens (c # cs) = (if c = CHR '';'' then [] # tokens cs else (case tokens cs of [] \<Rightarrow> [[c]] | t # ts \<Rightarrow> (c # t) # ts))"

fun join_semi :: "string list \<Rightarrow> string" where
  "join_semi [] = []"
| "join_semi [t] = t"
| "join_semi (t # ts) = t @ '';'' @ join_semi ts"

definition is_rate :: "string \<Rightarrow> bool" where
  "is_rate t \<longleftrightarrow> starts_with_ci fmtp_key t \<and> (length t = length fmtp_key \<or> t ! length fmtp_key = CHR ''='')"

definition kept :: "string \<Rightarrow> string list" where
  "kept p = filter (\<lambda>t. t \<noteq> [] \<and> \<not> is_rate t) (tokens p)"

definition rate_param :: "u32 \<Rightarrow> string" where
  "rate_param b = fmtp_key @ ''='' @ show_nat (unat b)"

lemma tokens_nonempty [simp]: "tokens p \<noteq> []"
  by (cases p) (auto split: list.splits)

lemma tokens_other [simp]: "c \<noteq> CHR '';'' \<Longrightarrow> tokens (c # cs) = (c # hd (tokens cs)) # tl (tokens cs)"
  by (auto split: list.splits)

declare tokens.simps(2) [simp del]

lemma tokens_semi [simp]: "tokens (CHR '';'' # cs) = [] # tokens cs"
  by (simp add: tokens.simps)

lemma tokens_strchr:
  "tokens p = (case strchr (CHR '';'') p of None \<Rightarrow> [p] | Some i \<Rightarrow> take i p # tokens (drop (Suc i) p))"
proof (induction p)
  case (Cons c p)
  then show ?case by (cases "c = CHR '';''") (auto split: option.splits)
qed simp

lemma starts_with_ci_length: "starts_with_ci k t \<Longrightarrow> length k \<le> length t"
  by (metis length_lower length_take min.absorb_iff2 starts_with_ci_def min.commute)

lemma fmtp_keeps_token: "len \<le> length p \<Longrightarrow> fmtp_keeps p len \<longleftrightarrow> take len p \<noteq> [] \<and> \<not> is_rate (take len p)"
proof -
  assume l: "len \<le> length p"
  have "starts_with_ci fmtp_key (take len p) \<longleftrightarrow> length fmtp_key \<le> len \<and> starts_with_ci fmtp_key p"
    using l starts_with_ci_length [of fmtp_key "take len p"]
    by (cases "length fmtp_key \<le> len") (auto simp: starts_with_ci_def min_def split: if_splits)
  then show ?thesis using l by (auto simp: fmtp_keeps_def is_rate_def)
qed

definition add_token :: "string \<Rightarrow> string \<Rightarrow> string" where
  "add_token buf t = (if buf \<noteq> [] then buf @ '';'' else buf) @ t"

lemma fmtp_loop_tokens:
  "fmtp_loop sz p buf =
     (case tokens p of
        t # ts \<Rightarrow>
          if p = [] then Inr buf
          else if t \<noteq> [] \<and> \<not> is_rate t then
            (if sz < length buf + length t + 2 then Inl EINVAL
             else fmtp_loop sz (drop (Suc (length t)) p) (add_token buf t))
          else fmtp_loop sz (drop (Suc (length t)) p) buf)"
proof (cases "strchr (CHR '';'') p")
  case None
  then show ?thesis
    using tokens_strchr [of p] fmtp_keeps_token [of "length p" p]
    by (subst fmtp_loop.simps) (simp add: Let_def add_token_def)
next
  case (Some i)
  then have i: "i < length p" by (rule strchr_Some_less)
  then show ?thesis
    using Some tokens_strchr [of p] fmtp_keeps_token [of i p]
    by (subst fmtp_loop.simps) (simp add: Let_def add_token_def min_def)
qed

lemma tokens_rest:
  "p \<noteq> [] \<Longrightarrow> tokens p = t # ts \<Longrightarrow> filter (\<lambda>t. t \<noteq> [] \<and> \<not> is_rate t) ts = kept (drop (Suc (length t)) p)"
  using tokens_strchr [of p] strchr_Some_less [of "CHR '';''" p]
  by (auto simp: kept_def min_def split: option.splits)

lemma length_fold_add: "length buf \<le> length (fold (\<lambda>t b. add_token b t) ts buf)"
proof (induction ts arbitrary: buf)
  case (Cons t ts)
  have "length buf \<le> length (add_token buf t)" by (simp add: add_token_def)
  also have "\<dots> \<le> length (fold (\<lambda>t b. add_token b t) ts (add_token buf t))" by (rule Cons)
  finally show ?case by simp
qed simp

lemma fmtp_loop_fits:
  "length (fold (\<lambda>t b. add_token b t) (kept p) buf) + 2 \<le> sz \<Longrightarrow>
   fmtp_loop sz p buf = Inr (fold (\<lambda>t b. add_token b t) (kept p) buf)"
proof (induction "length p" arbitrary: p buf rule: less_induct)
  case less
  obtain t ts where t: "tokens p = t # ts" by (cases "tokens p") auto
  show ?case
  proof (cases "p = []")
    case True
    then show ?thesis by (simp add: fmtp_loop_tokens [of sz "[]"] kept_def)
  next
    case False
    let ?r = "drop (Suc (length t)) p"
    have r: "length ?r < length p" using False by (cases p) auto
    have k: "kept p = (if t \<noteq> [] \<and> \<not> is_rate t then t # kept ?r else kept ?r)"
      using tokens_rest [OF False t] t by (simp add: kept_def [of p])
    show ?thesis
    proof (cases "t \<noteq> [] \<and> \<not> is_rate t")
      case True
      have "length (add_token buf t) + 2 \<le> sz"
        using less.prems length_fold_add [of "add_token buf t" "kept ?r"] k True by simp
      then have "\<not> sz < length buf + length t + 2" by (simp add: add_token_def split: if_splits)
      then show ?thesis
        using less.hyps [OF r, of "add_token buf t"] less.prems k True t False
        by (simp add: fmtp_loop_tokens [of sz p])
    next
      case f: False
      then show ?thesis using less.hyps [OF r, of buf] less.prems k t False
        by (auto simp: fmtp_loop_tokens [of sz p])
    qed
  qed
qed


lemma add_token_simps [simp]: "add_token [] t = t" "buf \<noteq> [] \<Longrightarrow> add_token buf t = buf @ CHR '';'' # t"
  by (simp_all add: add_token_def)

lemma join_semi_merge: "join_semi ((buf @ CHR '';'' # t) # ts) = buf @ CHR '';'' # join_semi (t # ts)"
  by (cases ts) simp_all

lemma fold_add_buf: "buf \<noteq> [] \<Longrightarrow> fold (\<lambda>t b. add_token b t) ts buf = join_semi (buf # ts)"
  by (induction ts arbitrary: buf) (simp_all add: join_semi_merge)

lemma fold_add_join: "[] \<notin> set ts \<Longrightarrow> fold (\<lambda>t b. add_token b t) ts [] = join_semi ts"
  by (cases ts) (auto simp: fold_add_buf)

lemma kept_no_empty [simp]: "[] \<notin> set (kept p)"
  by (simp add: kept_def)

lemma join_semi_Nil: "[] \<notin> set ts \<Longrightarrow> join_semi ts = [] \<longleftrightarrow> ts = []"
  by (cases ts rule: join_semi.cases) auto

lemma join_semi_snoc: "join_semi (ts @ [t]) = (if ts = [] then t else join_semi ts @ '';'' @ t)"
  by (induction ts rule: join_semi.induct) simp_all

definition rate_params :: "u32 \<Rightarrow> string list" where
  "rate_params b = (if b = 0 then [] else [rate_param b])"

text \<open>The rewriting as a function on the list of parameters.\<close>

lemma fmtp_set_spec:
  assumes "libre_laws L" and "length (join_semi (kept src @ rate_params b)) + 2 \<le> sz"
  shows "vox_adapt_fmtp_set_bitrate L sz (Some src) b = Inr (join_semi (kept src @ rate_params b))"
proof -
  let ?k = "join_semi (kept src)"
  have l: "length ?k \<le> length (join_semi (kept src @ rate_params b))"
    by (simp add: rate_params_def join_semi_snoc)
  have "fmtp_loop sz src [] = Inr ?k"
    using fmtp_loop_fits [of src "[]" sz] l assms(2) by (simp add: fold_add_join)
  moreover have "b \<noteq> 0 \<Longrightarrow> length ((if ?k \<noteq> [] then '';'' else []) @ rate_param b) < sz - length ?k"
    using assms(2) by (simp add: rate_params_def join_semi_snoc join_semi_Nil split: if_splits)
  ultimately show ?thesis
    using assms(2) libre_snprintf_fits [OF assms(1)]
    by (auto simp: vox_adapt_fmtp_set_bitrate_def rate_params_def rate_param_def join_semi_snoc join_semi_Nil)
qed

lemma tokens_prefix: "CHR '';'' \<notin> set t \<Longrightarrow> tokens (t @ p) = (t @ hd (tokens p)) # tl (tokens p)"
  by (induction t) auto

lemma tokens_join: "ts \<noteq> [] \<Longrightarrow> \<forall>t \<in> set ts. CHR '';'' \<notin> set t \<Longrightarrow> tokens (join_semi ts) = ts"
proof (induction ts rule: join_semi.induct)
  case (2 t)
  then show ?case using tokens_prefix [of t "[]"] by simp
qed (simp_all add: tokens_prefix)

lemma tokens_no_semi: "t \<in> set (tokens p) \<Longrightarrow> CHR '';'' \<notin> set t"
proof (induction p arbitrary: t)
  case (Cons c p)
  have "hd (tokens p) \<in> set (tokens p)" "set (tl (tokens p)) \<subseteq> set (tokens p)"
    by (simp_all add: list.set_sel(2) subsetI)
  then show ?case using Cons by (cases "c = CHR '';''") auto
qed simp

lemma rate_param_props: "CHR '';'' \<notin> set (rate_param b)" "is_rate (rate_param b)" "rate_param b \<noteq> []"
proof -
  have "CHR '';'' \<notin> set (show_nat n)" for n using show_nat_digits [of n] by (auto simp: is_digit_def)
  then show "CHR '';'' \<notin> set (rate_param b)" by (simp add: rate_param_def fmtp_key_def)
  show "is_rate (rate_param b)" by (simp add: is_rate_def rate_param_def starts_with_ci_def nth_append)
  show "rate_param b \<noteq> []" by (simp add: rate_param_def fmtp_key_def)
qed

lemma kept_again: "kept (join_semi (kept src @ rate_params b)) = kept src"
proof (cases "kept src @ rate_params b = []")
  case False
  have k: "\<forall>t \<in> set (kept src). CHR '';'' \<notin> set t" by (auto simp: kept_def dest: tokens_no_semi)
  then have "\<forall>t \<in> set (kept src @ rate_params b). CHR '';'' \<notin> set t"
    by (auto simp: rate_params_def rate_param_props split: if_splits)
  from tokens_join [OF False this] show ?thesis
    by (auto simp: kept_def rate_params_def rate_param_props)
qed (simp add: kept_def [of "[]"])

section \<open>The range of the bitrate\<close>

definition rate_ok :: "adapt_cfg \<Rightarrow> vcall \<Rightarrow> bool" where
  "rate_ok C lc \<longleftrightarrow> adapt_bitrate lc = 0 \<or> (adapt_min_br C \<le> adapt_bitrate lc \<and> adapt_bitrate lc \<le> adapt_max_br C)"

lemma br_range:
  assumes "adapt_min_br C \<le> VOX_ADAPT_BR_MAX"
  shows "adapt_min_br C \<le> adapt_max_br C" and "adapt_max_br C \<le> VOX_ADAPT_BR_MAX"
  using assms by (auto simp: adapt_max_br_def Let_def not_less)

lemma quarter_up:
  fixes c :: u32
  assumes "c \<le> VOX_ADAPT_BR_MAX"
  shows "c \<le> c + c div 4"
proof -
  have "unat c \<le> 510000" using assms by (simp add: VOX_ADAPT_BR_MAX_def word_le_nat_alt)
  then have "unat (c + c div 4) = unat c + unat c div 4"
    by (simp add: unat_word_ariths(1) unat_div)
  then show ?thesis by (simp add: word_le_nat_alt)
qed

lemma decide_range:
  assumes "adapt_min_br C \<le> VOX_ADAPT_BR_MAX" and "rate_ok C lc" and "bitrate_decide C s lc = (lc1, next)"
  shows "adapt_bitrate lc1 = adapt_bitrate lc \<and> lc_bc lc1 = lc_bc lc"
    and "next = Some n \<Longrightarrow> adapt_min_br C \<le> n \<and> n \<le> adapt_max_br C"
proof -
  note r = br_range [OF assms(1)]
  define cur where "cur = (if adapt_bitrate lc \<noteq> 0 then adapt_bitrate lc else adapt_max_br C)"
  have c: "adapt_min_br C \<le> cur" "cur \<le> adapt_max_br C" using assms(2) r(1) by (auto simp: rate_ok_def cur_def)
  have half: "cur div 2 \<le> adapt_max_br C" using c(2) by (simp add: word_le_nat_alt unat_div)
  have up: "adapt_min_br C \<le> cur + cur div 4" using quarter_up [of cur] c r(2) by (auto intro: order_trans)
  show "adapt_bitrate lc1 = adapt_bitrate lc \<and> lc_bc lc1 = lc_bc lc"
    using assms(3) by (auto simp: bitrate_decide_def Let_def split: if_splits)
  show "next = Some n \<Longrightarrow> adapt_min_br C \<le> n \<and> n \<le> adapt_max_br C"
    using assms(3) half up r(1) unfolding bitrate_decide_def Let_def cur_def [symmetric]
    by (auto simp: not_less split: if_splits)
qed

lemma apply_rate:
  "adapt_bitrate (fst (snd (vox_adapt_apply_bitrate L M b lc))) \<in> {b, adapt_bitrate lc}"
  by (auto simp: vox_adapt_apply_bitrate_def split: option.splits sum.splits prod.splits)

lemma stall_tick_rate [simp]: "adapt_bitrate (fst (stall_tick C acct M s lc)) = adapt_bitrate lc"
  by (simp add: stall_tick_def stall_clear_def Let_def)

lemma bitrate_tick_range:
  assumes "adapt_min_br C \<le> VOX_ADAPT_BR_MAX" and "rate_ok C lc"
  shows "rate_ok C (fst (bitrate_tick L C M s lc))"
proof -
  obtain lc1 nx where d: "bitrate_decide C s lc = (lc1, nx)" by fastforce
  note r = decide_range [OF assms d]
  show ?thesis
  proof (cases nx)
    case None
    then show ?thesis using assms(2) d r(1) by (simp add: bitrate_tick_def rate_ok_def)
  next
    case (Some n)
    then show ?thesis using assms(2) d r(1) r(2) [OF Some] apply_rate [of L M n lc1]
      by (auto simp: bitrate_tick_def rate_ok_def)
  qed
qed

type_synonym adapt_in = "account option \<times> media_env \<times> media_stats"

definition adapt_step :: "libre \<Rightarrow> adapt_cfg \<Rightarrow> adapt_in \<Rightarrow> (vcall, adapt_eff) act" where
  "adapt_step L C x = (case x of (acct, M, s) \<Rightarrow> vox_adapt_tick L C acct M s)"

interpretation rate: invariant_machine "adapt_step L C" "\<lambda>_ _. True"
  "\<lambda>lc. adapt_min_br C \<le> VOX_ADAPT_BR_MAX \<and> rate_ok C lc" for L C
proof
  fix lc :: vcall and i :: adapt_in
  assume a: "adapt_min_br C \<le> VOX_ADAPT_BR_MAX \<and> rate_ok C lc"
  obtain acct M s where i: "i = (acct, M, s)" by (cases i) auto
  have "rate_ok C (fst (stall_tick C acct M s lc))" using a by (simp add: rate_ok_def)
  with a show "adapt_min_br C \<le> VOX_ADAPT_BR_MAX \<and> rate_ok C (fst (adapt_step L C i lc))"
    by (simp add: adapt_step_def i vox_adapt_tick_def bitrate_tick_range)
qed

section \<open>The alerts of a stall\<close>

fun stall_alerts :: "adapt_eff list \<Rightarrow> bool list" where
  "stall_alerts [] = []"
| "stall_alerts (A_Post (EV_QUALITY_ALERT c QUALITY_MEDIA_STALL v t recovering) # es) = recovering # stall_alerts es"
| "stall_alerts (_ # es) = stall_alerts es"

lemma stall_alerts_append [simp]: "stall_alerts (es @ es') = stall_alerts es @ stall_alerts es'"
  by (induction es rule: stall_alerts.induct) simp_all

text \<open>Alerts that alternate, given whether one is outstanding at the start.\<close>

fun alternates :: "bool \<Rightarrow> bool list \<Rightarrow> bool" where
  "alternates active [] = True"
| "alternates active (r # rs) = (r = active \<and> alternates (\<not> active) rs)"

fun after_alerts :: "bool \<Rightarrow> bool list \<Rightarrow> bool" where
  "after_alerts active [] = active"
| "after_alerts active (r # rs) = after_alerts (\<not> active) rs"

lemma alternates_append: "alternates a (xs @ ys) = (alternates a xs \<and> alternates (after_alerts a xs) ys)"
  by (induction xs arbitrary: a) auto

lemma after_append: "after_alerts a (xs @ ys) = after_alerts (after_alerts a xs) ys"
  by (induction xs arbitrary: a) auto

lemma bitrate_tick_quiet:
  "stall_active (fst (bitrate_tick L C M s lc)) = stall_active lc" "stall_alerts (snd (bitrate_tick L C M s lc)) = []"
  by (auto simp: bitrate_tick_def bitrate_decide_def vox_adapt_apply_bitrate_def Let_def
      split: option.splits sum.splits prod.splits if_splits)

lemma step_alerts:
  "alternates (stall_active lc) (stall_alerts (snd (adapt_step L C i lc))) \<and>
   stall_active (fst (adapt_step L C i lc)) = after_alerts (stall_active lc) (stall_alerts (snd (adapt_step L C i lc)))"
  by (cases i) (auto simp: adapt_step_def vox_adapt_tick_def bitrate_tick_quiet stall_tick_def stall_clear_def stall_alert_def Let_def)

lemma run_alerts:
  "alternates (stall_active lc) (stall_alerts (snd (run_acts (adapt_step L C) xs lc))) \<and>
   stall_active (fst (run_acts (adapt_step L C) xs lc))
     = after_alerts (stall_active lc) (stall_alerts (snd (run_acts (adapt_step L C) xs lc)))"
proof (induction xs arbitrary: lc)
  case (Cons x xs)
  show ?case using step_alerts [of lc L C x] Cons.IH [of "fst (adapt_step L C x lc)"]
    by (simp add: alternates_append after_append)
qed simp

section \<open>Properties\<close>

text \<open>
  C31: Rewriting the codec parameters replaces the bitrate and nothing else. The in-place loop
  computes the list of parameters without the empty ones and without \<open>maxaveragebitrate\<close> (in
  any case, with or without a value), in order, with the new bitrate at its end; rewriting the
  result again with another bitrate is rewriting the original with it, so repeated adaptation
  neither drops a negotiated flag nor lets the string grow.
\<close>

theorem fmtp_rewrite_exact:
  assumes "libre_laws L"
    and "length (join_semi (kept src @ rate_params b1)) + 2 \<le> sz"
    and "length (join_semi (kept src @ rate_params b2)) + 2 \<le> sz"
  shows "vox_adapt_fmtp_set_bitrate L sz (Some src) b1 = Inr (join_semi (kept src @ rate_params b1)) \<and>
    vox_adapt_fmtp_set_bitrate L sz (Some (join_semi (kept src @ rate_params b1))) b2
      = vox_adapt_fmtp_set_bitrate L sz (Some src) b2"
  using fmtp_set_spec [OF assms(1,2)] fmtp_set_spec [OF assms(1,3)]
    fmtp_set_spec [OF assms(1), of "join_semi (kept src @ rate_params b1)" b2 sz] assms(3)
  by (simp add: kept_again)

theorem fmtp_rewrite_exact_witness:
  "vox_adapt_fmtp_set_bitrate libre_ref 512 (Some '';usedtx=1;;MaxAverageBitrate=32000;useinbandfec=1'') 12000
     = Inr ''usedtx=1;useinbandfec=1;maxaveragebitrate=12000''"
proof -
  let ?s = "'';usedtx=1;;MaxAverageBitrate=32000;useinbandfec=1''"
  have "kept ?s = [''usedtx=1'', ''useinbandfec=1'']" by code_simp
  moreover have "rate_param 12000 = ''maxaveragebitrate=12000''"
    by (simp add: rate_param_def fmtp_key_def show_nat.simps) code_simp
  ultimately have e: "join_semi (kept ?s @ rate_params 12000) = ''usedtx=1;useinbandfec=1;maxaveragebitrate=12000''"
    by (simp add: rate_params_def)
  from fmtp_rewrite_exact [OF libre_ref_laws, of ?s 12000 512 12000] show ?thesis unfolding e by simp
qed


text \<open>
  Adaptation keeps the bitrate in its range. However the loss moves, an established call's
  applied bitrate is either untouched or between the configured minimum and maximum (with their
  defaults and the codec's limits), without wrap-around in the steps, as long as the configured
  minimum is one the codec accepts.
\<close>

theorem adapted_rate_in_range:
  assumes "adapt_min_br C \<le> VOX_ADAPT_BR_MAX" and "lc' = fst (run_acts (adapt_step L C) xs (vox_adapt_call_start now lc))"
  shows "adapt_bitrate lc' = 0 \<or>
    (adapt_min_br C \<le> adapt_bitrate lc' \<and> adapt_bitrate lc' \<le> adapt_max_br C \<and> adapt_max_br C \<le> VOX_ADAPT_BR_MAX)"
  using rate.run_inv_always [OF TrueI, of C "vox_adapt_call_start now lc" L xs] assms br_range [OF assms(1)]
  by (simp add: rate_ok_def vox_adapt_call_start_def)

definition adapt_cfg0 :: adapt_cfg where
  "adapt_cfg0 = \<lparr>adaptive_bitrate = True, adapt_min_bitrate = 12000, adapt_max_bitrate = 32000, adapt_loss_down_pct = 5,
     adapt_loss_up_pct = 1, adapt_recover_ticks_cfg = 5, media_stall_ms = 4000, g_media_enc = MENC_NONE\<rparr>"

definition lossy :: adapt_in where
  "lossy = (None, \<lparr>me_format = Some (True, Some ''usedtx=1''), me_encoder = None, me_onhold = False, me_secure = [],
      me_now = 1000\<rparr>, \<lparr>packets_received = 1, packets_sent = 9, rtt_ms = 50, loss_pct = 12\<rparr>)"

theorem adapted_rate_in_range_witness:
  "adapt_min_br adapt_cfg0 = 12000 \<and> adapt_max_br adapt_cfg0 = 32000 \<and>
   (let b = adapt_bitrate (fst (run_acts (adapt_step libre_ref adapt_cfg0) [lossy, lossy] (vox_adapt_call_start 0 (dialling 1 0))))
    in b = 0 \<or> (12000 \<le> b \<and> b \<le> 32000))"
proof -
  have m: "adapt_min_br adapt_cfg0 = 12000" "adapt_max_br adapt_cfg0 = 32000"
    by (simp_all add: adapt_min_br_def adapt_max_br_def adapt_cfg0_def VOX_ADAPT_BR_MIN_def VOX_ADAPT_BR_MAX_def)
  have "adapt_min_br adapt_cfg0 \<le> VOX_ADAPT_BR_MAX" by (simp add: m VOX_ADAPT_BR_MAX_def)
  from adapted_rate_in_range [OF this refl, of libre_ref "[lossy, lossy]" 0 "dialling 1 0"] show ?thesis
    by (auto simp: m Let_def)
qed

text \<open>
  A stall is reported once and its end once. In any run of statistics ticks over a call,
  through holds, handovers and silent stretches, the media-stall alerts alternate between
  onset and recovery, starting with the onset for a fresh call, and the call's flag says at
  every moment whether an onset is outstanding.
\<close>

theorem stall_alerts_alternate:
  "alternates False (stall_alerts (snd (run_acts (adapt_step L C) xs (vox_adapt_call_start now lc)))) \<and>
   stall_active (fst (run_acts (adapt_step L C) xs (vox_adapt_call_start now lc)))
     = odd (length (stall_alerts (snd (run_acts (adapt_step L C) xs (vox_adapt_call_start now lc)))))"
proof -
  have "after_alerts a rs = (if odd (length rs) then \<not> a else a)" for a rs
    by (induction rs arbitrary: a) auto
  then show ?thesis using run_alerts [of "vox_adapt_call_start now lc" L C xs] by (simp add: vox_adapt_call_start_def)
qed

text \<open>
  C39: Two places forget the global media encryption. An account without one of its own runs
  with the global one, which \<open>configure_baresip_account\<close> sets on the stack; but the stall
  detector's test for a handshake that is still running reads the account's field alone, so
  such a call is reported as stalled while its DTLS handshake is under way.
\<close>

theorem global_encryption_ignored:
  "let a = account_zero 1 acct_cfg_zero; G = voxsdk_config_init\<lparr>vc_media_enc := MENC_DTLS_SRTP\<rparr>
   in acct_media_enc G a = MENC_DTLS_SRTP \<and>
      \<not> media_setup_pending (adapt_cfg0\<lparr>g_media_enc := MENC_DTLS_SRTP\<rparr>) (Some a)
          \<lparr>me_format = None, me_encoder = None, me_onhold = False, me_secure = [False], me_now = 0\<rparr> (dialling 1 0)"
  by (simp add: acct_media_enc_def account_zero_def acct_cfg_zero_def voxsdk_config_init_def media_setup_pending_def)

end
