(* ===== verification/Vox_Bevent.thy ===== *)
theory Vox_Bevent
  imports Vox_Adapt
begin

text \<open>
  \<open>bevent_handler\<close> of \<^verbatim>\<open>src/event.c\<close>: what the SDK makes of each event of the SIP stack, for
  accounts and calls, with the SDP reports of \<^verbatim>\<open>src/sdp.c\<close> and the transfer requests of
  \<^verbatim>\<open>src/transfer.c\<close> it hands on to. The functions of other files that a branch calls and that
  do not change accounts or calls here (the final statistics, the network monitor's hooks, the
  message-waiting parser) are effects.
\<close>

section \<open>State, environment, effects\<close>

record vox =
  v_db :: acct_db
  v_calls :: calls

text \<open>
  Beside the account environment: the time, the address of a new call wrapper (\<open>None\<close> when
  there is no memory), whether the event queue has room, and what the stack reports of the
  call (peer URI, encoder name).
\<close>

record bev_env =
  be_acct :: env
  be_now :: u64
  be_wrapper :: "call_id option"
  be_post_ok :: bool
  be_peeruri :: cptr
  be_codec :: cptr
  be_found_ua :: bool

datatype bev_eff =
    B_Post "cptr event" "call_id option"
  | B_Acct acct_id acct_eff
  | B_Accept
  | B_StatsFinal call_id
  | B_Refreshable call_id
  | B_SdpAnswer call_id
  | B_Mwi
  | B_CallFree call_id

datatype bevent =
    BEV_SIPSESS_CONN bool
  | BEV_REGISTERING | BEV_REGISTER_OK | BEV_FALLBACK_OK
  | BEV_REGISTER_FAIL cptr | BEV_FALLBACK_FAIL cptr
  | BEV_UNREGISTERING
  | BEV_CALL_INCOMING | BEV_CALL_RINGING | BEV_CALL_PROGRESS | BEV_CALL_ANSWERED | BEV_CALL_ESTABLISHED
  | BEV_CALL_CLOSED cptr | BEV_CALL_HOLD | BEV_CALL_RESUME
  | BEV_CALL_DTMF_START cptr | BEV_CALL_DTMF_END cptr
  | BEV_CALL_LOCAL_SDP cptr | BEV_CALL_REMOTE_SDP cptr
  | BEV_CALL_TRANSFER cptr | BEV_REFER cptr | BEV_CALL_TRANSFER_FAILED cptr
  | BEV_MWI_NOTIFY
  | BEV_CREATE | BEV_CALL_OUTGOING | BEV_CALL_RTPESTAB | BEV_CALL_RTCP | BEV_CALL_MENC
  | BEV_other

type_synonym bev_act = "(vox, bev_eff) act"

text \<open>A handler of one account, run on the account of the event, and a write to a call.\<close>

definition on_account :: "account \<Rightarrow> handler \<Rightarrow> bev_act" where
  "on_account a f st =
     (case acct_apply (handle a) f (v_db st) of
        (db, es) \<Rightarrow> (st\<lparr>v_db := db\<rparr>, concat (map (\<lambda>e. case e of Api_acct h x \<Rightarrow> [B_Acct h x] | _ \<Rightarrow> []) es)))"

definition on_call :: "vcall option \<Rightarrow> (vcall \<Rightarrow> vcall) \<Rightarrow> vox \<Rightarrow> vox" where
  "on_call lc f st = (case lc of None \<Rightarrow> st | Some c \<Rightarrow> st\<lparr>v_calls := call_write (lc_handle c) f (v_calls st)\<rparr>)"

definition post :: "cptr event \<Rightarrow> bev_act" where
  "post ev = emit (B_Post ev None)"

section \<open>Registration branches\<close>

text \<open>For a user agent without an account the event goes out all the same.\<close>

definition bev_registration :: "account option \<Rightarrow> handler \<Rightarrow> cptr reg_ev list \<Rightarrow> bev_act" where
  "bev_registration acct f anonymous =
     (case acct of
        Some a \<Rightarrow> on_account a f
      | None \<Rightarrow> (\<lambda>st. (st, map (\<lambda>r. B_Post (EV_REG_STATE r) None) anonymous)))"

definition bev_reg_fail :: "libre \<Rightarrow> vox_cfg \<Rightarrow> bev_env \<Rightarrow> account option \<Rightarrow> cptr \<Rightarrow> bev_act" where
  "bev_reg_fail L G B acct reason =
     bev_registration acct (bev_register_fail L G (be_acct B) reason)
       (if qev_ok (be_acct B)
        then [RegEv None REG_FAILED (reg_fail_error reason) 0 0 (map_option (lb_ncpy L 4096) reason)] else [])"

section \<open>Call branches\<close>

definition bev_incoming :: "libre \<Rightarrow> bev_env \<Rightarrow> acct_id option \<Rightarrow> nat \<Rightarrow> bev_act" where
  "bev_incoming L B acct bc st =
     (case vox_call_wrap_new (be_wrapper B) (\<lambda>_. True) (v_db st) bc acct CALL_RINGING False (v_calls st) of
        (None, _) \<Rightarrow> (st, [])
      | (Some lc, cs) \<Rightarrow>
          (let undo = (st\<lparr>v_calls := vox_call_unregister (lc_handle lc) cs\<rparr>, [B_CallFree (lc_handle lc)])
           in if \<not> qev_ok (be_acct B) then undo
              else if \<not> be_post_ok B then undo
              else (st\<lparr>v_calls := cs\<rparr>,
                    [B_Post (EV_INCOMING_CALL acct (Some (lc_handle lc)) (map_option (lb_ncpy L 4096) (be_peeruri B)) None) None])))"

definition handle_of :: "vcall option \<Rightarrow> call_id option" where
  "handle_of = map_option lc_handle"

definition call_state_event :: "acct_id option \<Rightarrow> vcall option \<Rightarrow> call_state \<Rightarrow> cptr event" where
  "call_state_event acct lc s = EV_CALL_STATE acct (handle_of lc) s VOX_OK None"

definition bev_established :: "bev_env \<Rightarrow> acct_id option \<Rightarrow> vcall option \<Rightarrow> bev_act" where
  "bev_established B acct lc st =
     (case lc of
        None \<Rightarrow> (st, [B_Post (call_state_event acct lc CALL_ESTABLISHED) None])
      | Some c \<Rightarrow>
          (on_call lc (\<lambda>x. vox_adapt_call_start (be_now B)
             (x\<lparr>lc_state := CALL_ESTABLISHED, stats_call_start := be_now B, setup_start := 0\<rparr>)) st,
           [B_Refreshable (lc_handle c), B_Post (call_state_event acct lc CALL_ESTABLISHED) None]))"

subsection \<open>The end of a call\<close>

definition close_transport_err :: "cptr \<Rightarrow> bool" where
  "close_transport_err reason =
     (case reason of
        None \<Rightarrow> False
      | Some r \<Rightarrow> sip_reason_code reason = 0 \<and>
          (case (strrchr (CHR ''['') r, strrchr (CHR '']'') r) of (Some i, Some j) \<Rightarrow> i < j | _ \<Rightarrow> False))"

definition close_peer_hangup :: "cptr \<Rightarrow> vcall option \<Rightarrow> bool" where
  "close_peer_hangup reason lc =
     (close_transport_err reason \<and> (case lc of Some c \<Rightarrow> lc_state c = CALL_ESTABLISHED | None \<Rightarrow> False))"

definition close_state :: "cptr \<Rightarrow> vcall option \<Rightarrow> call_state" where
  "close_state reason lc =
     (let scode = sip_reason_code reason
      in if scode = 487 then CALL_CANCELLED
         else if close_peer_hangup reason lc then CALL_ENDED
         else if 400 \<le> scode \<or> close_transport_err reason then CALL_FAILED
         else CALL_ENDED)"

definition close_error :: "cptr \<Rightarrow> vcall option \<Rightarrow> vox_error" where
  "close_error reason lc =
     (let scode = sip_reason_code reason
      in if scode = 401 \<or> scode = 403 \<or> scode = 407 then ERR_AUTH
         else if scode = 408 then ERR_TIMEOUT
         else if 500 \<le> scode \<and> scode < 600 then ERR_SERVER_5XX
         else if 400 \<le> scode then ERR_INVAL
         else if close_transport_err reason \<and> \<not> close_peer_hangup reason lc then ERR_TRANSPORT
         else VOX_OK)"

definition codec_reason_is_really_menc :: "vox_cfg \<Rightarrow> cptr \<Rightarrow> account option \<Rightarrow> bool" where
  "codec_reason_is_really_menc G reason acct =
     (case (reason, acct) of
        (Some r, Some a) \<Rightarrow>
          if strstr ''common audio'' r = None \<and> strstr ''common media'' r = None then False
          else (if ac_media_enc (acfg a) \<noteq> MENC_NONE then ac_media_enc (acfg a) else vc_media_enc G) = MENC_NONE
      | _ \<Rightarrow> False)"

definition menc_text :: string where
  "menc_text = ''No common media: this account offers unencrypted RTP and the peer requires encrypted media (set media_enc, e.g. DTLS-SRTP)''"

definition close_text :: "libre \<Rightarrow> vox_cfg \<Rightarrow> cptr \<Rightarrow> account option \<Rightarrow> vcall option \<Rightarrow> cptr" where
  "close_text L G reason acct lc =
     (if close_peer_hangup reason lc then Some (lb_ncpy L 4096 ''Remote hangup'')
      else if codec_reason_is_really_menc G reason acct then Some (lb_ncpy L 4096 menc_text)
      else map_option (lb_ncpy L 4096) reason)"

definition bev_closed :: "libre \<Rightarrow> vox_cfg \<Rightarrow> bev_env \<Rightarrow> cptr \<Rightarrow> account option \<Rightarrow> vcall option \<Rightarrow> bev_act" where
  "bev_closed L G B reason acct lc st =
     (let ev = EV_CALL_STATE (map_option handle acct) (handle_of lc) (close_state reason lc) (close_error reason lc)
                 (close_text L G reason acct lc)
      in (case lc of
            None \<Rightarrow> st
          | Some c \<Rightarrow>
              (let st1 = on_call lc (\<lambda>x. x\<lparr>lc_state := close_state reason lc, lc_bc := None\<rparr>) st
               in st1\<lparr>v_calls := vox_call_unregister (lc_handle c) (v_calls st1)\<rparr>),
          (case lc of None \<Rightarrow> [] | Some c \<Rightarrow> [B_StatsFinal (lc_handle c)])
          @ (if qev_ok (be_acct B) then [B_Post ev (handle_of lc)] else [])))"

subsection \<open>SDP and transfer\<close>

definition sdp_crypto :: "vox_cfg \<Rightarrow> account option \<Rightarrow> string" where
  "sdp_crypto G acct =
     (case (case acct of Some a \<Rightarrow> ac_media_enc (acfg a) | None \<Rightarrow> vc_media_enc G) of
        MENC_SDES \<Rightarrow> ''SDES'' | MENC_DTLS_SRTP \<Rightarrow> ''DTLS-SRTP'' | MENC_NONE \<Rightarrow> ''NONE'')"

definition nonempty :: "string \<Rightarrow> cptr" where
  "nonempty s = (if s \<noteq> [] then Some s else None)"

definition vox_sdp_handle_event :: "libre \<Rightarrow> vox_cfg \<Rightarrow> bev_env \<Rightarrow> bool \<Rightarrow> vcall option \<Rightarrow> bev_act" where
  "vox_sdp_handle_event L G B is_local lc st =
     (case lc of
        None \<Rightarrow> (st, [])
      | Some c \<Rightarrow>
          (let l = (local_sdp_set c \<or> is_local); r = (remote_sdp_set c \<or> \<not> is_local)
           in if \<not> l \<or> \<not> r then (on_call lc (\<lambda>x. x\<lparr>local_sdp_set := l, remote_sdp_set := r\<rparr>) st, [])
              else
                (on_call lc (\<lambda>x. x\<lparr>local_sdp_set := False, remote_sdp_set := False\<rparr>) st,
                 if \<not> qev_ok (be_acct B) then []
                 else
                   (let off = (case be_codec B of None \<Rightarrow> 0 | Some n \<Rightarrow> length n + 1)
                    in [B_Post (EV_SDP_NEGOTIATION (Some (lc_handle c)) (nonempty (local_sdp c)) (nonempty (remote_sdp c))
                          (map_option (lb_ncpy L 4096) (be_codec B))
                          (Some (lb_ncpy L (4096 - off) (sdp_crypto G (acct_of (v_db st) (lc_acct c)))))) None]))))"

definition vox_transfer_handle_event :: "libre \<Rightarrow> bev_env \<Rightarrow> cptr \<Rightarrow> acct_id option \<Rightarrow> vcall option \<Rightarrow> bev_act" where
  "vox_transfer_handle_event L B refer_to acct lc st =
     (if \<not> qev_ok (be_acct B) then (st, [])
      else
        (case refer_to of
           None \<Rightarrow> (st, [B_Post (EV_TRANSFER_REQUEST acct (handle_of lc) None False False) None])
         | Some t \<Rightarrow>
             (on_call lc (\<lambda>x. x\<lparr>xfer_refer_to := lb_ncpy L 256 t, xfer_pending := True\<rparr>) st,
              [B_Post (EV_TRANSFER_REQUEST acct (handle_of lc) (Some (lb_ncpy L 4096 t))
                 (strstr ''?Replaces='' t \<noteq> None \<or> strstr ''&Replaces='' t \<noteq> None) False) None])))"


section \<open>The handler\<close>

definition bev_simple :: "acct_id option \<Rightarrow> vcall option \<Rightarrow> call_state \<Rightarrow> bev_act" where
  "bev_simple acct lc s st =
     (on_call lc (\<lambda>x. x\<lparr>lc_state := s\<rparr>) st, [B_Post (call_state_event acct lc s) None])"

definition bev_dtmf :: "vcall option \<Rightarrow> cptr \<Rightarrow> bev_act" where
  "bev_dtmf lc digits st =
     (case digits of
        Some (d # _) \<Rightarrow> (st, [B_Post (EV_CALL_DTMF (handle_of lc) d) None])
      | _ \<Rightarrow> (st, []))"

definition bev_transfer_failed :: "libre \<Rightarrow> bev_env \<Rightarrow> cptr \<Rightarrow> acct_id option \<Rightarrow> vcall option \<Rightarrow> bev_act" where
  "bev_transfer_failed L B reason acct lc st =
     (st, [B_Post (EV_TRANSFER_FAILED acct (handle_of lc)
             (if qev_ok (be_acct B) then map_option (lb_ncpy L 4096) reason else None)) None])"

definition bev_sdp :: "libre \<Rightarrow> vox_cfg \<Rightarrow> bev_env \<Rightarrow> bool \<Rightarrow> cptr \<Rightarrow> vcall option \<Rightarrow> bev_act" where
  "bev_sdp L G B is_local param lc =
     andthen (vox_sdp_handle_event L G B is_local lc)
       (\<lambda>st. (st, case (lc, param) of
                    (Some c, Some p) \<Rightarrow> if \<not> is_local \<and> lb_casecmp L p ''answer'' = 0 then [B_SdpAnswer (lc_handle c)] else []
                  | _ \<Rightarrow> []))"

text \<open>
  The dispatch, for an event of the user agent \<open>ua\<close> and the stack call \<open>bc\<close> (\<open>None\<close> for NULL; the
  stack reports an incoming call with its call, so that branch has nothing to do for \<open>None\<close>). A
  connect event without a message falls out of the switch with the zeroed event still to be
  posted, which reads as a log event without a text.
\<close>

definition bevent_handler :: "libre \<Rightarrow> vox_cfg \<Rightarrow> bev_env \<Rightarrow> bevent \<Rightarrow> nat option \<Rightarrow> nat option \<Rightarrow> bev_act" where
  "bevent_handler L G B bev ev_ua bc st =
     (let acct = (case ev_ua of None \<Rightarrow> None | Some u \<Rightarrow> vox_account_find_by_ua u (v_db st));
          ah = map_option handle acct;
          lc = (case bc of None \<Rightarrow> None | Some b \<Rightarrow> vox_call_find b (v_calls st))
      in case bev of
           BEV_SIPSESS_CONN has_msg \<Rightarrow>
             if \<not> has_msg then (st, [B_Post (EV_LOG None) None])
             else (st, if be_found_ua B then [B_Accept] else [])
         | BEV_REGISTERING \<Rightarrow>
             bev_registration acct (bev_registering L (be_acct B)) [RegEv None REG_REGISTERING VOX_OK 0 0 None] st
         | BEV_REGISTER_OK \<Rightarrow> bev_registration acct (bev_register_ok G) [RegEv None REG_REGISTERED VOX_OK 0 0 None] st
         | BEV_FALLBACK_OK \<Rightarrow> bev_registration acct (bev_register_ok G) [RegEv None REG_REGISTERED VOX_OK 0 0 None] st
         | BEV_REGISTER_FAIL reason \<Rightarrow> bev_reg_fail L G B acct reason st
         | BEV_FALLBACK_FAIL reason \<Rightarrow> bev_reg_fail L G B acct reason st
         | BEV_UNREGISTERING \<Rightarrow> bev_registration acct bev_unregistering [RegEv None REG_UNREGISTERING VOX_OK 0 0 None] st
         | BEV_CALL_INCOMING \<Rightarrow> (case bc of None \<Rightarrow> (st, []) | Some b \<Rightarrow> bev_incoming L B ah b st)
         | BEV_CALL_RINGING \<Rightarrow> bev_simple ah lc CALL_RINGING st
         | BEV_CALL_PROGRESS \<Rightarrow> bev_simple ah lc CALL_RINGING st
         | BEV_CALL_ANSWERED \<Rightarrow> bev_established B ah lc st
         | BEV_CALL_ESTABLISHED \<Rightarrow> bev_established B ah lc st
         | BEV_CALL_CLOSED reason \<Rightarrow> bev_closed L G B reason acct lc st
         | BEV_CALL_HOLD \<Rightarrow> bev_simple ah lc CALL_HELD st
         | BEV_CALL_RESUME \<Rightarrow>
             (on_call lc (\<lambda>x. x\<lparr>lc_state := CALL_ESTABLISHED\<rparr>) st,
              (case lc of None \<Rightarrow> [] | Some c \<Rightarrow> [B_Refreshable (lc_handle c)])
              @ [B_Post (call_state_event ah lc CALL_ESTABLISHED) None])
         | BEV_CALL_DTMF_START digits \<Rightarrow> bev_dtmf lc digits st
         | BEV_CALL_DTMF_END digits \<Rightarrow> bev_dtmf lc digits st
         | BEV_CALL_LOCAL_SDP param \<Rightarrow> bev_sdp L G B True param lc st
         | BEV_CALL_REMOTE_SDP param \<Rightarrow> bev_sdp L G B False param lc st
         | BEV_CALL_TRANSFER refer_to \<Rightarrow> vox_transfer_handle_event L B refer_to ah lc st
         | BEV_REFER refer_to \<Rightarrow> vox_transfer_handle_event L B refer_to ah lc st
         | BEV_CALL_TRANSFER_FAILED reason \<Rightarrow> bev_transfer_failed L B reason ah lc st
         | BEV_MWI_NOTIFY \<Rightarrow> (st, [B_Mwi])
         | _ \<Rightarrow> (st, []))"


section \<open>Events that name a call\<close>

fun event_call :: "'s event \<Rightarrow> call_id option" where
  "event_call (EV_INCOMING_CALL a c f d) = c"
| "event_call (EV_CALL_STATE a c st err r) = c"
| "event_call (EV_CALL_DTMF c d) = c"
| "event_call (EV_SDP_NEGOTIATION c l r x y) = c"
| "event_call (EV_TRANSFER_REQUEST a c u b1 b2) = c"
| "event_call (EV_TRANSFER_FAILED a c r) = c"
| "event_call (EV_MEDIA_STATS c n) = c"
| "event_call (EV_QUALITY_ALERT c i v t r) = c"
| "event_call (EV_NETWORK e c a l n1 n2 n3 b err) = c"
| "event_call _ = None"

fun terminal :: "call_state \<Rightarrow> bool" where
  "terminal CALL_ENDED = True"
| "terminal CALL_CANCELLED = True"
| "terminal CALL_FAILED = True"
| "terminal _ = False"

fun ends_call :: "call_id \<Rightarrow> bev_eff \<Rightarrow> bool" where
  "ends_call h (B_Post (EV_CALL_STATE a c st err r) d) = (c = Some h \<and> terminal st)"
| "ends_call h _ = False"

fun names_call :: "call_id \<Rightarrow> bev_eff \<Rightarrow> bool" where
  "names_call h (B_Post ev d) = (event_call ev = Some h)"
| "names_call h _ = False"

definition handles :: "vox \<Rightarrow> call_id set" where
  "handles st = set (map lc_handle (s_calls (v_calls st)))"

lemma handles_write [simp]:
  assumes "\<And>x. lc_handle (f x) = lc_handle x"
  shows "handles (on_call lc f st) = handles st"
proof -
  have "lc_handle \<circ> (\<lambda>x. if lc_handle x = h then f x else x) = lc_handle" for h
    by (auto simp: fun_eq_iff assms)
  then show ?thesis
    by (simp add: handles_def on_call_def call_write_def vox_call_foreach_def del: set_map split: option.splits)
qed

lemma handles_account [simp]: "handles (fst (on_account a f st)) = handles st"
  by (simp add: on_account_def handles_def split: prod.splits)

lemma account_names: "\<forall>e \<in> set (snd (on_account a f st)). \<not> names_call h e \<and> \<not> ends_call h e"
  by (auto simp: on_account_def split: prod.splits api_eff.splits)

lemma find_in_handles: "vox_call_find b (v_calls st) = Some c \<Longrightarrow> lc_handle c \<in> handles st"
  by (auto simp: vox_call_find_def handles_def find_Some_iff)

section \<open>The machine\<close>

text \<open>
  The events of the stack in the order they come, and the wrappers the application's own
  dialling makes in between. The state has, as a ghost, every handle ever used; a new wrapper's
  address is a new one.
\<close>

datatype vox_in =
    V_Bev bev_env bevent "nat option" "nat option"
  | V_Dial vcall

fun vox_step :: "libre \<Rightarrow> vox_cfg \<Rightarrow> vox_in \<Rightarrow> (vox \<times> call_id list, bev_eff) act" where
  "vox_step L G (V_Bev B bev u bc) s =
     (case bevent_handler L G B bev u bc (fst s) of
        (st, es) \<Rightarrow> ((st, (if bev = BEV_CALL_INCOMING then (case be_wrapper B of Some h \<Rightarrow> [h] | None \<Rightarrow> []) else []) @ snd s), es))"
| "vox_step L G (V_Dial lc) s =
     (((fst s)\<lparr>v_calls := vox_call_register lc (v_calls (fst s))\<rparr>, lc_handle lc # snd s), [])"

fun vox_ok :: "vox_in \<Rightarrow> vox \<times> call_id list \<Rightarrow> bool" where
  "vox_ok (V_Bev B bev u bc) s = (bev = BEV_CALL_INCOMING \<longrightarrow> (case be_wrapper B of Some h \<Rightarrow> h \<notin> set (snd s) | None \<Rightarrow> True))"
| "vox_ok (V_Dial lc) s = (lc_handle lc \<notin> set (snd s))"

text \<open>A handle that was used and is no longer listed is gone for good.\<close>

definition gone :: "call_id \<Rightarrow> vox \<times> call_id list \<Rightarrow> bool" where
  "gone h s \<longleftrightarrow> h \<in> set (snd s) \<and> h \<notin> handles (fst s)"

definition listed :: "vox \<times> call_id list \<Rightarrow> bool" where
  "listed s \<longleftrightarrow> handles (fst s) \<subseteq> set (snd s)"


text \<open>A branch that ends no call and whose events name calls on the list, or in \<open>N\<close>.\<close>

definition tame_res :: "call_id set \<Rightarrow> vox \<times> bev_eff list \<Rightarrow> vox \<Rightarrow> bool" where
  "tame_res N r st \<longleftrightarrow> handles (fst r) \<subseteq> handles st \<union> N \<and>
     (\<forall>h. \<forall>e \<in> set (snd r). (names_call h e \<longrightarrow> h \<in> handles st \<union> N) \<and> \<not> ends_call h e)"

definition tame :: "call_id set \<Rightarrow> bev_act \<Rightarrow> vox \<Rightarrow> bool" where
  "tame N f st \<longleftrightarrow> tame_res N (f st) st"

definition lookup :: "nat option \<Rightarrow> vox \<Rightarrow> vcall option" where
  "lookup bc st = (case bc of None \<Rightarrow> None | Some b \<Rightarrow> vox_call_find b (v_calls st))"

lemma handle_of_lookup: "handle_of (lookup bc st) = Some h \<Longrightarrow> h \<in> handles st"
  by (auto simp: handle_of_def lookup_def find_in_handles split: option.splits)

lemma lookup_handles: "lookup bc st = Some c \<Longrightarrow> lc_handle c \<in> handles st"
  by (auto simp: lookup_def find_in_handles split: option.splits)

lemma tame_registration: "tame N (bev_registration acct f rs) st"
  using account_names by (auto simp: tame_def tame_res_def bev_registration_def split: option.splits)

lemma tame_simple: "\<not> terminal s \<Longrightarrow> tame N (bev_simple a (lookup bc st) s) st"
  by (auto simp: tame_def tame_res_def bev_simple_def call_state_event_def dest: handle_of_lookup)

lemma tame_established: "tame N (bev_established B a (lookup bc st)) st"
proof (cases "lookup bc st")
  case None
  then show ?thesis by (simp add: tame_def tame_res_def bev_established_def call_state_event_def handle_of_def)
next
  case (Some c)
  then show ?thesis using lookup_handles [OF Some]
    by (auto simp: tame_def tame_res_def bev_established_def call_state_event_def handle_of_def vox_adapt_call_start_def)
qed

lemma tame_resume:
  "tame N (\<lambda>st. (on_call (lookup bc st) (\<lambda>x. x\<lparr>lc_state := CALL_ESTABLISHED\<rparr>) st,
      (case lookup bc st of None \<Rightarrow> [] | Some c \<Rightarrow> [B_Refreshable (lc_handle c)])
      @ [B_Post (call_state_event ah (lookup bc st) CALL_ESTABLISHED) None])) st"
  by (auto simp: tame_def tame_res_def call_state_event_def dest: handle_of_lookup split: option.splits)

lemma tame_dtmf: "tame N (bev_dtmf (lookup bc st) d) st"
  by (auto simp: tame_def tame_res_def bev_dtmf_def dest: handle_of_lookup split: option.splits list.splits)

lemma tame_sdp: "tame N (bev_sdp L G B l p (lookup bc st)) st"
proof (cases "lookup bc st")
  case None
  then show ?thesis by (simp add: tame_def tame_res_def bev_sdp_def vox_sdp_handle_event_def)
next
  case (Some c)
  then show ?thesis using lookup_handles [OF Some]
    by (auto simp: tame_def tame_res_def bev_sdp_def vox_sdp_handle_event_def Let_def split: option.splits if_splits)
qed

lemma tame_transfer: "tame N (vox_transfer_handle_event L B t a (lookup bc st)) st"
  by (auto simp: tame_def tame_res_def vox_transfer_handle_event_def dest: handle_of_lookup split: option.splits)

lemma tame_transfer_failed: "tame N (bev_transfer_failed L B r a (lookup bc st)) st"
  by (auto simp: tame_def tame_res_def bev_transfer_failed_def dest: handle_of_lookup)

lemma handles_unregister:
  "handles (st\<lparr>v_calls := vox_call_unregister h (v_calls st)\<rparr>) = handles st - {h}"
  by (auto simp: handles_def vox_call_unregister_def)

lemma tame_incoming: "tame (set_option (be_wrapper B)) (bev_incoming L B a b) st"
proof (cases "be_wrapper B")
  case None
  then show ?thesis by (simp add: tame_def tame_res_def bev_incoming_def vox_call_wrap_new_def)
next
  case (Some h)
  obtain lc where w: "vox_call_wrap_new (Some h) (\<lambda>_. True) (v_db st) b a CALL_RINGING False (v_calls st)
      = (Some lc, vox_call_register lc (v_calls st))" "lc_handle lc = h"
    by (simp add: vox_call_wrap_new_def Let_def call_zero_def split: option.splits)
  then show ?thesis
    by (auto simp: tame_def tame_res_def bev_incoming_def Some Let_def handles_def vox_call_register_def vox_call_unregister_def)
qed

lemma closed_facts:
  assumes "bev_closed L G B r acct (lookup bc st) st = (st', es)"
  shows "handles st' = handles st - set_option (handle_of (lookup bc st))"
    and "\<forall>e \<in> set es. names_call h e \<longrightarrow> handle_of (lookup bc st) = Some h"
    and "es = es1 @ e # es2 \<Longrightarrow> ends_call h e \<Longrightarrow> es2 = []"
proof -
  show "handles st' = handles st - set_option (handle_of (lookup bc st))"
    using assms by (auto simp: bev_closed_def Let_def handle_of_def handles_unregister split: option.splits)
  show "\<forall>e \<in> set es. names_call h e \<longrightarrow> handle_of (lookup bc st) = Some h"
    using assms by (auto simp: bev_closed_def Let_def split: option.splits if_splits)
  show "es = es1 @ e # es2 \<Longrightarrow> ends_call h e \<Longrightarrow> es2 = []"
    using assms by (cases es1) (auto simp: bev_closed_def Let_def Cons_eq_append_conv split: option.splits if_splits)
qed

lemma ends_names: "ends_call h e \<Longrightarrow> names_call h e"
  by (cases "(h, e)" rule: ends_call.cases) auto

lemma tame_still: "tame N (\<lambda>st. (st, [])) st" "tame N (\<lambda>st. (st, [B_Mwi])) st" "tame N (\<lambda>st. (st, [B_Accept])) st"
  "tame N (\<lambda>st. (st, [B_Post (EV_LOG None) None])) st"
  by (auto simp: tame_def tame_res_def)

lemmas tame_rules = tame_registration tame_simple tame_established tame_resume tame_dtmf tame_sdp tame_transfer
  tame_transfer_failed tame_still tame_incoming

lemmas tame_res_rules = tame_rules [unfolded tame_def]

definition new_handles :: "bev_env \<Rightarrow> bevent \<Rightarrow> call_id set" where
  "new_handles B bev = (if bev = BEV_CALL_INCOMING then set_option (be_wrapper B) else {})"

lemma handler_tame:
  assumes "\<not> (\<exists>r. bev = BEV_CALL_CLOSED r)"
  shows "tame_res (new_handles B bev) (bevent_handler L G B bev u bc st) st"
proof (cases "bev = BEV_CALL_INCOMING")
  case True
  then show ?thesis
    by (cases bc) (simp_all add: bevent_handler_def new_handles_def tame_res_rules)
next
  case False
  then show ?thesis
    using assms
    by (cases bev) (simp_all add: bevent_handler_def new_handles_def bev_reg_fail_def lookup_def [symmetric] Let_def tame_res_rules)
qed


text \<open>What one step of the stack does to a call's handle.\<close>

lemma handler_step:
  assumes "bevent_handler L G B bev u bc st = (st', es)"
  shows "handles st' \<subseteq> handles st \<union> new_handles B bev"
    and "e \<in> set es \<Longrightarrow> names_call h e \<Longrightarrow> h \<in> handles st \<union> new_handles B bev"
    and "es = es1 @ e # es2 \<Longrightarrow> ends_call h e \<Longrightarrow> es2 = [] \<and> h \<notin> handles st' \<and> h \<in> handles st"
proof -
  have "handles st' \<subseteq> handles st \<union> new_handles B bev \<and>
    (e \<in> set es \<longrightarrow> names_call h e \<longrightarrow> h \<in> handles st \<union> new_handles B bev) \<and>
    (es = es1 @ e # es2 \<longrightarrow> ends_call h e \<longrightarrow> es2 = [] \<and> h \<notin> handles st' \<and> h \<in> handles st)"
  proof (cases "\<exists>r. bev = BEV_CALL_CLOSED r")
    case False
    then have "tame_res (new_handles B bev) (st', es) st" using handler_tame [OF False, of B L G u bc st] assms by simp
    then show ?thesis by (auto simp: tame_res_def)
  next
    case True
    then obtain r where "bev_closed L G B r (case u of None \<Rightarrow> None | Some x \<Rightarrow> vox_account_find_by_ua x (v_db st))
        (lookup bc st) st = (st', es)"
      using assms by (auto simp: bevent_handler_def lookup_def Let_def)
    note c = closed_facts [OF this]
    show ?thesis using c(1) c(2) [of h] c(3) [of es1 e es2 h] ends_names handle_of_lookup [of bc st h] by auto
  qed
  then show "handles st' \<subseteq> handles st \<union> new_handles B bev"
    and "e \<in> set es \<Longrightarrow> names_call h e \<Longrightarrow> h \<in> handles st \<union> new_handles B bev"
    and "es = es1 @ e # es2 \<Longrightarrow> ends_call h e \<Longrightarrow> es2 = [] \<and> h \<notin> handles st' \<and> h \<in> handles st"
    by auto
qed

definition new_list :: "bev_env \<Rightarrow> bevent \<Rightarrow> call_id list" where
  "new_list B bev = (if bev = BEV_CALL_INCOMING then (case be_wrapper B of Some h \<Rightarrow> [h] | None \<Rightarrow> []) else [])"

lemma new_list_set [simp]: "set (new_list B bev) = new_handles B bev"
  unfolding new_list_def new_handles_def
  by (cases "bev = BEV_CALL_INCOMING"; cases "be_wrapper B") (simp_all only: if_True if_False option.case list.set option.set simp_thms)

lemma vox_step_bev:
  "bevent_handler L G B bev u bc st = (st', es) \<Longrightarrow> vox_step L G (V_Bev B bev u bc) (st, us) = ((st', new_list B bev @ us), es)"
  unfolding vox_step.simps new_list_def fst_conv snd_conv by (erule ssubst) (simp only: prod.case)

lemma vox_ok_bev: "vox_ok (V_Bev B bev u bc) (st, us) \<longleftrightarrow> new_handles B bev \<inter> set us = {}"
  by (cases "be_wrapper B") (auto simp: new_handles_def)

lemma vox_step_dial: "vox_step L G (V_Dial lc) (st, us) = ((st\<lparr>v_calls := vox_call_register lc (v_calls st)\<rparr>, lc_handle lc # us), [])"
  "handles (st\<lparr>v_calls := vox_call_register lc (v_calls st)\<rparr>) = insert (lc_handle lc) (handles st)"
  by (auto simp: handles_def vox_call_register_def)

lemma step_listed: "listed s \<Longrightarrow> listed (fst (vox_step L G i s))"
proof (cases s; cases i)
  fix st us B bev u bc
  assume l: "listed s" and s: "s = (st, us)" and i: "i = V_Bev B bev u bc"
  obtain st' es where e: "bevent_handler L G B bev u bc st = (st', es)" by (rule prod.exhaust)
  show ?thesis using handler_step(1) [OF e] l unfolding s i vox_step_bev [OF e] listed_def by auto
next
  fix st us lc
  assume "listed s" "s = (st, us)" "i = V_Dial lc"
  then show ?thesis by (auto simp: listed_def vox_step_dial simp del: vox_step.simps)
qed

lemma step_gone:
  assumes "gone h s" and "vox_ok i s"
  shows "gone h (fst (vox_step L G i s)) \<and> (\<forall>e \<in> set (snd (vox_step L G i s)). \<not> names_call h e)"
proof (cases s; cases i)
  fix st us B bev u bc
  assume s: "s = (st, us)" and i: "i = V_Bev B bev u bc"
  obtain st' es where e: "bevent_handler L G B bev u bc st = (st', es)" by (rule prod.exhaust)
  have n: "h \<in> set us" "h \<notin> handles st" "h \<notin> new_handles B bev"
    using assms unfolding s i vox_ok_bev gone_def by auto
  show ?thesis using handler_step(1,2) [OF e] n unfolding s i vox_step_bev [OF e] gone_def by auto
next
  fix st us lc
  assume "s = (st, us)" "i = V_Dial lc"
  then show ?thesis using assms by (auto simp: gone_def vox_step_dial simp del: vox_step.simps)
qed

lemma run_gone:
  "gone h s \<Longrightarrow> legal_run (vox_step L G) vox_ok xs s \<Longrightarrow> \<forall>e \<in> set (snd (run_acts (vox_step L G) xs s)). \<not> names_call h e"
proof (induction xs arbitrary: s)
  case (Cons i xs)
  then have "gone h (fst (vox_step L G i s))" "legal_run (vox_step L G) vox_ok xs (fst (vox_step L G i s))"
    using step_gone [of h s i L G] by simp_all
  from Cons.IH [OF this] show ?case using step_gone [of h s i L G] Cons.prems by auto
qed simp

lemma step_ends:
  assumes "listed s" and "snd (vox_step L G i s) = es1 @ e # es2" and "ends_call h e"
  shows "es2 = [] \<and> gone h (fst (vox_step L G i s))"
proof (cases s; cases i)
  fix st us B bev u bc
  assume s: "s = (st, us)" and i: "i = V_Bev B bev u bc"
  obtain st' es where e: "bevent_handler L G B bev u bc st = (st', es)" by (rule prod.exhaust)
  have es: "es = es1 @ e # es2" using assms(2) unfolding s i vox_step_bev [OF e] by simp
  show ?thesis using handler_step(3) [OF e es assms(3)] assms(1)
    unfolding s i vox_step_bev [OF e] listed_def gone_def by auto
next
  fix st us lc
  assume "s = (st, us)" "i = V_Dial lc"
  then show ?thesis using assms(2) by simp
qed

lemma run_ends:
  "listed s \<Longrightarrow> legal_run (vox_step L G) vox_ok xs s \<Longrightarrow> snd (run_acts (vox_step L G) xs s) = es1 @ e # es2 \<Longrightarrow>
   ends_call h e \<Longrightarrow> \<forall>x \<in> set es2. \<not> names_call h x"
proof (induction xs arbitrary: s es1)
  case (Cons i xs)
  let ?s = "fst (vox_step L G i s)"
  let ?r = "snd (run_acts (vox_step L G) xs ?s)"
  have ok: "legal_run (vox_step L G) vox_ok xs ?s" and l: "listed ?s"
    using Cons.prems(1,2) step_listed [of s L G i] by simp_all
  have "snd (vox_step L G i s) @ ?r = es1 @ e # es2" using Cons.prems(3) by simp
  then consider k where "snd (vox_step L G i s) = es1 @ e # k" "es2 = k @ ?r"
    | k where "es1 = snd (vox_step L G i s) @ k" "?r = k @ e # es2"
    by (auto simp: append_eq_append_conv2 Cons_eq_append_conv append_eq_Cons_conv)
  then show ?case
  proof cases
    case 1
    then show ?thesis using step_ends [OF Cons.prems(1) 1(1) Cons.prems(4)] run_gone [OF _ ok] by simp
  next
    case 2
    then show ?thesis using Cons.IH [OF l ok 2(2) Cons.prems(4)] by simp
  qed
qed simp

section \<open>Properties\<close>

text \<open>
  C3: A call ends once. Whatever the stack reports, in whatever order, and however the
  application dials in between, once a terminal state of a call has been posted no later event
  names that call: neither a second end nor a state, digit, SDP or transfer event of a call the
  application has been told is over.
\<close>

theorem call_ends_once:
  assumes "s_calls (v_calls st) = []" and "legal_run (vox_step L G) vox_ok xs (st, [])"
    and "snd (run_acts (vox_step L G) xs (st, [])) = es1 @ e # es2" and "ends_call h e"
  shows "\<forall>x \<in> set es2. \<not> names_call h x"
  using run_ends [OF _ assms(2-4)] assms(1) by (simp add: listed_def handles_def)

definition bev_env0 :: bev_env where
  "bev_env0 = \<lparr>be_acct = env0, be_now = 5000, be_wrapper = Some 7, be_post_ok = True, be_peeruri = Some ''sip:bob'',
     be_codec = None, be_found_ua = True\<rparr>"

definition vox0 :: vox where
  "vox0 = \<lparr>v_db = acct_db_init, v_calls = vox_call_global_init\<rparr>"

definition short_call :: "vox_in list" where
  "short_call = [V_Bev bev_env0 BEV_CALL_INCOMING None (Some 3), V_Bev bev_env0 (BEV_CALL_CLOSED (Some ''486'')) None (Some 3),
     V_Bev bev_env0 (BEV_CALL_CLOSED None) None (Some 3)]"

theorem call_ends_once_witness:
  "snd (run_acts (vox_step libre_ref cfg0) short_call (vox0, [])) =
     [B_Post (EV_INCOMING_CALL None (Some 7) (Some ''sip:bob'') None) None, B_StatsFinal 7]
     @ B_Post (EV_CALL_STATE None (Some 7) CALL_FAILED ERR_INVAL (Some ''486'')) (Some 7)
     # [B_Post (EV_CALL_STATE None None CALL_ENDED VOX_OK None) None] \<and>
   \<not> names_call 7 (B_Post (EV_CALL_STATE None None CALL_ENDED VOX_OK None) None)"
proof -
  have t: "snd (run_acts (vox_step libre_ref cfg0) short_call (vox0, [])) =
     [B_Post (EV_INCOMING_CALL None (Some 7) (Some ''sip:bob'') None) None, B_StatsFinal 7]
     @ B_Post (EV_CALL_STATE None (Some 7) CALL_FAILED ERR_INVAL (Some ''486'')) (Some 7)
     # [B_Post (EV_CALL_STATE None None CALL_ENDED VOX_OK None) None]" by code_simp
  have "s_calls (v_calls vox0) = []" "legal_run (vox_step libre_ref cfg0) vox_ok short_call (vox0, [])" by code_simp+
  from call_ends_once [OF this t, of 7] t show ?thesis by simp
qed

text \<open>
  The state and the error of a closed call agree. The call is reported as failed exactly
  when the report has an error and the call was not cancelled, and as ended only without one;
  a remote hangup of an established call, which the stack reports as a reset connection, is an
  end and not a failure. The one state that carries a misleading error is the cancellation,
  whose 487 reads as an invalid argument.
\<close>

theorem close_state_matches_error:
  "(close_state reason lc = CALL_FAILED \<longleftrightarrow> close_error reason lc \<noteq> VOX_OK \<and> sip_reason_code reason \<noteq> 487) \<and>
   (close_state reason lc = CALL_CANCELLED \<longleftrightarrow> sip_reason_code reason = 487) \<and>
   (sip_reason_code reason = 487 \<longrightarrow> close_error reason lc = ERR_INVAL) \<and>
   (close_peer_hangup reason lc \<longrightarrow> close_state reason lc = CALL_ENDED \<and> close_error reason lc = VOX_OK)"
proof -
  have "close_transport_err reason \<Longrightarrow> sip_reason_code reason = 0" by (auto simp: close_transport_err_def split: option.splits)
  then show ?thesis
    by (auto simp: close_state_def close_error_def close_peer_hangup_def Let_def)
qed

theorem close_state_matches_error_witness:
  "close_state (Some ''Connection reset by peer [104]'') (Some ((dialling 1 0)\<lparr>lc_state := CALL_ESTABLISHED\<rparr>)) = CALL_ENDED"
proof -
  let ?r = "Some ''Connection reset by peer [104]''"
  let ?c = "Some ((dialling 1 0)\<lparr>lc_state := CALL_ESTABLISHED\<rparr>)"
  have "close_peer_hangup ?r ?c" by code_simp
  then show ?thesis using close_state_matches_error [of ?r ?c] by blast
qed

end
