(* ===== verification/Vox_Dispatch.thy ===== *)
theory Vox_Dispatch
  imports Vox_Types
begin

text \<open>
  \<^verbatim>\<open>src/dispatch.c\<close>: the bridge from the threads of the application to the re_main thread.
  The public functions check their arguments where they are called and hand the rest over.
\<close>

section \<open>Results of the public functions\<close>

text \<open>
  The public functions return an \<open>int\<close> that is 0, a negative \<open>VOXSDK_ERR\<close> code or a positive
  errno of the stack; \<open>RC_vox VOX_OK\<close> is 0.
\<close>

datatype rc = RC_vox vox_error | RC_errno errno

abbreviation RC_OK :: rc where "RC_OK \<equiv> RC_vox VOX_OK"

definition rc_of :: "errno option \<Rightarrow> rc" where
  "rc_of r = (case r of None \<Rightarrow> RC_OK | Some e \<Rightarrow> RC_errno e)"

section \<open>Dispatching\<close>

text \<open>
  What the bridge meets: whether the SDK is initialised, whether the caller is the re_main
  thread itself, whether the context of an asynchronous job can be allocated, and what
  \<open>re_thread_async_main\<close> answers.
\<close>

record dispatch_env =
  d_initialized :: bool
  d_on_re :: bool
  d_mem :: bool
  d_async :: "errno option"

text \<open>The jobs handed to the re_main thread and not run yet, beside the state they work on.\<close>

record ('s, 'e) re_loop =
  rl_state :: 's
  rl_jobs :: "('s, 'e) act list"

text \<open>\<open>vox_dispatch\<close>: fire and forget.\<close>

definition vox_dispatch :: "dispatch_env \<Rightarrow> ('s, 'e) act \<Rightarrow> ('s, 'e) re_loop \<Rightarrow> rc \<times> ('s, 'e) re_loop" where
  "vox_dispatch D f lp =
     (if \<not> d_initialized D then (RC_vox ERR_STATE, lp)
      else if \<not> d_mem D then (RC_vox ERR_NOMEM, lp)
      else (case d_async D of
              Some e \<Rightarrow> (RC_errno e, lp)
            | None \<Rightarrow> (RC_OK, lp\<lparr>rl_jobs := rl_jobs lp @ [f]\<rparr>)))"

text \<open>
  \<open>dispatch_cb\<close>: the re_main thread runs one of the jobs. The library gives no order between
  them, so the turn says which.
\<close>

definition dispatch_cb :: "nat \<Rightarrow> (('s, 'e) re_loop, 'e) act" where
  "dispatch_cb i lp =
     (if i < length (rl_jobs lp)
      then (case (rl_jobs lp ! i) (rl_state lp) of
              (s, es) \<Rightarrow> (lp\<lparr>rl_state := s, rl_jobs := take i (rl_jobs lp) @ drop (Suc i) (rl_jobs lp)\<rparr>, es))
      else (lp, []))"

text \<open>
  \<open>vox_dispatch_sync\<close>: the caller waits until its function has run on the re_main thread, or
  runs it itself when it is that thread. Jobs that run while it waits come first; \<open>turns\<close> says
  which.
\<close>

definition vox_dispatch_sync ::
  "dispatch_env \<Rightarrow> nat list \<Rightarrow> ('s \<Rightarrow> 'r \<times> 's \<times> 'e list) \<Rightarrow> ('s, 'e) re_loop \<Rightarrow> (rc + 'r) \<times> ('s, 'e) re_loop \<times> 'e list" where
  "vox_dispatch_sync D turns f lp =
     (if \<not> d_initialized D then (Inl (RC_vox ERR_STATE), lp, [])
      else if d_on_re D then (case f (rl_state lp) of (r, s, es) \<Rightarrow> (Inr r, lp\<lparr>rl_state := s\<rparr>, es))
      else (case d_async D of
              Some e \<Rightarrow> (Inl (RC_errno e), lp, [])
            | None \<Rightarrow>
                (case run_acts dispatch_cb turns lp of
                   (lp1, es1) \<Rightarrow> (case f (rl_state lp1) of (r, s, es) \<Rightarrow> (Inr r, lp1\<lparr>rl_state := s\<rparr>, es1 @ es)))))"

text \<open>\<open>err ? err : ctx.result\<close>.\<close>

definition sync_rc :: "(rc + rc) \<times> 'x \<Rightarrow> rc \<times> 'x" where
  "sync_rc r = (case r of (Inl e, x) \<Rightarrow> (e, x) | (Inr e, x) \<Rightarrow> (e, x))"

section \<open>Facts\<close>

lemma dispatch_refused:
  assumes "fst (vox_dispatch_sync D turns f lp) = Inl e"
  shows "snd (vox_dispatch_sync D turns f lp) = (lp, [])" and "e \<noteq> RC_OK"
  using assms by (auto simp: vox_dispatch_sync_def split: if_splits option.splits prod.splits)

lemma dispatch_sync_ran:
  assumes "vox_dispatch_sync D turns f lp = (Inr r, lp', es)"
  shows "\<exists>lp1 es1 s es2. f (rl_state lp1) = (r, s, es2) \<and> lp' = lp1\<lparr>rl_state := s\<rparr> \<and> es = es1 @ es2"
proof (cases "d_on_re D")
  case True
  then show ?thesis using assms
    by (auto simp: vox_dispatch_sync_def split: if_splits prod.splits intro!: exI [of _ lp])
next
  case False
  then show ?thesis using assms
    by (auto simp: vox_dispatch_sync_def split: if_splits prod.splits option.splits)
qed

end
