(* ===== verification/Vox_Transfer.thy ===== *)
theory Vox_Transfer
  imports Vox_Bevent Vox_Dispatch
begin

text \<open>
  The answers of the application to a transfer request, and attended transfers
  (\<^verbatim>\<open>src/transfer.c\<close>). The report of the request is \<open>vox_transfer_handle_event\<close> in \<open>Vox_Bevent\<close>.
\<close>

section \<open>Environment and effects\<close>

text \<open>
  What the stack answers while a transfer is followed: the new call of \<open>ua_call_alloc\<close>, whether
  the old call has user data, the address of the new wrapper, the events that \<open>call_connect\<close>
  raises for the new call before it returns, what it returns, and the result of sending the
  final NOTIFY.
\<close>

record xfer_env =
  xe_alloc :: "errno + nat"
  xe_user_data :: bool
  xe_wrapper :: "call_id option"
  xe_hdr_ok :: "nat \<Rightarrow> bool"
  xe_during :: "(bev_env \<times> bevent) list"
  xe_connect :: "errno option"
  xe_notify :: "errno option"
  xe_now :: u64

datatype xfer_eff =
    X_CallAlloc nat nat
  | X_UserData nat
  | X_Connect nat string
  | X_Bev bev_eff
  | X_Notify nat u16 string
  | X_WrapperFree call_id
  | X_CallFree nat
  | X_Replace nat nat

text \<open>
  A wrapper that is no longer on the list has no stack call any more (the close handler clears
  it and unlinks the wrapper together), so reading it through the handle finds \<open>bc\<close> NULL.
\<close>

definition call_bc :: "call_id \<Rightarrow> vox \<Rightarrow> nat option" where
  "call_bc h st = (case call_get h (v_calls st) of None \<Rightarrow> None | Some lc \<Rightarrow> lc_bc lc)"

definition set_call :: "call_id \<Rightarrow> (vcall \<Rightarrow> vcall) \<Rightarrow> vox \<Rightarrow> vox" where
  "set_call h f st = st\<lparr>v_calls := call_write h f (v_calls st)\<rparr>"

definition xfer_done :: "call_id \<Rightarrow> vox \<Rightarrow> vox" where
  "xfer_done h = set_call h (\<lambda>x. x\<lparr>xfer_pending := False\<rparr>)"

section \<open>Attended transfer\<close>

definition attended_transfer_fn :: "errno option \<Rightarrow> call_id \<Rightarrow> call_id \<Rightarrow> vox \<Rightarrow> rc \<times> vox \<times> xfer_eff list" where
  "attended_transfer_fn replaced call_a call_b st =
     (case (call_bc call_a st, call_bc call_b st) of
        (Some a, Some b) \<Rightarrow> (rc_of replaced, st, [X_Replace a b])
      | _ \<Rightarrow> (RC_errno ENOENT, st, []))"

section \<open>Accepting a transfer\<close>

text \<open>The events the connect raises, each handled like any other of the stack.\<close>

definition during_connect :: "libre \<Rightarrow> vox_cfg \<Rightarrow> nat \<Rightarrow> nat \<Rightarrow> (bev_env \<times> bevent) list \<Rightarrow> bev_act" where
  "during_connect L G u call2 = run_acts (\<lambda>(B, bev). bevent_handler L G B bev (Some u) (Some call2))"

definition still_ours :: "nat \<Rightarrow> call_id \<Rightarrow> vox \<Rightarrow> bool" where
  "still_ours call2 h st \<longleftrightarrow> (case vox_call_find call2 (v_calls st) of Some c \<Rightarrow> lc_handle c = h | None \<Rightarrow> False)"

text \<open>The part from the connect on, with the wrapper \<open>n\<close> of the new call registered.\<close>

definition accept_connect ::
  "libre \<Rightarrow> vox_cfg \<Rightarrow> u32 \<Rightarrow> xfer_env \<Rightarrow> call_id \<Rightarrow> string \<Rightarrow> nat \<Rightarrow> nat \<Rightarrow> nat \<Rightarrow> call_id \<Rightarrow> vox \<Rightarrow>
    (rc \<times> call_id option) \<times> vox \<times> xfer_eff list" where
  "accept_connect L G timer_b X h refer_to bc u call2 n st =
     (case during_connect L G u call2 (xe_during X) st of
        (st1, es) \<Rightarrow>
          (case xe_connect X of
             Some e \<Rightarrow>
               (if still_ours call2 n st1
                then ((RC_errno e, None), xfer_done h (st1\<lparr>v_calls := vox_call_unregister n (v_calls st1)\<rparr>),
                      X_Connect call2 refer_to # map X_Bev es @ [X_Notify bc 500 ''Call Error'', X_WrapperFree n, X_CallFree call2])
                else ((RC_errno e, None), xfer_done h st1,
                      X_Connect call2 refer_to # map X_Bev es @ [X_Notify bc 500 ''Call Error'', X_CallFree call2]))
           | None \<Rightarrow>
               ((RC_OK, Some n),
                xfer_done h (st1\<lparr>v_calls := vox_call_setup_watch_start timer_b (xe_now X) n (v_calls st1)\<rparr>),
                X_Connect call2 refer_to # map X_Bev es)))"

definition transfer_accept_fn ::
  "libre \<Rightarrow> vox_cfg \<Rightarrow> u32 \<Rightarrow> xfer_env \<Rightarrow> call_id \<Rightarrow> vox \<Rightarrow> (rc \<times> call_id option) \<times> vox \<times> xfer_eff list" where
  "transfer_accept_fn L G timer_b X h st =
     (case call_get h (v_calls st) of
        None \<Rightarrow> ((RC_errno ENOENT, None), st, [])
      | Some lc \<Rightarrow>
          (case (lc_bc lc, call_ua (v_db st) lc) of
             (Some bc, Some u) \<Rightarrow>
               if \<not> xfer_pending lc \<or> xfer_refer_to lc = [] then ((RC_vox ERR_STATE, None), st, [])
               else
                 (case xe_alloc X of
                    Inl e \<Rightarrow> ((RC_errno e, None), xfer_done h st, [X_CallAlloc u bc, X_Notify bc 500 ''Call Error''])
                  | Inr call2 \<Rightarrow>
                      (let es = X_CallAlloc u bc # (if xe_user_data X then [X_UserData call2] else [])
                       in case vox_call_wrap_new (xe_wrapper X) (xe_hdr_ok X) (v_db st) call2 (lc_acct lc) CALL_CALLING True (v_calls st) of
                            (None, _) \<Rightarrow>
                              ((RC_errno ENOMEM, None), xfer_done h st,
                               es @ [X_Notify bc 500 ''Out of Memory'', X_CallFree call2])
                          | (Some new_lc, cs) \<Rightarrow>
                              (case accept_connect L G timer_b X h (xfer_refer_to lc) bc u call2 (lc_handle new_lc) (st\<lparr>v_calls := cs\<rparr>) of
                                 (r, st', es') \<Rightarrow> (r, st', es @ es'))))
           | _ \<Rightarrow> ((RC_errno ENOENT, None), st, [])))"

section \<open>Refusing a transfer\<close>

definition transfer_reject_fn :: "xfer_env \<Rightarrow> call_id \<Rightarrow> u16 \<Rightarrow> string \<Rightarrow> vox \<Rightarrow> rc \<times> vox \<times> xfer_eff list" where
  "transfer_reject_fn X h scode reason st =
     (case call_get h (v_calls st) of
        None \<Rightarrow> (RC_errno ENOENT, st, [])
      | Some lc \<Rightarrow>
          (case lc_bc lc of
             None \<Rightarrow> (RC_errno ENOENT, st, [])
           | Some bc \<Rightarrow>
               if \<not> xfer_pending lc then (RC_vox ERR_STATE, st, [])
               else (rc_of (xe_notify X), xfer_done h st, [X_Notify bc scode (if reason \<noteq> [] then reason else ''Declined'')])))"

section \<open>The public functions\<close>

type_synonym vox_loop = "(vox, xfer_eff) re_loop"

definition voxsdk_call_attended_transfer ::
  "dispatch_env \<Rightarrow> nat list \<Rightarrow> errno option \<Rightarrow> call_id option \<Rightarrow> call_id option \<Rightarrow> vox_loop \<Rightarrow> rc \<times> vox_loop \<times> xfer_eff list" where
  "voxsdk_call_attended_transfer D turns replaced call_a call_b lp =
     (case (call_a, call_b) of
        (Some a, Some b) \<Rightarrow> sync_rc (vox_dispatch_sync D turns (attended_transfer_fn replaced a b) lp)
      | _ \<Rightarrow> (RC_vox ERR_INVAL, lp, []))"

text \<open>The second component of the result is what \<open>*out\<close> holds afterwards.\<close>

definition voxsdk_call_transfer_accept ::
  "libre \<Rightarrow> vox_cfg \<Rightarrow> u32 \<Rightarrow> dispatch_env \<Rightarrow> nat list \<Rightarrow> xfer_env \<Rightarrow> call_id option \<Rightarrow> vox_loop \<Rightarrow> (rc \<times> call_id option) \<times> vox_loop \<times> xfer_eff list" where
  "voxsdk_call_transfer_accept L G timer_b D turns X call lp =
     (case call of
        None \<Rightarrow> ((RC_vox ERR_INVAL, None), lp, [])
      | Some h \<Rightarrow>
          (case vox_dispatch_sync D turns (transfer_accept_fn L G timer_b X h) lp of
             (Inl e, x) \<Rightarrow> ((e, None), x)
           | (Inr r, x) \<Rightarrow> (r, x)))"

definition voxsdk_call_transfer_reject ::
  "libre \<Rightarrow> dispatch_env \<Rightarrow> nat list \<Rightarrow> xfer_env \<Rightarrow> call_id option \<Rightarrow> u16 \<Rightarrow> cptr \<Rightarrow> vox_loop \<Rightarrow> rc \<times> vox_loop \<times> xfer_eff list" where
  "voxsdk_call_transfer_reject L D turns X call scode reason lp =
     (case call of
        None \<Rightarrow> (RC_vox ERR_INVAL, lp, [])
      | Some h \<Rightarrow>
          if scode < 400 \<or> 699 < scode then (RC_vox ERR_INVAL, lp, [])
          else sync_rc (vox_dispatch_sync D turns
                 (transfer_reject_fn X h scode (case reason of None \<Rightarrow> [] | Some r \<Rightarrow> lb_ncpy L 128 r)) lp))"

section \<open>The list of wrappers under the events of the stack\<close>

text \<open>Who is on the list, with which stack call: every event but a new call and a close keeps it.\<close>

definition call_index :: "vox \<Rightarrow> (call_id \<times> nat option) list" where
  "call_index st = map (\<lambda>c. (lc_handle c, lc_bc c)) (s_calls (v_calls st))"

lemma call_index_on_call [simp]:
  assumes "\<And>x. lc_handle (f x) = lc_handle x" and "\<And>x. lc_bc (f x) = lc_bc x"
  shows "call_index (on_call lc f st) = call_index st"
  by (cases lc) (simp_all add: call_index_def on_call_def call_write_def vox_call_foreach_def comp_def assms)

lemma call_index_set_call [simp]:
  assumes "\<And>x. lc_handle (f x) = lc_handle x" and "\<And>x. lc_bc (f x) = lc_bc x"
  shows "call_index (set_call h f st) = call_index st"
  by (simp add: call_index_def set_call_def call_write_def vox_call_foreach_def comp_def assms)

lemma call_index_account [simp]: "call_index (fst (on_account a f st)) = call_index st"
  by (simp add: on_account_def call_index_def split: prod.splits)

lemma call_index_registration [simp]: "call_index (fst (bev_registration acct f rs st)) = call_index st"
  by (simp add: bev_registration_def split: option.splits)

fun drops :: "call_id \<Rightarrow> bev_eff \<Rightarrow> bool" where
  "drops h (B_Post ev d) = (d = Some h)"
| "drops h (B_CallFree k) = (k = h)"
| "drops h _ = False"

lemma account_drops: "\<forall>e \<in> set (snd (on_account a f st)). \<not> drops h e"
  by (auto simp: on_account_def split: prod.splits api_eff.splits)

lemma registration_drops: "\<forall>e \<in> set (snd (bev_registration acct f rs st)). \<not> drops h e"
  using account_drops by (auto simp: bev_registration_def split: option.splits)

definition quiet_res :: "vox \<times> bev_eff list \<Rightarrow> vox \<Rightarrow> bool" where
  "quiet_res r st \<longleftrightarrow> call_index (fst r) = call_index st \<and> (\<forall>h. \<forall>e \<in> set (snd r). \<not> drops h e)"

lemma quiet_registration: "quiet_res (bev_registration acct f rs st) st"
  using registration_drops by (simp add: quiet_res_def)

lemma quiet_simple: "quiet_res (bev_simple a lc s st) st"
  by (simp add: quiet_res_def bev_simple_def)

lemma quiet_established: "quiet_res (bev_established B a lc st) st"
  by (cases lc) (simp_all add: quiet_res_def bev_established_def vox_adapt_call_start_def)

lemma quiet_resume:
  "quiet_res (on_call lc (\<lambda>x. x\<lparr>lc_state := CALL_ESTABLISHED\<rparr>) st,
     (case lc of None \<Rightarrow> [] | Some c \<Rightarrow> [B_Refreshable (lc_handle c)]) @ [B_Post ev None]) st"
  by (cases lc) (simp_all add: quiet_res_def)

lemma quiet_dtmf: "quiet_res (bev_dtmf lc d st) st"
  by (auto simp: quiet_res_def bev_dtmf_def split: option.splits list.splits)

lemma quiet_sdp: "quiet_res (bev_sdp L G B l p lc st) st"
  by (cases lc; cases p) (auto simp: quiet_res_def bev_sdp_def vox_sdp_handle_event_def Let_def split: if_splits)

lemma quiet_transfer: "quiet_res (vox_transfer_handle_event L B t a lc st) st"
  by (auto simp: quiet_res_def vox_transfer_handle_event_def split: option.splits)

lemma quiet_transfer_failed: "quiet_res (bev_transfer_failed L B r a lc st) st"
  by (simp add: quiet_res_def bev_transfer_failed_def)

lemma quiet_still: "quiet_res (st, []) st" "quiet_res (st, [B_Mwi]) st" "quiet_res (st, [B_Accept]) st"
  "quiet_res (st, [B_Post ev None]) st"
  by (auto simp: quiet_res_def)

lemmas quiet_rules = quiet_registration quiet_simple quiet_established quiet_resume quiet_dtmf quiet_sdp
  quiet_transfer quiet_transfer_failed quiet_still

lemma handler_quiet:
  assumes "\<not> (\<exists>r. bev = BEV_CALL_CLOSED r)" and "bev \<noteq> BEV_CALL_INCOMING"
  shows "quiet_res (bevent_handler L G B bev u bc st) st"
  using assms
  by (cases bev) (simp_all add: bevent_handler_def bev_reg_fail_def Let_def quiet_rules)

text \<open>Lookups through the index.\<close>

lemma find_index:
  "map_option lc_handle (vox_call_find b (v_calls st)) = map_option fst (find (\<lambda>(h, bc). bc = Some b) (call_index st))"
proof -
  have "map_option lc_handle (find (\<lambda>lc. lc_bc lc = Some b) cs) =
      map_option fst (find (\<lambda>(h, bc). bc = Some b) (map (\<lambda>c. (lc_handle c, lc_bc c)) cs))" for cs
    by (induction cs) simp_all
  then show ?thesis by (simp add: vox_call_find_def call_index_def)
qed

text \<open>
  The life of the wrapper \<open>n\<close> of the stack call \<open>b\<close> while events of that call are handled: it is
  listed and nobody has dropped it (\<open>d\<close> is 0), or it is off the list and was dropped once.
\<close>

definition wrapper_life :: "nat \<Rightarrow> call_id \<Rightarrow> nat \<Rightarrow> vox \<Rightarrow> bool" where
  "wrapper_life b n d st \<longleftrightarrow>
     (\<forall>(h, bc) \<in> set (call_index st). bc = Some b \<longrightarrow> h = n) \<and>
     (d = 0 \<and> (n, Some b) \<in> set (call_index st) \<or> d = 1 \<and> n \<notin> fst ` set (call_index st))"

lemma wrapper_life_lookup:
  assumes "wrapper_life b n d st"
  shows "handle_of (lookup (Some b) st) = (if d = 0 then Some n else None)"
proof -
  have e: "handle_of (lookup (Some b) st) = map_option fst (find (\<lambda>(h, bc). bc = Some b) (call_index st))"
    by (simp add: handle_of_def lookup_def find_index)
  show ?thesis
  proof (cases "find (\<lambda>(h, bc). bc = Some b) (call_index st)")
    case None
    then show ?thesis using assms e by (auto simp: wrapper_life_def find_None_iff)
  next
    case (Some x)
    then obtain i where "i < length (call_index st)" "call_index st ! i = x" "snd x = Some b" by (auto simp: find_Some_iff)
    then have m: "x \<in> set (call_index st)" "snd x = Some b" using nth_mem [of i "call_index st"] by auto
    then have "fst x = n" using assms by (cases x) (auto simp: wrapper_life_def)
    moreover from this m(1) have "n \<in> fst ` set (call_index st)" by (metis imageI)
    ultimately show ?thesis using assms e Some by (simp add: wrapper_life_def)
  qed
qed

lemma closed_index:
  "call_index (fst (bev_closed L G B r acct lc st)) =
     (case lc of None \<Rightarrow> call_index st | Some c \<Rightarrow> filter (\<lambda>(h, _). h \<noteq> lc_handle c) (call_index st))"
proof -
  have "map (\<lambda>c. (lc_handle c, lc_bc c)) (filter (\<lambda>c. lc_handle c \<noteq> h) (map (\<lambda>x. if lc_handle x = h then x\<lparr>lc_state := s, lc_bc := None\<rparr> else x) cs))
      = filter (\<lambda>(k, _). k \<noteq> h) (map (\<lambda>c. (lc_handle c, lc_bc c)) cs)" for h s cs
    by (induction cs) auto
  then show ?thesis
    by (cases lc) (simp_all add: bev_closed_def Let_def call_index_def on_call_def vox_call_unregister_def call_write_def vox_call_foreach_def)
qed

lemma closed_drops:
  "filter (drops n) (snd (bev_closed L G B r acct lc st)) =
     (if qev_ok (be_acct B) \<and> handle_of lc = Some n
      then [last (snd (bev_closed L G B r acct lc st))] else [])"
  by (cases lc) (auto simp: bev_closed_def Let_def handle_of_def)

lemma wrapper_life_step:
  assumes "wrapper_life b n d st" and "bev \<noteq> BEV_CALL_INCOMING" and "qev_ok (be_acct B)"
  shows "wrapper_life b n (d + length (filter (drops n) (snd (bevent_handler L G B bev u (Some b) st))))
           (fst (bevent_handler L G B bev u (Some b) st))"
proof (cases "\<exists>r. bev = BEV_CALL_CLOSED r")
  case False
  then have "quiet_res (bevent_handler L G B bev u (Some b) st) st" using assms(2) by (rule handler_quiet)
  then show ?thesis using assms(1) by (simp add: quiet_res_def wrapper_life_def)
next
  case True
  then obtain r acct where c: "bevent_handler L G B bev u (Some b) st = bev_closed L G B r acct (lookup (Some b) st) st"
    by (auto simp: bevent_handler_def lookup_def Let_def)
  show ?thesis
  proof (cases "lookup (Some b) st")
    case None
    then show ?thesis using assms(1) closed_index [of L G B r acct None st] closed_drops [of n L G B r acct None st]
      unfolding c by (simp add: wrapper_life_def handle_of_def)
  next
    case (Some x)
    then have x: "lc_handle x = n" "d = 0"
      using wrapper_life_lookup [OF assms(1)] by (auto simp: handle_of_def split: if_splits)
    show ?thesis using assms(1,3) x closed_index [of L G B r acct "Some x" st] closed_drops [of n L G B r acct "Some x" st]
      unfolding c Some by (auto simp: wrapper_life_def handle_of_def)
  qed
qed

lemma wrapper_life_during:
  assumes "wrapper_life b n d st" and "\<forall>(B, bev) \<in> set xs. bev \<noteq> BEV_CALL_INCOMING \<and> qev_ok (be_acct B)"
  shows "wrapper_life b n (d + length (filter (drops n) (snd (during_connect L G u b xs st)))) (fst (during_connect L G u b xs st))"
  using assms
proof (induction xs arbitrary: d st)
  case Nil
  then show ?case by (simp add: during_connect_def)
next
  case (Cons x xs)
  obtain B bev where x: "x = (B, bev)" by (cases x)
  then have "bev \<noteq> BEV_CALL_INCOMING" "qev_ok (be_acct B)" using Cons.prems(2) by auto
  from Cons.IH [OF wrapper_life_step [OF Cons.prems(1) this]] Cons.prems(2)
  show ?case by (simp add: during_connect_def x add.assoc)
qed

section \<open>Answers to a request\<close>

text \<open>Whether a request is waiting for an answer, and which effects ask and answer.\<close>

definition pend :: "call_id \<Rightarrow> vox \<Rightarrow> nat" where
  "pend h st = (case call_get h (v_calls st) of Some c \<Rightarrow> (if xfer_pending c then 1 else 0) | None \<Rightarrow> 0)"

fun requests :: "call_id \<Rightarrow> bev_eff \<Rightarrow> bool" where
  "requests h (B_Post (EV_TRANSFER_REQUEST a c u b1 b2) d) = (c = Some h)"
| "requests h _ = False"

lemma call_get_handle: "call_get h cs = Some c \<Longrightarrow> lc_handle c = h"
  by (auto simp: call_get_def find_Some_iff)

lemma pend_on_call [simp]:
  assumes "\<And>x. lc_handle (f x) = lc_handle x" and "\<And>x. xfer_pending (f x) = xfer_pending x"
  shows "pend h (on_call lc f st) = pend h st" and "pend h (set_call k f st) = pend h st"
  by (auto simp: pend_def on_call_def set_call_def assms split: option.splits)

lemma pend_register [simp]:
  "\<not> xfer_pending c \<Longrightarrow> pend h (st\<lparr>v_calls := vox_call_register c (v_calls st)\<rparr>) = pend h st"
proof -
  have "find P (xs @ [c]) = (case find P xs of None \<Rightarrow> if P c then Some c else None | Some y \<Rightarrow> Some y)" for P xs
    by (induction xs) auto
  then show "\<not> xfer_pending c \<Longrightarrow> ?thesis"
    by (auto simp: pend_def call_get_def vox_call_register_def split: option.splits)
qed

lemma pend_unregister: "pend h (st\<lparr>v_calls := vox_call_unregister k (v_calls st)\<rparr>) \<le> pend h st"
proof -
  have "find (\<lambda>lc. lc_handle lc = h) (filter (\<lambda>lc. lc_handle lc \<noteq> k) xs) =
      (if h = k then None else find (\<lambda>lc. lc_handle lc = h) xs)" for xs :: "vcall list"
    by (induction xs) auto
  then show ?thesis by (cases "h = k") (simp_all add: pend_def call_get_def vox_call_unregister_def)
qed

lemma pend_registration [simp]: "pend h (fst (bev_registration acct f rs st)) = pend h st"
  by (cases acct) (simp_all add: bev_registration_def on_account_def pend_def split: prod.splits)

lemma pend_done: "pend h (xfer_done k st) = (if h = k then 0 else pend h st)"
  by (auto simp: pend_def xfer_done_def set_call_def split: option.splits dest: call_get_handle)

text \<open>A request may become outstanding only together with its event.\<close>

definition honest :: "call_id \<Rightarrow> vox \<times> bev_eff list \<Rightarrow> vox \<Rightarrow> bool" where
  "honest h r st \<longleftrightarrow> pend h (fst r) \<le> pend h st + length (filter (requests h) (snd r))"

lemma honest_same: "pend h (fst r) \<le> pend h st \<Longrightarrow> honest h r st"
  by (simp add: honest_def)

lemma honest_transfer: "honest h (vox_transfer_handle_event L B t a lc st) st"
proof (cases "lc")
  case None
  then show ?thesis by (auto simp: honest_def vox_transfer_handle_event_def on_call_def split: option.splits)
next
  case (Some c)
  have "pend h (on_call lc (\<lambda>x. x\<lparr>xfer_refer_to := r, xfer_pending := True\<rparr>) st) \<le> pend h st + (if lc_handle c = h then 1 else 0)" for r
    by (auto simp: pend_def on_call_def Some split: option.splits dest: call_get_handle)
  then show ?thesis
    by (auto simp: honest_def vox_transfer_handle_event_def handle_of_def Some split: option.splits)
qed

lemma honest_closed: "honest h (bev_closed L G B r acct lc st) st"
proof (cases lc)
  case (Some c)
  then show ?thesis
    using pend_unregister [where h = h and st = "on_call lc (\<lambda>x. x\<lparr>lc_state := close_state r lc, lc_bc := None\<rparr>) st" and k = "lc_handle c"]
    by (intro honest_same) (simp add: bev_closed_def Let_def)
qed (simp add: honest_def bev_closed_def Let_def)

lemma honest_incoming: "honest h (bev_incoming L B a b st) st"
proof (cases "be_wrapper B")
  case (Some k)
  obtain lc where w: "vox_call_wrap_new (Some k) (\<lambda>_. True) (v_db st) b a CALL_RINGING False (v_calls st)
      = (Some lc, vox_call_register lc (v_calls st))" "\<not> xfer_pending lc"
    by (simp add: vox_call_wrap_new_def Let_def call_zero_def split: option.splits)
  have "pend h (st\<lparr>v_calls := vox_call_unregister (lc_handle lc) (vox_call_register lc (v_calls st))\<rparr>) \<le> pend h st"
    using pend_unregister [where h = h and st = "st\<lparr>v_calls := vox_call_register lc (v_calls st)\<rparr>" and k = "lc_handle lc"] w(2) by simp
  then show ?thesis using w by (auto simp: honest_def bev_incoming_def Some Let_def)
qed (simp add: honest_def bev_incoming_def vox_call_wrap_new_def)

lemma honest_rest:
  "honest h (bev_registration acct f rs st) st" "honest h (bev_simple a lc s st) st" "honest h (bev_established B a lc st) st"
  "honest h (on_call lc (\<lambda>x. x\<lparr>lc_state := CALL_ESTABLISHED\<rparr>) st, es) st"
  "honest h (bev_dtmf lc d st) st" "honest h (bev_sdp L G B l p lc st) st" "honest h (bev_transfer_failed L B r a lc st) st"
  "honest h (st, es) st"
  by (rule honest_same, auto simp: bev_simple_def bev_established_def vox_adapt_call_start_def bev_dtmf_def bev_sdp_def
      vox_sdp_handle_event_def bev_transfer_failed_def Let_def split: option.splits list.splits)+

lemma handler_honest: "honest h (bevent_handler L G B bev u bc st) st"
  by (cases bev)
    (simp_all add: bevent_handler_def bev_reg_fail_def Let_def honest_rest honest_transfer honest_closed honest_incoming split: option.splits)

lemma during_honest: "honest h (during_connect L G u b xs st) st"
proof (induction xs arbitrary: st)
  case Nil
  then show ?case by (simp add: during_connect_def honest_def)
next
  case (Cons x xs)
  obtain B bev where x: "x = (B, bev)" by (cases x)
  show ?case
    using handler_honest [of h L G B bev "Some u" "Some b" st] Cons.IH [of "fst (bevent_handler L G B bev (Some u) (Some b) st)"]
    by (simp add: honest_def during_connect_def x)
qed

section \<open>The machine\<close>

text \<open>
  Events of the stack and answers of the application, in any order; one output per input, with
  the effects it had.
\<close>

datatype xfer_in =
    T_Bev bev_env bevent "nat option" "nat option"
  | T_Accept xfer_env call_id
  | T_Reject xfer_env call_id u16 string

datatype xfer_out = XO (xo_in: xfer_in) (xo_effs: "xfer_eff list")

fun xfer_step :: "libre \<Rightarrow> vox_cfg \<Rightarrow> u32 \<Rightarrow> xfer_in \<Rightarrow> (vox, xfer_out) act" where
  "xfer_step L G timer_b (T_Bev B bev u bc) st =
     (case bevent_handler L G B bev u bc st of (st', es) \<Rightarrow> (st', [XO (T_Bev B bev u bc) (map X_Bev es)]))"
| "xfer_step L G timer_b (T_Accept X h) st =
     (case transfer_accept_fn L G timer_b X h st of (_, st', es) \<Rightarrow> (st', [XO (T_Accept X h) es]))"
| "xfer_step L G timer_b (T_Reject X h scode reason) st =
     (case transfer_reject_fn X h scode reason st of (_, st', es) \<Rightarrow> (st', [XO (T_Reject X h scode reason) es]))"

text \<open>The requests reported for a call, the answers to them that did anything, and final NOTIFYs.\<close>

fun eff_requests :: "call_id \<Rightarrow> xfer_eff \<Rightarrow> bool" where
  "eff_requests h (X_Bev e) = requests h e"
| "eff_requests h _ = False"

fun is_notify :: "xfer_eff \<Rightarrow> bool" where
  "is_notify (X_Notify bc scode reason) = True"
| "is_notify _ = False"

definition asked :: "call_id \<Rightarrow> xfer_out list \<Rightarrow> nat" where
  "asked h outs = sum_list (map (\<lambda>x. length (filter (eff_requests h) (xo_effs x))) outs)"

fun answered :: "call_id \<Rightarrow> xfer_out \<Rightarrow> bool" where
  "answered h (XO (T_Accept X k) es) = (k = h \<and> es \<noteq> [])"
| "answered h (XO (T_Reject X k scode reason) es) = (k = h \<and> es \<noteq> [])"
| "answered h _ = False"

lemma bev_eff_tests [simp]: "eff_requests h \<circ> X_Bev = requests h" "is_notify \<circ> X_Bev = (\<lambda>_. False)"
  by (simp_all add: fun_eq_iff)

lemma call_get_tmr: "call_get k (cs\<lparr>s_setup_tmr := t\<rparr>) = call_get k cs"
  by (simp add: call_get_def)

lemma accept_connect_pend:
  assumes "accept_connect L G tb X h r bc u call2 n st = (res, st', es)"
  shows "pend k st' \<le> (if k = h then 0 else pend k st + length (filter (eff_requests k) es))"
    and "length (filter is_notify es) \<le> 1" and "es \<noteq> []"
proof -
  obtain st1 es1 where d: "during_connect L G u call2 (xe_during X) st = (st1, es1)" by (rule prod.exhaust)
  have h: "pend k st1 \<le> pend k st + length (filter (requests k) es1)"
    using during_honest [of k L G u call2 "xe_during X" st] by (simp add: d honest_def)
  have w: "pend k (st1\<lparr>v_calls := vox_call_setup_watch_start tb t n (v_calls st1)\<rparr>) = pend k st1" for t
    by (auto simp: vox_call_setup_watch_start_def Let_def pend_def call_get_tmr split: option.splits)
  show "pend k st' \<le> (if k = h then 0 else pend k st + length (filter (eff_requests k) es))"
    using assms h pend_unregister [where h = k and k = n and st = st1] w
    by (auto simp: accept_connect_def d pend_done filter_map split: option.splits if_splits)
  show "length (filter is_notify es) \<le> 1" and "es \<noteq> []"
    using assms by (auto simp: accept_connect_def d filter_map split: option.splits if_splits)
qed

lemma accept_pend:
  assumes "transfer_accept_fn L G tb X h st = (res, st', es)"
  shows "pend k st' + (if k = h \<and> es \<noteq> [] then 1 else 0) \<le> pend k st + length (filter (eff_requests k) es)"
    and "length (filter is_notify es) \<le> 1"
proof -
  have "pend k st' + (if k = h \<and> es \<noteq> [] then 1 else 0) \<le> pend k st + length (filter (eff_requests k) es) \<and>
    length (filter is_notify es) \<le> 1"
  proof (cases "es = [] \<and> st' = st")
    case False
    then obtain lc bc u where lc: "call_get h (v_calls st) = Some lc" "lc_bc lc = Some bc" "call_ua (v_db st) lc = Some u"
        "xfer_pending lc" "xfer_refer_to lc \<noteq> []"
      using assms by (auto simp: transfer_accept_fn_def split: option.splits if_splits)
    then have p: "pend h st = 1" by (simp add: pend_def)
    show ?thesis
    proof (cases "xe_alloc X")
      case (Inl e)
      then show ?thesis using assms lc p by (auto simp: transfer_accept_fn_def pend_done)
    next
      case (Inr call2)
      obtain w cs where wn: "vox_call_wrap_new (xe_wrapper X) (xe_hdr_ok X) (v_db st) call2 (lc_acct lc) CALL_CALLING True (v_calls st) = (w, cs)"
        by (rule prod.exhaust)
      show ?thesis
      proof (cases w)
        case None
        then show ?thesis using assms lc p Inr wn by (auto simp: transfer_accept_fn_def Let_def pend_done)
      next
        case (Some n)
        have "cs = vox_call_register n (v_calls st)" "\<not> xfer_pending n"
          using wn Some by (auto simp: vox_call_wrap_new_def Let_def call_zero_def split: option.splits if_splits)
        then have r: "pend k (st\<lparr>v_calls := cs\<rparr>) = pend k st" by simp
        obtain q s2 es2 where a: "accept_connect L G tb X h (xfer_refer_to lc) bc u call2 (lc_handle n) (st\<lparr>v_calls := cs\<rparr>) = (q, s2, es2)"
          by (metis prod.exhaust)
        have "st' = s2" "es = (X_CallAlloc u bc # (if xe_user_data X then [X_UserData call2] else [])) @ es2"
          using assms lc Inr wn Some a by (auto simp: transfer_accept_fn_def Let_def)
        then show ?thesis using accept_connect_pend(1) [OF a, where k = k] accept_connect_pend(2,3) [OF a] r p by (auto split: if_splits)
      qed
    qed
  qed auto
  then show "pend k st' + (if k = h \<and> es \<noteq> [] then 1 else 0) \<le> pend k st + length (filter (eff_requests k) es)"
    and "length (filter is_notify es) \<le> 1" by auto
qed

lemma reject_pend:
  assumes "transfer_reject_fn X h scode reason st = (res, st', es)"
  shows "pend k st' + (if k = h \<and> es \<noteq> [] then 1 else 0) \<le> pend k st" and "length (filter is_notify es) \<le> 1"
proof -
  have p: "pend h st = (if xfer_pending lc then 1 else 0)" if "call_get h (v_calls st) = Some lc" for lc
    using that by (simp add: pend_def)
  show "pend k st' + (if k = h \<and> es \<noteq> [] then 1 else 0) \<le> pend k st" and "length (filter is_notify es) \<le> 1"
    using assms by (auto simp: transfer_reject_fn_def pend_done p split: option.splits if_splits)
qed

lemma xfer_step_pend:
  assumes "xfer_step L G tb i st = (st', outs)"
  shows "pend h st' + length (filter (answered h) outs) \<le> pend h st + asked h outs"
    and "\<forall>x \<in> set outs. length (filter is_notify (xo_effs x)) \<le> 1"
proof -
  have "pend h st' + length (filter (answered h) outs) \<le> pend h st + asked h outs \<and>
    (\<forall>x \<in> set outs. length (filter is_notify (xo_effs x)) \<le> 1)"
  proof (cases i)
    case (T_Bev B bev u bc)
    then show ?thesis using assms handler_honest [of h L G B bev u bc st]
      by (auto simp: asked_def honest_def filter_map split: prod.splits)
  next
    case (T_Accept X k)
    then obtain r es where a: "transfer_accept_fn L G tb X k st = (r, st', es)" "outs = [XO i es]"
      using assms by (auto split: prod.splits)
    show ?thesis using accept_pend(1) [OF a(1), where k = h] accept_pend(2) [OF a(1)]
      by (auto simp: asked_def a(2) T_Accept split: if_splits)
  next
    case (T_Reject X k scode reason)
    then obtain r es where a: "transfer_reject_fn X k scode reason st = (r, st', es)" "outs = [XO i es]"
      using assms by (auto split: prod.splits)
    show ?thesis using reject_pend(1) [OF a(1), where k = h] reject_pend(2) [OF a(1)]
      by (auto simp: asked_def a(2) T_Reject split: if_splits)
  qed
  then show "pend h st' + length (filter (answered h) outs) \<le> pend h st + asked h outs"
    and "\<forall>x \<in> set outs. length (filter is_notify (xo_effs x)) \<le> 1" by auto
qed

lemma xfer_run_pend:
  "pend h (fst (run_acts (xfer_step L G tb) xs st)) + length (filter (answered h) (snd (run_acts (xfer_step L G tb) xs st)))
     \<le> pend h st + asked h (snd (run_acts (xfer_step L G tb) xs st)) \<and>
   (\<forall>x \<in> set (snd (run_acts (xfer_step L G tb) xs st)). length (filter is_notify (xo_effs x)) \<le> 1)"
proof (induction xs arbitrary: st)
  case Nil
  then show ?case by (simp add: asked_def)
next
  case (Cons i xs)
  obtain s o1 where s: "xfer_step L G tb i st = (s, o1)" by (rule prod.exhaust)
  have "asked h (o1 @ o2) = asked h o1 + asked h o2" for o2 by (simp add: asked_def)
  then show ?case using xfer_step_pend(1) [OF s, where h = h] xfer_step_pend(2) [OF s] Cons.IH [of s] by (auto simp: s)
qed

section \<open>Properties\<close>

definition xdrops :: "call_id \<Rightarrow> xfer_eff \<Rightarrow> bool" where
  "xdrops n e = (case e of X_Bev b \<Rightarrow> drops n b | X_WrapperFree k \<Rightarrow> k = n | _ \<Rightarrow> False)"

lemma xdrops_bev [simp]: "xdrops n \<circ> X_Bev = drops n" "xdrops n (X_WrapperFree k) \<longleftrightarrow> k = n"
  by (simp_all add: xdrops_def fun_eq_iff)

lemma connect_failed_drops:
  assumes "wrapper_life call2 n 0 st" and "\<forall>(B, bev) \<in> set (xe_during X). bev \<noteq> BEV_CALL_INCOMING \<and> qev_ok (be_acct B)"
    and "xe_connect X = Some e" and "accept_connect L G tb X h r bc u call2 n st = (res, st', es)"
  shows "length (filter (xdrops n) es) = 1 \<and> n \<notin> handles st'"
proof -
  obtain st1 es1 where d: "during_connect L G u call2 (xe_during X) st = (st1, es1)" by (rule prod.exhaust)
  have life: "wrapper_life call2 n (length (filter (drops n) es1)) st1"
    using wrapper_life_during [OF assms(1,2), of L G u] by (simp add: d)
  have ours: "still_ours call2 n st1 \<longleftrightarrow> length (filter (drops n) es1) = 0"
    using wrapper_life_lookup [OF life] by (auto simp: still_ours_def lookup_def handle_of_def split: option.splits if_splits)
  have gone: "length (filter (drops n) es1) \<noteq> 0 \<Longrightarrow> length (filter (drops n) es1) = 1 \<and> n \<notin> handles st1"
    using life by (auto simp: wrapper_life_def call_index_def handles_def image_image)
  have hd: "handles (xfer_done h s) = handles s" for s
    by (auto simp: handles_def xfer_done_def set_call_def call_write_def vox_call_foreach_def image_image)
  have o: "xdrops n (X_Connect a b) = False" "xdrops n (X_Notify c m t) = False" "xdrops n (X_CallFree c) = False" for a b c m t
    by (simp_all add: xdrops_def)
  show ?thesis
  proof (cases "still_ours call2 n st1")
    case True
    then have "filter (drops n) es1 = []" using ours by simp
    then show ?thesis using assms(3,4) True
      by (auto simp: accept_connect_def d hd o filter_map handles_unregister)
  next
    case False
    then show ?thesis using assms(3,4) gone ours
      by (auto simp: accept_connect_def d hd o filter_map)
  qed
qed

text \<open>
  C13: A transfer request is answered at most once. However the events of the stack and the
  application's acceptances and refusals interleave, the answers for a call that do anything
  (dial the target, or send a final NOTIFY) are never more than the requests reported to the
  application for it, and each of them sends at most one NOTIFY; every further answer changes
  nothing.
\<close>

theorem refer_answered_once:
  assumes "pend h st = 0" and "outs = snd (run_acts (xfer_step L G timer_b) xs st)"
  shows "length (filter (answered h) outs) \<le> asked h outs \<and>
    (\<forall>x \<in> set outs. length (filter is_notify (xo_effs x)) \<le> 1)"
  using xfer_run_pend [of h L G timer_b xs st] assms by auto

definition xfer_env0 :: xfer_env where
  "xfer_env0 = \<lparr>xe_alloc = Inr 20, xe_user_data = False, xe_wrapper = Some 8, xe_hdr_ok = (\<lambda>_. True),
     xe_during = [(bev_env0, BEV_CALL_OUTGOING)], xe_connect = None, xe_notify = None, xe_now = 9000\<rparr>"

definition vox_call0 :: vox where
  "vox_call0 = \<lparr>v_db = db_one,
     v_calls = \<lparr>s_calls = [(call_zero 7 3 (Some 1) CALL_ESTABLISHED)], s_setup_tmr = None\<rparr>\<rparr>"

definition refer_twice :: "xfer_in list" where
  "refer_twice = [T_Bev bev_env0 (BEV_CALL_TRANSFER (Some ''sip:eve'')) (Some 9) (Some 3),
     T_Accept xfer_env0 7, T_Accept xfer_env0 7, T_Reject xfer_env0 7 603 []]"

theorem refer_answered_once_witness:
  "map (answered 7) (snd (run_acts (xfer_step libre_ref cfg0 0) refer_twice vox_call0)) = [False, True, False, False] \<and>
   length (filter (answered 7) (snd (run_acts (xfer_step libre_ref cfg0 0) refer_twice vox_call0)))
     \<le> asked 7 (snd (run_acts (xfer_step libre_ref cfg0 0) refer_twice vox_call0))"
proof -
  have a: "map (answered 7) (snd (run_acts (xfer_step libre_ref cfg0 0) refer_twice vox_call0)) = [False, True, False, False]"
    by code_simp
  have "pend 7 vox_call0 = 0" by code_simp
  from refer_answered_once [OF this refl] a show ?thesis by blast
qed

text \<open>
  C15: When the call to a transfer target fails to connect, the wrapper made for it is dropped
  exactly once, whatever the stack reported before the failure: by the queued event when one of
  the reports ended the call, and by the function itself otherwise. The wrapper is off the list
  either way.
\<close>

theorem failed_accept_drops_wrapper_once:
  assumes "call_get h (v_calls st) = Some lc" and "lc_bc lc = Some bc" and "call_ua (v_db st) lc = Some u"
    and "xfer_pending lc" and "xfer_refer_to lc \<noteq> []"
    and "xe_alloc X = Inr call2" and "xe_wrapper X = Some n" and "xe_connect X = Some e"
    and "n \<notin> handles st" and "\<forall>c \<in> set (s_calls (v_calls st)). lc_bc c \<noteq> Some call2"
    and "\<forall>(B, bev) \<in> set (xe_during X). bev \<noteq> BEV_CALL_INCOMING \<and> qev_ok (be_acct B)"
    and "transfer_accept_fn L G timer_b X h st = (res, st', es)"
  shows "res = (RC_errno e, None) \<and> length (filter (xdrops n) es) = 1 \<and> n \<notin> handles st'"
proof -
  obtain nl where w: "vox_call_wrap_new (Some n) (xe_hdr_ok X) (v_db st) call2 (lc_acct lc) CALL_CALLING True (v_calls st)
      = (Some nl, vox_call_register nl (v_calls st))" "lc_handle nl = n" "lc_bc nl = Some call2"
    by (simp add: vox_call_wrap_new_def Let_def call_zero_def split: option.splits)
  let ?st = "st\<lparr>v_calls := vox_call_register nl (v_calls st)\<rparr>"
  obtain q s2 es2 where a: "accept_connect L G timer_b X h (xfer_refer_to lc) bc u call2 n ?st = (q, s2, es2)"
    by (metis prod.exhaust)
  have r: "res = q" "st' = s2" "es = (X_CallAlloc u bc # (if xe_user_data X then [X_UserData call2] else [])) @ es2"
    using assms(1-8,12) w a by (auto simp: transfer_accept_fn_def Let_def)
  have "wrapper_life call2 n 0 ?st"
    using assms(9,10) w(2,3) by (auto simp: wrapper_life_def call_index_def vox_call_register_def handles_def)
  from connect_failed_drops [OF this assms(11) assms(8) a] have "length (filter (xdrops n) es2) = 1 \<and> n \<notin> handles s2" .
  moreover have "q = (RC_errno e, None)"
    using a assms(8) by (auto simp: accept_connect_def split: prod.splits if_splits)
  ultimately show ?thesis by (auto simp: r xdrops_def)
qed

definition xfer_env_fail :: xfer_env where
  "xfer_env_fail = xfer_env0\<lparr>xe_during := [(bev_env0, BEV_CALL_OUTGOING), (bev_env0, BEV_CALL_CLOSED (Some ''503''))],
     xe_connect := Some EIO\<rparr>"

definition vox_referred :: vox where
  "vox_referred = \<lparr>v_db = db_one, v_calls = \<lparr>s_calls = [(call_zero 7 3 (Some 1) CALL_ESTABLISHED)
     \<lparr>xfer_pending := True, xfer_refer_to := ''sip:eve''\<rparr>], s_setup_tmr = None\<rparr>\<rparr>"

theorem failed_accept_drops_wrapper_once_witness:
  "fst (transfer_accept_fn libre_ref cfg0 0 xfer_env_fail 7 vox_referred) = (RC_errno EIO, None) \<and>
   length (filter (xdrops 8) (snd (snd (transfer_accept_fn libre_ref cfg0 0 xfer_env_fail 7 vox_referred)))) = 1"
proof -
  obtain res st' es where t: "transfer_accept_fn libre_ref cfg0 0 xfer_env_fail 7 vox_referred = (res, st', es)"
    by (metis prod.exhaust)
  have c: "call_get 7 (v_calls vox_referred) = Some ((call_zero 7 3 (Some 1) CALL_ESTABLISHED)\<lparr>xfer_pending := True, xfer_refer_to := ''sip:eve''\<rparr>)"
    and u: "call_ua (v_db vox_referred) ((call_zero 7 3 (Some 1) CALL_ESTABLISHED)\<lparr>xfer_pending := True, xfer_refer_to := ''sip:eve''\<rparr>) = Some 9"
    and h: "8 \<notin> handles vox_referred" "\<forall>c \<in> set (s_calls (v_calls vox_referred)). lc_bc c \<noteq> Some 20"
    and d: "\<forall>(B, bev) \<in> set (xe_during xfer_env_fail). bev \<noteq> BEV_CALL_INCOMING \<and> qev_ok (be_acct B)"
    and x: "xe_alloc xfer_env_fail = Inr 20" "xe_wrapper xfer_env_fail = Some 8" "xe_connect xfer_env_fail = Some EIO"
    by code_simp+
  from failed_accept_drops_wrapper_once [OF c _ u _ _ x h d t] show ?thesis
    by (simp add: t call_zero_def)
qed

definition long_refer :: string where
  "long_refer = ''sip:eve@pbx?Replaces='' @ replicate 300 CHR ''a''"

text \<open>
  A long transfer target is dialled cut. The request event shows the application the whole
  Refer-To URI, up to 4095 characters, but the copy that the acceptance dials is kept in 256
  bytes: a target with a Replaces parameter of ordinary length reaches the stack without its end.
\<close>

theorem long_refer_dialled_cut:
  "let r = run_acts (xfer_step libre_ref cfg0 0)
             [T_Bev bev_env0 (BEV_CALL_TRANSFER (Some long_refer)) (Some 9) (Some 3), T_Accept xfer_env0 7] vox_call0
   in map xo_effs (snd r) =
        [[X_Bev (B_Post (EV_TRANSFER_REQUEST (Some 1) (Some 7) (Some long_refer) True False) None)],
         [X_CallAlloc 9 3, X_Connect 20 (take 255 long_refer)]]"
  by code_simp

end
