(* ===== verification/Vox_Mig.thy ===== *)
theory Vox_Mig
  imports Vox_Transfer
begin

text \<open>
  The first half of \<^verbatim>\<open>src/netmon.c\<close>: moving one call to another network path. Budgets and clocks,
  the rotation over local addresses, the re-offer with its ICE restart, and the verdict on it.
  The monitor that decides when, and the loops over calls and accounts, are in \<open>Vox_Netmon\<close>.
\<close>

section \<open>State\<close>

datatype ice_handover = ICE_BEST_EFFORT | ICE_FAIL_FAST

text \<open>The fields of the global configuration read by the monitor.\<close>

record net_cfg =
  nc_monitor_interval_s :: u32
  nc_settle_ms :: u32
  nc_verify_ms :: u32
  nc_max_attempts :: u32
  nc_reinvite_calls :: bool
  nc_hangup_on_migration_failure :: bool
  nc_ice_handover :: ice_handover
  nc_ice_gathering_timeout_ms :: u32
  nc_ice_enabled :: bool
  nc_prefer_ipv6 :: bool

text \<open>\<open>struct vox_netmon\<close>; a timer is \<open>Some\<close> delay while it runs.\<close>

record netmon =
  tmr_poll :: "u32 option"
  tmr_settle :: "u32 option"
  tmr_verify :: "u32 option"
  nm_started :: bool
  reset_pending :: bool
  force :: bool
  announced :: bool
  nm_down :: bool
  nm_gen :: u32
  nm_attempt :: u32
  wait_ticks :: u32
  handover_start :: u64
  poll_s :: u32
  settle_ms :: u32
  verify_ms :: u32
  max_attempts :: u32
  reinvite_calls :: bool
  hangup_on_fail :: bool
  nm_ice_handover :: ice_handover
  cur_laddr :: string

definition VOX_NET_MAX_SNAP :: nat where "VOX_NET_MAX_SNAP = 64"
definition VOX_NET_SETTLE_MS :: u32 where "VOX_NET_SETTLE_MS = 1500"
definition VOX_NET_MAX_ATTEMPT :: u32 where "VOX_NET_MAX_ATTEMPT = 6"
definition VOX_NET_STALL_VERIFY_MS :: u32 where "VOX_NET_STALL_VERIFY_MS = 1500"
definition VOX_NET_STALL_COOLDOWN_MS :: u64 where "VOX_NET_STALL_COOLDOWN_MS = 10000"
definition VOX_NET_STALL_ATTEMPTS :: u32 where "VOX_NET_STALL_ATTEMPTS = 3"
definition VOX_NET_STALL_ROUNDS :: u8 where "VOX_NET_STALL_ROUNDS = 3"

text \<open>
  What the stack and the host answer while a handler runs: the time; whether events can be
  allocated; of each stack call whether it may be refreshed, its counter of received packets
  (\<open>None\<close> without an audio stream), whether it is on hold and has ICE, the outcomes of an ICE
  restart and of a re-offer from an address, the peer's media address as learned and as in the
  SDP, the local address in use; the route to an address; the stack's list of local addresses
  with the tests on them.
\<close>

record net_env =
  ne_now :: u64
  ne_qev :: bool
  ne_refresh :: "nat \<Rightarrow> bool"
  ne_rx :: "nat \<Rightarrow> u32 option"
  ne_onhold :: "nat \<Rightarrow> bool"
  ne_ice :: "nat \<Rightarrow> bool"
  ne_ice_restart :: "nat \<Rightarrow> sa option \<Rightarrow> errno option"
  ne_reset :: "nat \<Rightarrow> sa option \<Rightarrow> errno option"
  ne_raddr :: "nat \<Rightarrow> sa option"
  ne_sdp_raddr :: "nat \<Rightarrow> sa option"
  ne_call_laddr :: "nat \<Rightarrow> sa option"
  ne_route :: "sa \<Rightarrow> sa option"
  ne_laddrs :: "sa list"
  ne_loopback :: "sa \<Rightarrow> bool"
  ne_linklocal :: "sa \<Rightarrow> bool"

text \<open>Everything a handler of one call reads: \<open>g_vox.cfg\<close>, \<open>g_nm\<close>, the stack, the accounts.\<close>

record mctx =
  mx_libre :: libre
  mx_cfg :: net_cfg
  mx_nm :: netmon
  mx_env :: net_env
  mx_db :: acct_db

datatype net_eff =
    N_Post "cptr event"
  | N_IceRestart nat "sa option"
  | N_ResetTransp nat "sa option"
  | N_Hangup nat nat
  | N_Acct acct_id acct_eff
  | N_AddAddress sa
  | N_RmAddress sa
  | N_DnsRefresh
  | N_ResetAll

type_synonym mig_act = "(vcall, net_eff) act"

section \<open>Events\<close>

definition map_err :: "errno option \<Rightarrow> vox_error" where
  "map_err err =
     (case err of
        None \<Rightarrow> VOX_OK
      | Some ENOMEM \<Rightarrow> ERR_NOMEM
      | Some EINVAL \<Rightarrow> ERR_INVAL
      | Some ETIMEDOUT \<Rightarrow> ERR_TIMEOUT
      | Some _ \<Rightarrow> ERR_TRANSPORT)"

definition call_signals_over_ws :: "mctx \<Rightarrow> vcall \<Rightarrow> bool" where
  "call_signals_over_ws X lc =
     (case acct_of (mx_db X) (lc_acct lc) of
        None \<Rightarrow> False
      | Some a \<Rightarrow> parsed_transport a = TP_WS \<or> parsed_transport a = TP_WSS)"

definition call_uses_ice :: "mctx \<Rightarrow> vcall \<Rightarrow> bool" where
  "call_uses_ice X lc =
     (case acct_of (mx_db X) (lc_acct lc) of
        None \<Rightarrow> nc_ice_enabled (mx_cfg X)
      | Some a \<Rightarrow>
          (case lc_bc lc of
             Some bc \<Rightarrow> ne_ice (mx_env X) bc
           | None \<Rightarrow> ac_ice_enabled (acfg a) \<or> nc_ice_enabled (mx_cfg X)))"

section \<open>Budgets and clocks\<close>

definition rx_packets :: "mctx \<Rightarrow> vcall \<Rightarrow> u32" where
  "rx_packets X lc =
     (case lc_bc lc of
        None \<Rightarrow> 0
      | Some bc \<Rightarrow> (case ne_rx (mx_env X) bc of Some n \<Rightarrow> n | None \<Rightarrow> 0))"

definition max_attempts_for :: "mctx \<Rightarrow> vcall \<Rightarrow> u32" where
  "max_attempts_for X lc =
     (let N = mx_nm X
      in if net_mig_stall lc then
           (if max_attempts N < VOX_NET_STALL_ATTEMPTS then max_attempts N else VOX_NET_STALL_ATTEMPTS)
         else if nm_ice_handover N = ICE_FAIL_FAST \<and> call_uses_ice X lc \<and> \<not> net_ice_restarted lc then 1
         else max_attempts N)"

definition verify_tick_ms :: "netmon \<Rightarrow> u32" where
  "verify_tick_ms N =
     (let ms = (if verify_ms N \<noteq> 0 then verify_ms N else 2000) in if ms < 500 then 500 else ms)"

definition verify_tick_for :: "netmon \<Rightarrow> vcall \<Rightarrow> u32" where
  "verify_tick_for N lc =
     (if verify_ms N = 0 \<or> \<not> net_mig_stall lc then verify_tick_ms N
      else if VOX_NET_STALL_VERIFY_MS < verify_tick_ms N then VOX_NET_STALL_VERIFY_MS else verify_tick_ms N)"

definition restart_grace_ms :: "net_cfg \<Rightarrow> u32" where
  "restart_grace_ms C = (if nc_ice_gathering_timeout_ms C \<noteq> 0 then nc_ice_gathering_timeout_ms C else 3000)"

definition netmon_emit :: "mctx \<Rightarrow> net_event \<Rightarrow> vcall option \<Rightarrow> acct_id option \<Rightarrow> errno option \<Rightarrow> u32 \<Rightarrow> net_eff list" where
  "netmon_emit X what lc acct err attempt =
     (if \<not> ne_qev (mx_env X) then []
      else
        (let maxa = (case lc of Some c \<Rightarrow> max_attempts_for X c | None \<Rightarrow> max_attempts (mx_nm X));
             ice = (case lc of Some c \<Rightarrow> call_uses_ice X c | None \<Rightarrow> False);
             since = (case lc of Some c \<Rightarrow> net_mig_start c | None \<Rightarrow> handover_start (mx_nm X));
             elapsed = (if since \<noteq> 0 then ucast (ne_now (mx_env X) - since) else 0)
         in [N_Post (EV_NETWORK what (map_option lc_handle lc) acct
               (Some (lb_ncpy (mx_libre X) 4096 (cur_laddr (mx_nm X)))) attempt maxa elapsed ice (map_err err))]))"

section \<open>Rotation over local addresses\<close>

definition laddr_tried :: "vcall \<Rightarrow> sa \<Rightarrow> bool" where
  "laddr_tried lc sa \<longleftrightarrow> sa \<in> set (net_mig_tried lc)"

definition laddr_remember :: "sa option \<Rightarrow> vcall \<Rightarrow> vcall" where
  "laddr_remember sa lc =
     (case sa of
        None \<Rightarrow> lc
      | Some s \<Rightarrow>
          if laddr_tried lc s then lc
          else if VOX_NET_MAX_CAND \<le> length (net_mig_tried lc) then lc
          else lc\<lparr>net_mig_tried := net_mig_tried lc @ [s]\<rparr>)"

definition laddr_pick_handler :: "net_env \<Rightarrow> af \<Rightarrow> vcall \<Rightarrow> sa \<Rightarrow> bool" where
  "laddr_pick_handler E f lc s \<longleftrightarrow> sa_af s = f \<and> \<not> ne_loopback E s \<and> \<not> ne_linklocal E s \<and> \<not> laddr_tried lc s"

definition rotate_laddr :: "vcall \<Rightarrow> bool" where
  "rotate_laddr lc \<longleftrightarrow> (if net_mig_stall lc then 1 else 2) \<le> net_mig_tries lc"

text \<open>The walk over the stack's addresses stops at the first one that is picked.\<close>

definition next_laddr :: "net_env \<Rightarrow> af \<Rightarrow> vcall \<Rightarrow> vcall \<times> sa option" where
  "next_laddr E f lc =
     (case find (laddr_pick_handler E f lc) (ne_laddrs E) of
        Some s \<Rightarrow> (lc, Some s)
      | None \<Rightarrow> (let lc1 = lc\<lparr>net_mig_tried := []\<rparr> in (lc1, find (laddr_pick_handler E f lc1) (ne_laddrs E))))"

section \<open>Offers\<close>

definition fail_migration :: "mctx \<Rightarrow> errno \<Rightarrow> mig_act" where
  "fail_migration X err lc =
     (let lc1 = lc\<lparr>net_mig_state := MIG_FAILED\<rparr>
      in (lc1,
          netmon_emit X NET_CALL_MIGRATION_FAILED (Some lc1) (lc_acct lc1) (Some err) (net_mig_tries lc1)
          @ (case (lc_bc lc1, call_ua (mx_db X) lc1) of
               (Some bc, Some u) \<Rightarrow> if hangup_on_fail (mx_nm X) then [N_Hangup u bc] else []
             | _ \<Rightarrow> [])))"

text \<open>The part of \<open>send_migration\<close> from \<open>call_reset_transp\<close> on.\<close>

definition plain_offer :: "mctx \<Rightarrow> nat \<Rightarrow> mig_act" where
  "plain_offer X bc lc =
     (case ne_reset (mx_env X) bc (net_mig_laddr lc) of
        Some e \<Rightarrow>
          (if max_attempts_for X lc \<le> net_mig_tries lc
           then andthen (emit (N_ResetTransp bc (net_mig_laddr lc))) (fail_migration X e) lc
           else (lc\<lparr>net_mig_state := MIG_DEFERRED\<rparr>, [N_ResetTransp bc (net_mig_laddr lc)]))
      | None \<Rightarrow>
          (let lc1 = lc\<lparr>net_mig_state := MIG_SENT, net_mig_due := ne_now (mx_env X) + ucast (verify_tick_for (mx_nm X) lc)\<rparr>;
               es = N_ResetTransp bc (net_mig_laddr lc)
                      # netmon_emit X NET_CALL_MIGRATING (Some lc1) (lc_acct lc1) None (net_mig_tries lc1)
           in if verify_ms (mx_nm X) = 0 then
                (let lc2 = lc1\<lparr>net_mig_state := MIG_DONE\<rparr>
                 in (lc2, es @ netmon_emit X NET_CALL_MIGRATED (Some lc2) (lc_acct lc2) None (net_mig_tries lc2)))
              else (lc1, es)))"

definition send_migration :: "mctx \<Rightarrow> mig_act" where
  "send_migration X lc =
     (case lc_bc lc of
        None \<Rightarrow> (lc\<lparr>net_mig_state := MIG_IDLE\<rparr>, [])
      | Some bc \<Rightarrow>
          if \<not> ne_refresh (mx_env X) bc then
            (if net_mig_state lc \<noteq> MIG_DEFERRED then
               (let lc1 = lc\<lparr>net_mig_state := MIG_DEFERRED\<rparr>
                in (lc1, netmon_emit X NET_CALL_DEFERRED (Some lc1) (lc_acct lc1) None (net_mig_tries lc1 + 1)))
             else (lc, []))
          else
            (let lc1 = laddr_remember (net_mig_laddr lc)
                         (lc\<lparr>net_rx_at_mig := rx_packets X lc, net_mig_tries := net_mig_tries lc + 1\<rparr>)
             in if net_mig_path_moved lc1 then
                  (let r = ne_ice_restart (mx_env X) bc (net_mig_laddr lc1)
                   in if r = None \<or> r = Some EALREADY then
                        (let lc2 = lc1\<lparr>net_ice_restarted := True, net_mig_state := MIG_SENT,
                                       net_mig_due := ne_now (mx_env X) + ucast (restart_grace_ms (mx_cfg X))
                                         + ucast (verify_tick_for (mx_nm X) lc1)\<rparr>
                         in (lc2, N_IceRestart bc (net_mig_laddr lc1)
                               # netmon_emit X NET_CALL_MIGRATING (Some lc2) (lc_acct lc2) None (net_mig_tries lc2)))
                      else if r \<noteq> Some ENOENT \<and> \<not> net_ice_stale_sent lc1 then
                        (let lc2 = lc1\<lparr>net_ice_stale_sent := True\<rparr>
                         in andthen (\<lambda>c. (c, N_IceRestart bc (net_mig_laddr lc1)
                                # netmon_emit X NET_CALL_ICE_STALE (Some lc2) (lc_acct lc2) r (net_mig_tries lc2)))
                              (plain_offer X bc) lc2)
                      else andthen (emit (N_IceRestart bc (net_mig_laddr lc1))) (plain_offer X bc) lc1)
                else plain_offer X bc lc1))"

definition retry_migration :: "mctx \<Rightarrow> mig_act" where
  "retry_migration X lc =
     (let lc1 = laddr_remember (net_mig_laddr lc) lc
      in if \<not> rotate_laddr lc1 then send_migration X lc1
         else
           (case net_mig_laddr lc1 of
              None \<Rightarrow> send_migration X lc1
            | Some cur \<Rightarrow>
                (case next_laddr (mx_env X) (sa_af cur) lc1 of
                   (lc2, Some s) \<Rightarrow> send_migration X (if s \<noteq> cur then lc2\<lparr>net_mig_laddr := Some s\<rparr> else lc2)
                 | (lc2, None) \<Rightarrow> send_migration X lc2)))"

definition wait_for_addr :: "mctx \<Rightarrow> mig_act" where
  "wait_for_addr X lc =
     (if net_mig_state lc = MIG_WAIT_ADDR then (lc, [])
      else
        (let lc1 = lc\<lparr>net_mig_state := MIG_WAIT_ADDR\<rparr>
         in (lc1, netmon_emit X NET_CALL_DEFERRED (Some lc1) (lc_acct lc1) None (net_mig_tries lc1 + 1))))"

section \<open>Starting a migration\<close>

text \<open>The claim of a call for the current generation.\<close>

definition stamp_call :: "mctx \<Rightarrow> vcall \<Rightarrow> vcall" where
  "stamp_call X lc =
     (if net_mig_gen lc \<noteq> nm_gen (mx_nm X) then
        lc\<lparr>net_mig_gen := nm_gen (mx_nm X), net_mig_tries := 0, net_mig_due := 0, net_ice_stale_sent := False,
           net_ice_restarted := False, net_mig_path_moved := False, net_mig_stall := False, net_mig_tried := [],
           net_mig_start := (if handover_start (mx_nm X) \<noteq> 0 then handover_start (mx_nm X) else ne_now (mx_env X)),
           net_mig_laddr := None\<rparr>
      else lc)"

text \<open>
  The source address that reaches the peer, by the routing table: \<open>None\<close> while there is no
  stream, no media address of the peer or no route.
\<close>

definition source_addr :: "net_env \<Rightarrow> nat \<Rightarrow> sa option" where
  "source_addr E bc =
     (case ne_rx E bc of
        None \<Rightarrow> None
      | Some _ \<Rightarrow>
          (case (case ne_raddr E bc of Some r \<Rightarrow> Some r | None \<Rightarrow> ne_sdp_raddr E bc) of
             None \<Rightarrow> None
           | Some raddr \<Rightarrow> ne_route E raddr))"

text \<open>A retry that would offer a tried address again takes the next one.\<close>

definition rotated :: "net_env \<Rightarrow> sa \<Rightarrow> vcall \<Rightarrow> vcall \<times> sa" where
  "rotated E laddr lc =
     (if rotate_laddr lc \<and> laddr_tried lc laddr then
        (case next_laddr E (sa_af laddr) lc of
           (lc1, Some s) \<Rightarrow> (lc1, s)
         | (lc1, None) \<Rightarrow> (lc1, laddr))
      else (lc, laddr))"

definition start_migration :: "mctx \<Rightarrow> mig_act" where
  "start_migration X lc0 =
     (case lc_bc lc0 of
        None \<Rightarrow> (lc0\<lparr>net_mig_state := MIG_IDLE\<rparr>, [])
      | Some bc \<Rightarrow>
          (let lc1 = stamp_call X lc0
           in case source_addr (mx_env X) bc of
                None \<Rightarrow> wait_for_addr X lc1
              | Some route \<Rightarrow>
                  (case rotated (mx_env X) route lc1 of
                     (lc2, laddr) \<Rightarrow>
                       (let same = (ne_call_laddr (mx_env X) bc = Some laddr)
                        in if same \<and> \<not> call_signals_over_ws X lc2 \<and> \<not> net_mig_stall lc2
                           then (lc2\<lparr>net_mig_state := MIG_IDLE\<rparr>, [])
                           else send_migration X
                                  (lc2\<lparr>net_mig_path_moved := (net_mig_stall lc2 \<or> \<not> same \<or> net_mig_path_moved lc2),
                                       net_mig_laddr := Some laddr\<rparr>)))))"

section \<open>The verdict\<close>

text \<open>The body of the loop of \<open>verify_handler\<close>.\<close>

definition verify_call :: "mctx \<Rightarrow> mig_act" where
  "verify_call X lc =
     (if net_mig_gen lc \<noteq> nm_gen (mx_nm X) then (lc, [])
      else
        (case lc_bc lc of
           None \<Rightarrow> (lc\<lparr>net_mig_state := MIG_IDLE\<rparr>, [])
         | Some bc \<Rightarrow>
             (case net_mig_state lc of
                MIG_STALLED \<Rightarrow> start_migration X lc
              | MIG_WAIT_ADDR \<Rightarrow>
                  (let lc1 = lc\<lparr>net_mig_tries := net_mig_tries lc + 1\<rparr>
                   in if max_attempts (mx_nm X) \<le> net_mig_tries lc1 then fail_migration X EHOSTUNREACH lc1
                      else start_migration X lc1)
              | MIG_DEFERRED \<Rightarrow>
                  if ne_refresh (mx_env X) bc then send_migration X lc
                  else
                    (let lc1 = lc\<lparr>net_mig_tries := net_mig_tries lc + 1\<rparr>
                     in if max_attempts (mx_nm X) \<le> net_mig_tries lc1 then fail_migration X ETIMEDOUT lc1 else (lc1, []))
              | MIG_SENT \<Rightarrow>
                  if net_mig_due lc \<noteq> 0 \<and> ne_now (mx_env X) + 100 < net_mig_due lc then (lc, [])
                  else if verify_ms (mx_nm X) = 0 \<or> lc_state lc = CALL_HELD \<or> ne_onhold (mx_env X) bc \<or>
                          net_rx_at_mig lc < rx_packets X lc then
                    (let lc1 = lc\<lparr>net_mig_state := MIG_DONE\<rparr>
                     in (lc1, netmon_emit X NET_CALL_MIGRATED (Some lc1) (lc_acct lc1) None (net_mig_tries lc1)))
                  else if max_attempts_for X lc \<le> net_mig_tries lc then fail_migration X ETIMEDOUT lc
                  else retry_migration X lc
              | _ \<Rightarrow> (lc, []))))"

definition fail_pending :: "mctx \<Rightarrow> errno \<Rightarrow> mig_act" where
  "fail_pending X err lc =
     (if lc_bc lc = None \<or> net_mig_state lc = MIG_DONE \<or> net_mig_state lc = MIG_FAILED then (lc, [])
      else fail_migration X err
             (if net_mig_start lc = 0 then lc\<lparr>net_mig_start := handover_start (mx_nm X)\<rparr> else lc))"

section \<open>What other parts report about a call\<close>

definition migrating :: "vcall \<Rightarrow> bool" where
  "migrating lc \<longleftrightarrow> net_mig_state lc \<in> {MIG_STALLED, MIG_WAIT_ADDR, MIG_DEFERRED, MIG_SENT}"

text \<open>\<open>vox_netmon_call_stalled\<close>; the last component says that the verify timer is to be started.\<close>

definition stall_refused :: "mctx \<Rightarrow> vcall \<Rightarrow> bool" where
  "stall_refused X lc =
     (\<not> nm_started (mx_nm X) \<or>
      (case lc_bc lc of
         None \<Rightarrow> True
       | Some bc \<Rightarrow>
           (net_mig_gen lc = nm_gen (mx_nm X) \<and> migrating lc) \<or>
           lc_state lc = CALL_HELD \<or> local_hold lc \<or> ne_onhold (mx_env X) bc \<or>
           (net_stall_repair_at lc \<noteq> 0 \<and> ne_now (mx_env X) - net_stall_repair_at lc < VOX_NET_STALL_COOLDOWN_MS) \<or>
           VOX_NET_STALL_ROUNDS \<le> net_stall_rounds lc))"

definition stall_claim :: "mctx \<Rightarrow> vcall \<Rightarrow> vcall" where
  "stall_claim X lc =
     lc\<lparr>net_stall_repair_at := ne_now (mx_env X), net_stall_rounds := net_stall_rounds lc + 1,
        net_mig_gen := nm_gen (mx_nm X), net_mig_tries := 0, net_mig_due := 0, net_ice_stale_sent := False,
        net_ice_restarted := False, net_mig_path_moved := False, net_mig_tried := [], net_mig_stall := True,
        net_mig_start := ne_now (mx_env X), net_mig_state := MIG_STALLED, net_mig_laddr := None\<rparr>"

definition vox_netmon_call_stalled :: "mctx \<Rightarrow> vcall \<Rightarrow> vcall \<times> bool" where
  "vox_netmon_call_stalled X lc = (if stall_refused X lc then (lc, False) else (stall_claim X lc, True))"

definition vox_netmon_call_refreshable :: "netmon \<Rightarrow> vcall \<Rightarrow> netmon" where
  "vox_netmon_call_refreshable N lc =
     (if \<not> nm_started N \<or> net_mig_state lc \<noteq> MIG_DEFERRED \<or> net_mig_gen lc \<noteq> nm_gen N then N
      else N\<lparr>tmr_verify := Some 1\<rparr>)"

definition vox_netmon_call_sdp_answer :: "mctx \<Rightarrow> vcall \<Rightarrow> net_eff list" where
  "vox_netmon_call_sdp_answer X lc =
     (if \<not> nm_started (mx_nm X) \<or> net_mig_state lc \<noteq> MIG_SENT \<or> net_mig_gen lc \<noteq> nm_gen (mx_nm X) then []
      else netmon_emit X NET_CALL_MIGRATE_ACCEPTED (Some lc) (lc_acct lc) None (net_mig_tries lc))"

section \<open>What an offer does to a call\<close>

text \<open>
  The state of a migration that the properties speak of: how far it is from its verdict
  (\<open>rank\<close>, for a budget of \<open>M\<close> attempts), and the verdicts among the effects.
\<close>

definition rank :: "nat \<Rightarrow> vcall \<Rightarrow> nat" where
  "rank M lc =
     (let left = 2 * (M - unat (net_mig_tries lc))
      in case net_mig_state lc of
           MIG_STALLED \<Rightarrow> left + 3
         | MIG_WAIT_ADDR \<Rightarrow> left + 1
         | MIG_DEFERRED \<Rightarrow> left + 1
         | MIG_SENT \<Rightarrow> left + 2
         | _ \<Rightarrow> 0)"

definition in_budget :: "nat \<Rightarrow> vcall \<Rightarrow> bool" where
  "in_budget M lc \<longleftrightarrow>
     (migrating lc \<longrightarrow> (if net_mig_state lc = MIG_SENT then unat (net_mig_tries lc) \<le> M else unat (net_mig_tries lc) < M))"

definition settled :: "vcall \<Rightarrow> bool" where
  "settled lc \<longleftrightarrow> net_mig_state lc = MIG_DONE \<or> net_mig_state lc = MIG_FAILED"

fun is_verdict :: "net_eff \<Rightarrow> bool" where
  "is_verdict (N_Post (EV_NETWORK what c a l n1 n2 n3 b e)) = (what = NET_CALL_MIGRATED \<or> what = NET_CALL_MIGRATION_FAILED)"
| "is_verdict _ = False"

fun is_offer :: "net_eff \<Rightarrow> bool" where
  "is_offer (N_ResetTransp bc l) = True"
| "is_offer _ = False"

lemma rank_zero: "rank M lc = 0 \<longleftrightarrow> \<not> migrating lc"
  by (cases "net_mig_state lc") (simp_all add: rank_def migrating_def Let_def)

lemma max_attempts_for_le: "max_attempts (mx_nm X) \<noteq> 0 \<Longrightarrow> max_attempts_for X lc \<le> max_attempts (mx_nm X)"
  by (auto simp: max_attempts_for_def Let_def word_le_nat_alt word_less_nat_alt unat_gt_0 Suc_le_eq)

lemma emit_verdicts [simp]:
  "filter is_verdict (netmon_emit X what lc a e n) =
     (if ne_qev (mx_env X) \<and> (what = NET_CALL_MIGRATED \<or> what = NET_CALL_MIGRATION_FAILED) then netmon_emit X what lc a e n else [])"
  "length (netmon_emit X what lc a e n) = (if ne_qev (mx_env X) then 1 else 0)"
  "filter is_offer (netmon_emit X what lc a e n) = []"
  by (simp_all add: netmon_emit_def Let_def)

lemma remember_fields [simp]:
  "net_mig_state (laddr_remember l lc) = net_mig_state lc" "net_mig_tries (laddr_remember l lc) = net_mig_tries lc"
  "net_mig_gen (laddr_remember l lc) = net_mig_gen lc" "lc_bc (laddr_remember l lc) = lc_bc lc"
  "net_mig_stall (laddr_remember l lc) = net_mig_stall lc"
  by (simp_all add: laddr_remember_def split: option.splits)

lemma next_laddr_fields [simp]:
  "net_mig_state (fst (next_laddr E f lc)) = net_mig_state lc" "net_mig_tries (fst (next_laddr E f lc)) = net_mig_tries lc"
  "net_mig_gen (fst (next_laddr E f lc)) = net_mig_gen lc" "lc_bc (fst (next_laddr E f lc)) = lc_bc lc"
  by (simp_all add: next_laddr_def Let_def split: option.splits)

lemma fail_migration_res:
  assumes "fail_migration X e lc = (lc', es)"
  shows "net_mig_state lc' = MIG_FAILED" "net_mig_gen lc' = net_mig_gen lc" "net_mig_tries lc' = net_mig_tries lc"
    "length (filter is_verdict es) = (if ne_qev (mx_env X) then 1 else 0)" "filter is_offer es = []"
  using assms by (auto simp: fail_migration_def Let_def split: option.splits)

text \<open>
  The outcomes of an offer: the state it leaves, with one attempt spent, one verdict exactly
  when the state is final, and at most one offer.
\<close>

definition offered :: "mctx \<Rightarrow> vcall \<Rightarrow> vcall \<times> net_eff list \<Rightarrow> bool" where
  "offered X lc r \<longleftrightarrow>
     net_mig_gen (fst r) = net_mig_gen lc \<and> net_mig_tries (fst r) = net_mig_tries lc \<and>
     (settled (fst r) \<or> net_mig_state (fst r) = MIG_SENT \<or>
      net_mig_state (fst r) = MIG_DEFERRED \<and> net_mig_tries lc < max_attempts (mx_nm X)) \<and>
     length (filter is_verdict (snd r)) = (if ne_qev (mx_env X) \<and> settled (fst r) then 1 else 0) \<and>
     length (filter is_offer (snd r)) \<le> 1"

lemma plain_offer_offered: "max_attempts (mx_nm X) \<noteq> 0 \<Longrightarrow> offered X lc (plain_offer X bc lc)"
proof -
  assume m: "max_attempts (mx_nm X) \<noteq> 0"
  show ?thesis
  proof (cases "ne_reset (mx_env X) bc (net_mig_laddr lc)")
    case None
    then show ?thesis by (simp add: plain_offer_def offered_def settled_def Let_def)
  next
    case (Some e)
    obtain lc' es where f: "fail_migration X e lc = (lc', es)" by (rule prod.exhaust)
    show ?thesis using max_attempts_for_le [OF m, of lc] fail_migration_res [OF f] Some
      by (auto simp: plain_offer_def offered_def settled_def f)
  qed
qed

definition sent :: "mctx \<Rightarrow> vcall \<Rightarrow> vcall \<times> net_eff list \<Rightarrow> bool" where
  "sent X lc r \<longleftrightarrow>
     net_mig_gen (fst r) = net_mig_gen lc \<and>
     length (filter is_verdict (snd r)) = (if ne_qev (mx_env X) \<and> settled (fst r) then 1 else 0) \<and>
     (net_mig_tries (fst r) = net_mig_tries lc \<and> net_mig_state (fst r) = MIG_DEFERRED \<and> filter is_offer (snd r) = [] \<and>
        lc_bc lc \<noteq> None \<and> \<not> ne_refresh (mx_env X) (the (lc_bc lc)) \<or>
      net_mig_tries (fst r) = net_mig_tries lc + 1 \<and> length (filter is_offer (snd r)) \<le> 1 \<and>
        (settled (fst r) \<or> net_mig_state (fst r) = MIG_SENT \<or>
         net_mig_state (fst r) = MIG_DEFERRED \<and> net_mig_tries lc + 1 < max_attempts (mx_nm X)))"

lemma offered_sent:
  assumes "offered X c r" and "net_mig_gen c = net_mig_gen lc" and "net_mig_tries c = net_mig_tries lc + 1"
    and "filter is_verdict pre = []" and "filter is_offer pre = []"
  shows "sent X lc (fst r, pre @ snd r)"
  using assms unfolding offered_def sent_def by (elim conjE) (simp only: fst_conv snd_conv filter_append append_Nil simp_thms)

lemma send_migration_sent:
  assumes "max_attempts (mx_nm X) \<noteq> 0" and "lc_bc lc = Some bc"
  shows "sent X lc (send_migration X lc)"
proof (cases "ne_refresh (mx_env X) bc")
  case False
  then show ?thesis using assms(2) by (simp add: send_migration_def sent_def settled_def Let_def)
next
  case True
  let ?lc1 = "laddr_remember (net_mig_laddr lc) (lc\<lparr>net_rx_at_mig := rx_packets X lc, net_mig_tries := net_mig_tries lc + 1\<rparr>)"
  let ?r = "ne_ice_restart (mx_env X) bc (net_mig_laddr ?lc1)"
  have o: "sent X lc (fst (plain_offer X bc c), pre @ snd (plain_offer X bc c))"
    if "net_mig_gen c = net_mig_gen lc" "net_mig_tries c = net_mig_tries lc + 1"
      "filter is_verdict pre = []" "filter is_offer pre = []" for c pre
    using offered_sent [OF plain_offer_offered [OF assms(1)] that] .
  have a: "andthen (\<lambda>c. (c, pre)) f c = (fst (f c), pre @ snd (f c))" for pre f c
    by (simp add: andthen_def split: prod.splits)
  have e: "emit x = (\<lambda>c. (c, [x]))" for x by (simp add: emit_def fun_eq_iff)
  consider "\<not> net_mig_path_moved ?lc1" | "net_mig_path_moved ?lc1" "?r = None \<or> ?r = Some EALREADY"
    | "net_mig_path_moved ?lc1" "\<not> (?r = None \<or> ?r = Some EALREADY)" by blast
  then show ?thesis
  proof cases
    case 1
    then show ?thesis using True assms(2) o [of ?lc1 "[]"] by (simp add: send_migration_def Let_def)
  next
    case 2
    then show ?thesis using True assms(2) by (simp add: send_migration_def Let_def sent_def settled_def)
  next
    case 3
    have "send_migration X lc = (if ?r \<noteq> Some ENOENT \<and> \<not> net_ice_stale_sent ?lc1 then
        andthen (\<lambda>c. (c, N_IceRestart bc (net_mig_laddr ?lc1)
           # netmon_emit X NET_CALL_ICE_STALE (Some (?lc1\<lparr>net_ice_stale_sent := True\<rparr>)) (lc_acct (?lc1\<lparr>net_ice_stale_sent := True\<rparr>)) ?r
               (net_mig_tries (?lc1\<lparr>net_ice_stale_sent := True\<rparr>)))) (plain_offer X bc) (?lc1\<lparr>net_ice_stale_sent := True\<rparr>)
        else andthen (emit (N_IceRestart bc (net_mig_laddr ?lc1))) (plain_offer X bc) ?lc1)"
      unfolding send_migration_def assms(2) option.case Let_def using True 3 by (simp only: not_True_eq_False if_True if_False)
    then show ?thesis unfolding e a
      by (simp only: split: if_split) (intro conjI impI; rule o; simp)
  qed
qed

lemma retry_migration_sent:
  assumes "max_attempts (mx_nm X) \<noteq> 0" and "lc_bc lc = Some bc"
  shows "sent X lc (retry_migration X lc)"
proof -
  have *: "sent X lc (send_migration X c)"
    if "net_mig_gen c = net_mig_gen lc" "net_mig_tries c = net_mig_tries lc" "lc_bc c = lc_bc lc" for c
    using send_migration_sent [OF assms(1), of c bc] that assms(2) by (simp add: sent_def)
  let ?c = "laddr_remember (net_mig_laddr lc) lc"
  show ?thesis
  proof (cases "net_mig_laddr ?c")
    case None
    then show ?thesis using * [of ?c] by (simp add: retry_migration_def Let_def)
  next
    case (Some cur)
    obtain c2 a where n: "next_laddr (mx_env X) (sa_af cur) ?c = (c2, a)" by (rule prod.exhaust)
    have f: "net_mig_gen c2 = net_mig_gen lc" "net_mig_tries c2 = net_mig_tries lc" "lc_bc c2 = lc_bc lc"
      using next_laddr_fields [of "mx_env X" "sa_af cur" ?c] by (simp_all add: n)
    show ?thesis using * [of ?c] * [of c2] * [of "c2\<lparr>net_mig_laddr := a\<rparr>"] f
      by (cases a) (simp_all add: retry_migration_def Let_def Some n)
  qed
qed

text \<open>Starting from a call of generation \<open>g0\<close> with \<open>n\<close> attempts spent.\<close>

definition started :: "mctx \<Rightarrow> u32 \<Rightarrow> u32 \<Rightarrow> vcall \<times> net_eff list \<Rightarrow> bool" where
  "started X g0 n r \<longleftrightarrow>
     (net_mig_gen (fst r) = g0 \<or> net_mig_gen (fst r) = nm_gen (mx_nm X)) \<and>
     length (filter is_verdict (snd r)) = (if ne_qev (mx_env X) \<and> settled (fst r) then 1 else 0) \<and>
     (net_mig_state (fst r) = MIG_IDLE \<and> filter is_offer (snd r) = [] \<or>
      net_mig_gen (fst r) = nm_gen (mx_nm X) \<and>
      (net_mig_tries (fst r) = n \<and> (net_mig_state (fst r) = MIG_DEFERRED \<or> net_mig_state (fst r) = MIG_WAIT_ADDR) \<and> filter is_offer (snd r) = [] \<or>
       net_mig_tries (fst r) = n + 1 \<and> length (filter is_offer (snd r)) \<le> 1 \<and>
        (settled (fst r) \<or> net_mig_state (fst r) = MIG_SENT \<or>
         net_mig_state (fst r) = MIG_DEFERRED \<and> n + 1 < max_attempts (mx_nm X))))"

lemma sent_started: "sent X c r \<Longrightarrow> net_mig_gen c = nm_gen (mx_nm X) \<Longrightarrow> net_mig_tries c = n \<Longrightarrow> started X g0 n r"
  unfolding sent_def started_def by (elim conjE disjE) simp_all

lemma rotated_fields:
  "net_mig_tries (fst (rotated E l lc)) = net_mig_tries lc" "net_mig_gen (fst (rotated E l lc)) = net_mig_gen lc"
  "lc_bc (fst (rotated E l lc)) = lc_bc lc" "net_mig_stall (fst (rotated E l lc)) = net_mig_stall lc"
  by (auto simp: rotated_def next_laddr_def Let_def split: option.splits prod.splits)

lemma start_migration_started:
  assumes "max_attempts (mx_nm X) \<noteq> 0"
  shows "started X (net_mig_gen lc) (if net_mig_gen lc = nm_gen (mx_nm X) then net_mig_tries lc else 0) (start_migration X lc)"
proof (cases "lc_bc lc")
  case None
  then show ?thesis by (simp add: start_migration_def started_def settled_def)
next
  case (Some bc)
  let ?lc1 = "stamp_call X lc"
  let ?n = "if net_mig_gen lc = nm_gen (mx_nm X) then net_mig_tries lc else 0"
  have s: "net_mig_gen ?lc1 = nm_gen (mx_nm X)" "net_mig_tries ?lc1 = ?n" "lc_bc ?lc1 = Some bc"
    by (simp_all add: stamp_call_def Some)
  show ?thesis
  proof (cases "source_addr (mx_env X) bc")
    case None
    then show ?thesis using s
      by (auto simp: start_migration_def Some Let_def wait_for_addr_def started_def settled_def)
  next
    case (Some route)
    obtain lc2 laddr where r: "rotated (mx_env X) route ?lc1 = (lc2, laddr)" by (rule prod.exhaust)
    have f: "net_mig_gen lc2 = nm_gen (mx_nm X)" "net_mig_tries lc2 = ?n" "lc_bc lc2 = Some bc"
      using rotated_fields [of "mx_env X" route ?lc1] s by (simp_all add: r)
    have "started X (net_mig_gen lc) ?n (send_migration X (lc2\<lparr>net_mig_path_moved := b, net_mig_laddr := a\<rparr>))" for a b
      by (rule sent_started [OF send_migration_sent [OF assms, where bc = bc]]) (simp_all add: f)
    moreover have "started X (net_mig_gen lc) ?n (lc2\<lparr>net_mig_state := MIG_IDLE\<rparr>, [])" using f by (simp add: started_def settled_def)
    ultimately show ?thesis by (simp add: start_migration_def \<open>lc_bc lc = Some bc\<close> Let_def Some r)
  qed
qed

section \<open>One tick of the verdict\<close>

text \<open>Whether a tick may judge the call: an offer that is not due yet is left alone.\<close>

definition due :: "mctx \<Rightarrow> vcall \<Rightarrow> bool" where
  "due X lc \<longleftrightarrow> \<not> (net_mig_state lc = MIG_SENT \<and> net_mig_due lc \<noteq> 0 \<and> ne_now (mx_env X) + 100 < net_mig_due lc)"

definition tick_ctx :: "u32 \<Rightarrow> u32 \<Rightarrow> mctx \<Rightarrow> bool" where
  "tick_ctx g m X \<longleftrightarrow> nm_gen (mx_nm X) = g \<and> max_attempts (mx_nm X) = m \<and> m \<noteq> 0"

lemma unat_inc: "unat (t :: u32) < unat (m :: u32) \<Longrightarrow> unat (t + 1) = Suc (unat t)"
proof -
  assume t: "unat t < unat m"
  have "unat m < 2 ^ LENGTH(32)" by (rule unsigned_less)
  with t show ?thesis by (simp only: unat_word_ariths(1) unat_1) simp
qed

lemma rank_states:
  "net_mig_state lc = MIG_STALLED \<Longrightarrow> rank M lc = 2 * (M - unat (net_mig_tries lc)) + 3"
  "net_mig_state lc = MIG_WAIT_ADDR \<Longrightarrow> rank M lc = 2 * (M - unat (net_mig_tries lc)) + 1"
  "net_mig_state lc = MIG_DEFERRED \<Longrightarrow> rank M lc = 2 * (M - unat (net_mig_tries lc)) + 1"
  "net_mig_state lc = MIG_SENT \<Longrightarrow> rank M lc = 2 * (M - unat (net_mig_tries lc)) + 2"
  "settled lc \<Longrightarrow> rank M lc = 0" "net_mig_state lc = MIG_IDLE \<Longrightarrow> rank M lc = 0"
  by (auto simp: rank_def Let_def settled_def)

text \<open>What a tick may do to a call that is migrating.\<close>

definition ticked :: "bool \<Rightarrow> nat \<Rightarrow> vcall \<Rightarrow> vcall \<times> net_eff list \<Rightarrow> bool" where
  "ticked q M lc r \<longleftrightarrow>
     in_budget M (fst r) \<and> net_mig_gen (fst r) = net_mig_gen lc \<and>
     length (filter is_verdict (snd r)) = (if q \<and> settled (fst r) then 1 else 0) \<and>
     (migrating (fst r) \<or> settled (fst r) \<longrightarrow>
        unat (net_mig_tries lc) + length (filter is_offer (snd r)) \<le> unat (net_mig_tries (fst r)) \<and> unat (net_mig_tries (fst r)) \<le> M) \<and>
     length (filter is_offer (snd r)) \<le> M - unat (net_mig_tries lc)"

lemma migrating_cases:
  "migrating lc \<longleftrightarrow> net_mig_state lc = MIG_STALLED \<or> net_mig_state lc = MIG_WAIT_ADDR \<or> net_mig_state lc = MIG_DEFERRED \<or> net_mig_state lc = MIG_SENT"
  by (simp add: migrating_def)

lemma started_ticked:
  assumes "started X g0 n r" and "tick_ctx g m X" and "unat n < unat m" and "net_mig_gen lc = g"
    and "unat (net_mig_tries lc) \<le> unat n" and "g0 = g"
  shows "ticked (ne_qev (mx_env X)) (unat m) lc r" and "rank (unat m) (fst r) \<le> 2 * (unat m - unat n) + 1"
  using assms unat_inc [OF assms(3)] unfolding started_def ticked_def tick_ctx_def in_budget_def
  by (auto simp: migrating_cases settled_def rank_def word_less_nat_alt)

lemma sent_ticked:
  assumes "sent X lc r" and "tick_ctx g m X" and "unat (net_mig_tries lc) < unat m" and "net_mig_gen lc = g"
  shows "ticked (ne_qev (mx_env X)) (unat m) lc r" and "rank (unat m) (fst r) \<le> 2 * (unat m - unat (net_mig_tries lc)) + 1"
    and "ne_refresh (mx_env X) (the (lc_bc lc)) \<Longrightarrow> rank (unat m) (fst r) \<le> 2 * (unat m - unat (net_mig_tries lc))"
  using assms unat_inc [OF assms(3)] unfolding sent_def ticked_def tick_ctx_def in_budget_def
  by (auto simp: migrating_cases settled_def rank_def word_less_nat_alt)

lemma failed_ticked:
  assumes "tick_ctx g m X" and "unat (net_mig_tries lc) \<le> unat (net_mig_tries c)" and "unat (net_mig_tries c) \<le> unat m"
    and "net_mig_gen c = net_mig_gen lc"
  shows "ticked (ne_qev (mx_env X)) (unat m) lc (fail_migration X e c)" and "rank (unat m) (fst (fail_migration X e c)) = 0"
proof -
  obtain c' es where f: "fail_migration X e c = (c', es)" by (rule prod.exhaust)
  note r = fail_migration_res [OF f]
  show "ticked (ne_qev (mx_env X)) (unat m) lc (fail_migration X e c)" and "rank (unat m) (fst (fail_migration X e c)) = 0"
    using r assms by (simp_all add: f ticked_def in_budget_def migrating_cases settled_def rank_def tick_ctx_def)
qed

lemma verify_call_tick:
  assumes "tick_ctx g m X" and "net_mig_gen lc = g" and "migrating lc" and "in_budget (unat m) lc"
  shows "ticked (ne_qev (mx_env X)) (unat m) lc (verify_call X lc)"
    and "due X lc \<Longrightarrow> rank (unat m) (fst (verify_call X lc)) < rank (unat m) lc"
proof -
  have m: "max_attempts (mx_nm X) = m" "m \<noteq> 0" "nm_gen (mx_nm X) = g" using assms(1) by (auto simp: tick_ctx_def)
  then have m0: "max_attempts (mx_nm X) \<noteq> 0" by simp
  let ?t = "net_mig_tries lc"
  have "ticked (ne_qev (mx_env X)) (unat m) lc (verify_call X lc) \<and> (due X lc \<longrightarrow> rank (unat m) (fst (verify_call X lc)) < rank (unat m) lc)"
  proof (cases "lc_bc lc")
    case None
    then show ?thesis using assms(2,3) m
      by (auto simp: verify_call_def ticked_def in_budget_def migrating_cases settled_def rank_states)
  next
    case (Some bc)
    show ?thesis
    proof (cases "net_mig_state lc")
      case MIG_STALLED
      then have t: "unat ?t < unat m" using assms(3,4) by (simp add: in_budget_def)
      have "verify_call X lc = start_migration X lc" by (simp add: verify_call_def assms(2) m(3) Some MIG_STALLED)
      then show ?thesis
        using started_ticked [OF start_migration_started [OF m0, of lc] assms(1), of lc] t assms(2) m(3) MIG_STALLED
        by (simp add: rank_states)
    next
      case MIG_WAIT_ADDR
      then have t: "unat ?t < unat m" using assms(3,4) by (simp add: in_budget_def)
      let ?c = "lc\<lparr>net_mig_tries := ?t + 1\<rparr>"
      have v: "verify_call X lc = (if m \<le> ?t + 1 then fail_migration X EHOSTUNREACH ?c else start_migration X ?c)"
        by (simp add: verify_call_def assms(2) m(1,3) Some MIG_WAIT_ADDR Let_def)
      show ?thesis
      proof (cases "m \<le> ?t + 1")
        case True
        then show ?thesis using failed_ticked [OF assms(1), of lc ?c] t unat_inc [OF t] MIG_WAIT_ADDR
          by (simp add: v rank_states)
      next
        case False
        then have "unat (?t + 1) < unat m" by (simp add: word_le_nat_alt)
        then show ?thesis
          using started_ticked [OF start_migration_started [OF m0, of ?c] assms(1), of lc] t unat_inc [OF t] assms(2) m(3) MIG_WAIT_ADDR False
          by (simp add: v rank_states) arith
      qed
    next
      case MIG_DEFERRED
      then have t: "unat ?t < unat m" using assms(3,4) by (simp add: in_budget_def)
      let ?c = "lc\<lparr>net_mig_tries := ?t + 1\<rparr>"
      show ?thesis
      proof (cases "ne_refresh (mx_env X) bc")
        case True
        then have "verify_call X lc = send_migration X lc" by (simp add: verify_call_def assms(2) m(3) Some MIG_DEFERRED)
        then show ?thesis using sent_ticked [OF send_migration_sent [OF m0 Some] assms(1) t assms(2)] True MIG_DEFERRED Some
          by (simp add: rank_states)
      next
        case False
        then have v: "verify_call X lc = (if m \<le> ?t + 1 then fail_migration X ETIMEDOUT ?c else (?c, []))"
          by (simp add: verify_call_def assms(2) m(1,3) Some MIG_DEFERRED Let_def)
        show ?thesis using failed_ticked [OF assms(1), of lc ?c] t unat_inc [OF t] assms(2) MIG_DEFERRED
          by (auto simp: v rank_states ticked_def in_budget_def migrating_cases settled_def word_le_nat_alt)
      qed
    next
      case MIG_SENT
      then have t: "unat ?t \<le> unat m" using assms(3,4) by (simp add: in_budget_def)
      have v: "verify_call X lc = (if \<not> due X lc then (lc, [])
          else if verify_ms (mx_nm X) = 0 \<or> lc_state lc = CALL_HELD \<or> ne_onhold (mx_env X) bc \<or> net_rx_at_mig lc < rx_packets X lc
          then (lc\<lparr>net_mig_state := MIG_DONE\<rparr>, netmon_emit X NET_CALL_MIGRATED (Some (lc\<lparr>net_mig_state := MIG_DONE\<rparr>)) (lc_acct lc) None ?t)
          else if max_attempts_for X lc \<le> ?t then fail_migration X ETIMEDOUT lc else retry_migration X lc)"
        by (simp add: verify_call_def assms(2) m(3) Some MIG_SENT due_def Let_def)
      have lt: "unat ?t < unat m" if "\<not> max_attempts_for X lc \<le> ?t"
        using that max_attempts_for_le [OF m0, of lc] by (simp add: m(1) word_le_nat_alt)
      show ?thesis
      proof (cases "due X lc \<and> \<not> max_attempts_for X lc \<le> ?t")
        case True
        show ?thesis using sent_ticked [OF retry_migration_sent [OF m0 Some] assms(1) lt assms(2)] True t assms(2) MIG_SENT
          by (auto simp: v rank_states ticked_def in_budget_def migrating_cases settled_def)
      next
        case False
        then show ?thesis using failed_ticked [OF assms(1), of lc lc] t assms(2) MIG_SENT
          by (auto simp: v rank_states ticked_def in_budget_def migrating_cases settled_def)
      qed
    qed (use assms(3) in \<open>simp_all add: migrating_def\<close>)
  qed
  then show "ticked (ne_qev (mx_env X)) (unat m) lc (verify_call X lc)"
    and "due X lc \<Longrightarrow> rank (unat m) (fst (verify_call X lc)) < rank (unat m) lc" by auto
qed

section \<open>Properties\<close>

text \<open>The runs of the verify tick over one call.\<close>

lemma verify_idle: "\<not> migrating lc \<Longrightarrow> verify_call X lc = (if lc_bc lc = None \<and> net_mig_gen lc = nm_gen (mx_nm X) then (lc\<lparr>net_mig_state := MIG_IDLE\<rparr>, []) else (lc, []))"
  by (cases "net_mig_state lc") (auto simp: verify_call_def migrating_def split: option.splits)

lemma verify_idle_run:
  assumes "\<not> migrating lc"
  shows "\<not> migrating (fst (run_acts verify_call Xs lc)) \<and> snd (run_acts verify_call Xs lc) = []"
  using assms
proof (induction Xs arbitrary: lc)
  case Nil
  then show ?case by simp
next
  case (Cons X Xs)
  have "\<not> migrating (fst (verify_call X lc))" "snd (verify_call X lc) = []"
    using Cons.prems by (auto simp: verify_idle migrating_def)
  then show ?case using Cons.IH [of "fst (verify_call X lc)"] by simp
qed

lemma verify_run:
  assumes "migrating lc \<Longrightarrow> net_mig_gen lc = g" and "in_budget (unat m) lc" and "migrating lc" and "\<forall>X \<in> set Xs. tick_ctx g m X \<and> ne_qev (mx_env X)"
  shows "length (filter is_verdict (snd (run_acts verify_call Xs lc))) \<le> 1 \<and>
    (migrating (fst (run_acts verify_call Xs lc)) \<longrightarrow> filter is_verdict (snd (run_acts verify_call Xs lc)) = []) \<and>
    length (filter is_offer (snd (run_acts verify_call Xs lc))) + unat (net_mig_tries lc) \<le> unat m"
  using assms
proof (induction Xs arbitrary: lc)
  case Nil
  then show ?case by (auto simp: in_budget_def split: if_splits)
next
  case (Cons X Xs)
  let ?c = "fst (verify_call X lc)"
  have t: "ticked True (unat m) lc (verify_call X lc)"
    using verify_call_tick(1) [of g m X lc] Cons.prems by simp
  have b: "unat (net_mig_tries lc) \<le> unat m" using Cons.prems(2,3) by (auto simp: in_budget_def split: if_splits)
  show ?case
  proof (cases "migrating ?c")
    case True
    then have c: "net_mig_gen ?c = g" "in_budget (unat m) ?c" using t Cons.prems by (auto simp: ticked_def)
    have "\<not> settled ?c" using True by (auto simp: migrating_cases settled_def)
    then have v: "filter is_verdict (snd (verify_call X lc)) = []"
      and o: "unat (net_mig_tries lc) + length (filter is_offer (snd (verify_call X lc))) \<le> unat (net_mig_tries ?c)"
      using t True by (simp_all add: ticked_def)
    show ?thesis using Cons.IH [OF c(1) c(2) True] Cons.prems(4) v o by simp
  next
    case False
    then show ?thesis using verify_idle_run [OF False, of Xs] t b by (auto simp: ticked_def settled_def)
  qed
qed

lemma verify_run_settles:
  assumes "net_mig_gen lc = g" and "in_budget (unat m) lc" and "\<forall>X \<in> set Xs. tick_ctx g m X \<and> ne_qev (mx_env X)"
    and "legal_run verify_call due Xs lc" and "rank (unat m) lc \<le> length Xs"
  shows "\<not> migrating (fst (run_acts verify_call Xs lc))"
  using assms
proof (induction Xs arbitrary: lc)
  case Nil
  then show ?case by (simp add: rank_zero)
next
  case (Cons X Xs)
  let ?c = "fst (verify_call X lc)"
  show ?case
  proof (cases "migrating lc")
    case False
    then show ?thesis using verify_idle_run by blast
  next
    case True
    have t: "ticked (ne_qev (mx_env X)) (unat m) lc (verify_call X lc)" "rank (unat m) ?c < rank (unat m) lc"
      using verify_call_tick [of g m X lc] Cons.prems True by simp_all
    show ?thesis
    proof (cases "migrating ?c")
      case True
      then show ?thesis using Cons.IH [of ?c] Cons.prems t by (simp add: ticked_def)
    next
      case False
      then show ?thesis using verify_idle_run [OF False, of Xs] by simp
    qed
  qed
qed

lemma verify_idle_settled:
  "\<not> migrating lc \<Longrightarrow> settled (fst (run_acts verify_call Xs lc)) \<Longrightarrow> settled lc"
proof (induction Xs arbitrary: lc)
  case (Cons X Xs)
  have "\<not> migrating (fst (verify_call X lc))" using Cons.prems(1) by (auto simp: verify_idle migrating_def)
  from Cons.IH [OF this] Cons.prems show ?case by (auto simp: verify_idle settled_def split: if_splits)
qed simp

lemma verify_run_told:
  assumes "net_mig_gen lc = g" and "in_budget (unat m) lc" and "migrating lc" and "\<forall>X \<in> set Xs. tick_ctx g m X \<and> ne_qev (mx_env X)"
    and "settled (fst (run_acts verify_call Xs lc))"
  shows "filter is_verdict (snd (run_acts verify_call Xs lc)) \<noteq> []"
  using assms
proof (induction Xs arbitrary: lc)
  case Nil
  then show ?case by (auto simp: migrating_cases settled_def)
next
  case (Cons X Xs)
  let ?c = "fst (verify_call X lc)"
  have t: "ticked True (unat m) lc (verify_call X lc)"
    using verify_call_tick(1) [of g m X lc] Cons.prems by simp
  show ?case
  proof (cases "migrating ?c")
    case True
    then have "net_mig_gen ?c = g" "in_budget (unat m) ?c" using t Cons.prems by (auto simp: ticked_def)
    then show ?thesis using Cons.IH [OF _ _ True] Cons.prems by simp
  next
    case False
    then have "settled ?c" using verify_idle_settled [OF False, of Xs] Cons.prems(5) by simp
    then show ?thesis using t by (auto simp: ticked_def)
  qed
qed

text \<open>
  C4: Every migration of a call comes to a verdict that the application is told once. Whatever
  the stack answers at each tick (offers refused, no route, a dialog that cannot be refreshed,
  silence on the new path), after at most two ticks per attempt of the budget and three more
  the call is no longer migrating, it has made no more offers than the budget allows, and at
  most one event gave a verdict, with exactly one when the migration succeeded or failed.
\<close>

theorem migration_settles:
  assumes "migrating lc" and "net_mig_gen lc = g" and "in_budget (unat m) lc" and "\<forall>X \<in> set Xs. tick_ctx g m X \<and> ne_qev (mx_env X)"
    and "legal_run verify_call due Xs lc" and "2 * unat m + 3 \<le> length Xs"
  shows "\<not> migrating (fst (run_acts verify_call Xs lc)) \<and>
    length (filter is_offer (snd (run_acts verify_call Xs lc))) \<le> unat m \<and>
    length (filter is_verdict (snd (run_acts verify_call Xs lc))) \<le> 1 \<and>
    (settled (fst (run_acts verify_call Xs lc)) \<longrightarrow> length (filter is_verdict (snd (run_acts verify_call Xs lc))) = 1)"
proof -
  have "rank (unat m) lc \<le> 2 * unat m + 3" by (cases "net_mig_state lc") (simp_all add: rank_def Let_def)
  then have "\<not> migrating (fst (run_acts verify_call Xs lc))"
    using verify_run_settles [OF assms(2-5)] assms(6) by simp
  moreover have "length (filter is_verdict (snd (run_acts verify_call Xs lc))) \<le> 1"
    "length (filter is_offer (snd (run_acts verify_call Xs lc))) \<le> unat m"
    using verify_run [OF assms(2,3,1,4)] by auto
  moreover have "filter is_verdict (snd (run_acts verify_call Xs lc)) \<noteq> []" if "settled (fst (run_acts verify_call Xs lc))"
    using verify_run_told [OF assms(2,3,1,4) that] .
  ultimately show ?thesis by (auto simp: le_Suc_eq)
qed

definition netmon0 :: netmon where
  "netmon0 = \<lparr>tmr_poll = None, tmr_settle = None, tmr_verify = None, nm_started = True, reset_pending = False, force = False,
     announced = False, nm_down = False, nm_gen = 4, nm_attempt = 0, wait_ticks = 0, handover_start = 0, poll_s = 0,
     settle_ms = 1500, verify_ms = 4000, max_attempts = 1, reinvite_calls = True, hangup_on_fail = True,
     nm_ice_handover = ICE_BEST_EFFORT, cur_laddr = ''a''\<rparr>"

definition net_env0 :: "u64 \<Rightarrow> net_env" where
  "net_env0 now = \<lparr>ne_now = now, ne_qev = True, ne_refresh = (\<lambda>_. True), ne_rx = (\<lambda>_. Some 7), ne_onhold = (\<lambda>_. False),
     ne_ice = (\<lambda>_. False), ne_ice_restart = (\<lambda>_ _. Some ENOENT), ne_reset = (\<lambda>_ _. None),
     ne_raddr = (\<lambda>_. Some (SA INET ''p'')), ne_sdp_raddr = (\<lambda>_. None), ne_call_laddr = (\<lambda>_. Some (SA INET ''a'')),
     ne_route = (\<lambda>_. Some (SA INET ''a'')), ne_laddrs = [SA INET ''a'', SA INET ''b''],
     ne_loopback = (\<lambda>_. False), ne_linklocal = (\<lambda>_. False)\<rparr>"

definition net_cfg0 :: net_cfg where
  "net_cfg0 = \<lparr>nc_monitor_interval_s = 0, nc_settle_ms = 0, nc_verify_ms = 4000, nc_max_attempts = 1, nc_reinvite_calls = True,
     nc_hangup_on_migration_failure = True, nc_ice_handover = ICE_BEST_EFFORT, nc_ice_gathering_timeout_ms = 0,
     nc_ice_enabled = False, nc_prefer_ipv6 = False\<rparr>"

definition mctx0 :: "u64 \<Rightarrow> mctx" where
  "mctx0 now = \<lparr>mx_libre = libre_ref, mx_cfg = net_cfg0, mx_nm = netmon0, mx_env = net_env0 now, mx_db = db_one\<rparr>"

definition stalled_call :: vcall where
  "stalled_call = stall_claim (mctx0 1000) (call_zero 7 3 (Some 1) CALL_ESTABLISHED)"

definition silent_ticks :: "mctx list" where
  "silent_ticks = map mctx0 [2000, 12000, 22000, 32000, 42000]"

theorem migration_settles_witness:
  "net_mig_state (fst (run_acts verify_call silent_ticks stalled_call)) = MIG_FAILED \<and>
   length (filter is_verdict (snd (run_acts verify_call silent_ticks stalled_call))) = 1"
proof -
  have a: "migrating stalled_call" "net_mig_gen stalled_call = 4" "in_budget (unat (1 :: u32)) stalled_call"
    "\<forall>X \<in> set silent_ticks. tick_ctx 4 1 X \<and> ne_qev (mx_env X)" "legal_run verify_call due silent_ticks stalled_call"
    "2 * unat (1 :: u32) + 3 \<le> length silent_ticks" by code_simp+
  have f: "net_mig_state (fst (run_acts verify_call silent_ticks stalled_call)) = MIG_FAILED" by code_simp
  from migration_settles [OF a] f show ?thesis by (simp add: settled_def)
qed

end
