(* ===== verification/Vox_Netmon.thy ===== *)
theory Vox_Netmon
  imports Vox_Mig
begin

text \<open>
  The second half of \<^verbatim>\<open>src/netmon.c\<close>: the monitor. Scanning of the host's addresses, the
  debounce, the handover of transports, registrations and calls with its backoff, the verify
  timer, and the public functions. The handlers of single calls are in \<open>Vox_Mig\<close>, those of
  single accounts in \<open>Vox_Reg_Fsm\<close>.
\<close>

section \<open>State and environment\<close>

text \<open>
  What the host and the stack answer: to the handlers of calls and accounts; the addresses of
  the host's interfaces, the stack's filter on them, which known addresses are gone; the stack's
  list of addresses after adding or removing one; the address of a family (\<open>None\<close> is
  \<open>AF_UNSPEC\<close>) in that list; the stack's own family; the outcome of flushing the transports;
  whether the application pinned its nameservers.
\<close>

record mon_env =
  mo_net :: net_env
  mo_acct :: env
  mo_ifaddrs :: "sa list"
  mo_filter :: "sa \<Rightarrow> bool"
  mo_gone :: "sa \<Rightarrow> bool"
  mo_add :: "sa \<Rightarrow> sa list \<Rightarrow> errno + sa list"
  mo_rm :: "sa \<Rightarrow> sa list \<Rightarrow> errno + sa list"
  mo_laddr_af :: "af option \<Rightarrow> sa list \<Rightarrow> sa option"
  mo_net_af :: "af option"
  mo_reset_all :: "errno option"
  mo_nsc :: bool

text \<open>\<open>g_nm\<close>, the stack's local addresses, and the accounts and calls.\<close>

record net =
  n_nm :: netmon
  n_laddrs :: "sa list"
  n_vox :: vox

type_synonym net_act = "(net, net_eff) act"

text \<open>The configuration that does not change while the monitor runs.\<close>

record net_par =
  np_libre :: libre
  np_vox :: vox_cfg
  np_net :: net_cfg

definition ctx :: "net_par \<Rightarrow> mon_env \<Rightarrow> net \<Rightarrow> mctx" where
  "ctx P E st = \<lparr>mx_libre = np_libre P, mx_cfg = np_net P, mx_nm = n_nm st,
     mx_env = (mo_net E)\<lparr>ne_laddrs := n_laddrs st\<rparr>, mx_db = v_db (n_vox st)\<rparr>"

definition set_nm :: "(netmon \<Rightarrow> netmon) \<Rightarrow> net_act" where
  "set_nm f = upd (\<lambda>st. st\<lparr>n_nm := f (n_nm st)\<rparr>)"

text \<open>\<open>netmon_emit\<close> of an event without a call.\<close>

definition emit_net :: "net_par \<Rightarrow> mon_env \<Rightarrow> net_event \<Rightarrow> errno option \<Rightarrow> u32 \<Rightarrow> net_act" where
  "emit_net P E what err attempt st = (st, netmon_emit (ctx P E st) what None None err attempt)"

section \<open>Scanning the addresses\<close>

definition VOX_NET_SCAN_MAX :: nat where "VOX_NET_SCAN_MAX = 32"

definition if_missing_h :: "mon_env \<Rightarrow> sa list \<Rightarrow> sa \<Rightarrow> bool" where
  "if_missing_h E laddrs s \<longleftrightarrow> mo_filter E s \<and> s \<notin> set laddrs"

text \<open>The two loops, with the passes left; the result is the number of changes.\<close>

fun scan_add :: "mon_env \<Rightarrow> nat \<Rightarrow> sa list \<Rightarrow> nat \<times> sa list \<times> net_eff list" where
  "scan_add E 0 laddrs = (0, laddrs, [])"
| "scan_add E (Suc n) laddrs =
     (case find (if_missing_h E laddrs) (mo_ifaddrs E) of
        None \<Rightarrow> (0, laddrs, [])
      | Some s \<Rightarrow>
          (case mo_add E s laddrs of
             Inl _ \<Rightarrow> (0, laddrs, [N_AddAddress s])
           | Inr laddrs1 \<Rightarrow>
               (case scan_add E n laddrs1 of (k, l, es) \<Rightarrow> (Suc k, l, N_AddAddress s # es))))"

fun scan_rm :: "mon_env \<Rightarrow> nat \<Rightarrow> sa list \<Rightarrow> nat \<times> sa list \<times> net_eff list" where
  "scan_rm E 0 laddrs = (0, laddrs, [])"
| "scan_rm E (Suc n) laddrs =
     (case find (mo_gone E) laddrs of
        None \<Rightarrow> (0, laddrs, [])
      | Some s \<Rightarrow>
          (case mo_rm E s laddrs of
             Inl _ \<Rightarrow> (0, laddrs, [N_RmAddress s])
           | Inr laddrs1 \<Rightarrow>
               (case scan_rm E n laddrs1 of (k, l, es) \<Rightarrow> (Suc k, l, N_RmAddress s # es))))"

definition scan_addresses :: "mon_env \<Rightarrow> net \<Rightarrow> nat \<times> net \<times> net_eff list" where
  "scan_addresses E st =
     (case scan_add E VOX_NET_SCAN_MAX (n_laddrs st) of
        (k1, l1, es1) \<Rightarrow>
          (case scan_rm E VOX_NET_SCAN_MAX l1 of
             (k2, l2, es2) \<Rightarrow> (k1 + k2, st\<lparr>n_laddrs := l2\<rparr>, es1 @ es2)))"

text \<open>\<open>scan_usable\<close>: routable, link-local; the walk stops at the first routable address.\<close>

fun scan_usable :: "mon_env \<Rightarrow> sa list \<Rightarrow> bool \<times> bool \<Rightarrow> bool \<times> bool" where
  "scan_usable E [] c = c"
| "scan_usable E (s # ss) c =
     (if \<not> mo_filter E s then scan_usable E ss c
      else if ne_linklocal (mo_net E) s then (if fst c then (fst c, True) else scan_usable E ss (fst c, True))
      else (True, snd c))"

definition have_routable_addr :: "mon_env \<Rightarrow> bool" where
  "have_routable_addr E = fst (scan_usable E (mo_ifaddrs E) (False, False))"

text \<open>\<open>update_cur_laddr\<close>: the stack's own family, then the preferred one, then the other.\<close>

definition first_laddr :: "net_par \<Rightarrow> mon_env \<Rightarrow> sa list \<Rightarrow> sa option" where
  "first_laddr P E laddrs =
     (case mo_laddr_af E (mo_net_af E) laddrs of
        Some s \<Rightarrow> Some s
      | None \<Rightarrow>
          (case mo_laddr_af E (Some (if nc_prefer_ipv6 (np_net P) then INET6 else INET)) laddrs of
             Some s \<Rightarrow> Some s
           | None \<Rightarrow> mo_laddr_af E (Some (if nc_prefer_ipv6 (np_net P) then INET else INET6)) laddrs))"

definition update_cur_laddr :: "net_par \<Rightarrow> mon_env \<Rightarrow> net \<Rightarrow> net" where
  "update_cur_laddr P E st =
     (let text = (case first_laddr P E (n_laddrs st) of
                    Some s \<Rightarrow> fst (lb_snprintf (np_libre P) 64 (sa_text s))
                  | None \<Rightarrow>
                      (case find (mo_filter E) (mo_ifaddrs E) of
                         Some s \<Rightarrow> fst (lb_snprintf (np_libre P) 64 (sa_text s))
                       | None \<Rightarrow> []))
      in st\<lparr>n_nm := (n_nm st)\<lparr>cur_laddr := text\<rparr>\<rparr>)"

section \<open>Loops over calls and accounts\<close>

text \<open>A handler on each call of a snapshot, and on the accounts that are to be registered.\<close>

fun each :: "('c \<Rightarrow> 'c \<times> 'e list) \<Rightarrow> 'c list \<Rightarrow> 'c list \<times> 'e list" where
  "each f [] = ([], [])"
| "each f (c # cs) = (case f c of (c', es) \<Rightarrow> (case each f cs of (cs', es') \<Rightarrow> (c' # cs', es @ es')))"

definition snapshot_calls :: "(vcall \<Rightarrow> vcall \<times> net_eff list) \<Rightarrow> net_act" where
  "snapshot_calls f st =
     (let calls = s_calls (v_calls (n_vox st))
      in case each f (take VOX_NET_MAX_SNAP calls) of
           (cs, es) \<Rightarrow>
             (st\<lparr>n_vox := (n_vox st)\<lparr>v_calls := (v_calls (n_vox st))\<lparr>s_calls := cs @ drop VOX_NET_MAX_SNAP calls\<rparr>\<rparr>\<rparr>, es))"

fun each_account :: "(account \<Rightarrow> account \<times> acct_eff list) \<Rightarrow> acct_id list \<Rightarrow> acct_db \<Rightarrow> acct_db \<times> net_eff list" where
  "each_account f [] db = (db, [])"
| "each_account f (h # hs) db =
     (case acct_apply h f db of
        (db1, es) \<Rightarrow>
          (case each_account f hs db1 of
             (db2, es2) \<Rightarrow> (db2, concat (map (\<lambda>e. case e of Api_acct k x \<Rightarrow> [N_Acct k x] | _ \<Rightarrow> []) es) @ es2)))"

definition snapshot_accounts :: "handler \<Rightarrow> net_act" where
  "snapshot_accounts f st =
     (let snap = map handle (take VOX_NET_MAX_SNAP (filter (\<lambda>a. \<not> net_excluded a) (db_accounts (v_db (n_vox st)))))
      in case each_account f snap (v_db (n_vox st)) of
           (db, es) \<Rightarrow> (st\<lparr>n_vox := (n_vox st)\<lparr>v_db := db\<rparr>\<rparr>, es))"

definition mark_accounts_reconnecting :: net_act where
  "mark_accounts_reconnecting = snapshot_accounts mark_reconnecting"

definition handover_accounts_to_retry :: "net_par \<Rightarrow> mon_env \<Rightarrow> net_act" where
  "handover_accounts_to_retry P E = snapshot_accounts (handover_account_to_retry (np_vox P) (mo_acct E))"

text \<open>The event of a re-registration names its account; without memory it is lost.\<close>

definition rereg_event :: "net_par \<Rightarrow> mon_env \<Rightarrow> net \<Rightarrow> acct_id \<Rightarrow> cptr event list" where
  "rereg_event P E st h =
     concat (map (\<lambda>e. case e of N_Post ev \<Rightarrow> [ev] | _ \<Rightarrow> []) (netmon_emit (ctx P E st) NET_REREGISTERING None (Some h) None 0))"

definition reregister_accounts :: "net_par \<Rightarrow> mon_env \<Rightarrow> net_act" where
  "reregister_accounts P E st =
     snapshot_accounts
       (\<lambda>a. case rereg_event P E st (handle a) of
              [ev] \<Rightarrow> reregister_account ev a
            | _ \<Rightarrow> (case reregister_account (EV_LOG None) a of (a', es) \<Rightarrow> (a', filter (\<lambda>e. e \<noteq> Post (EV_LOG None)) es))) st"

section \<open>The verify timer\<close>

definition migration_pending :: "netmon \<Rightarrow> vcall list \<Rightarrow> bool \<times> u32" where
  "migration_pending N calls =
     (let owed = filter (\<lambda>lc. net_mig_gen lc = nm_gen N \<and> migrating lc) (take VOX_NET_MAX_SNAP calls)
      in (owed \<noteq> [],
          fold (\<lambda>lc tick. if verify_tick_for N lc < tick then verify_tick_for N lc else tick) owed (verify_tick_ms N)))"

definition arm_verify :: net_act where
  "arm_verify st =
     (case migration_pending (n_nm st) (s_calls (v_calls (n_vox st))) of
        (owed, tick) \<Rightarrow> (if owed then st\<lparr>n_nm := (n_nm st)\<lparr>tmr_verify := Some tick\<rparr>\<rparr> else st, []))"

definition migrate_calls :: "net_par \<Rightarrow> mon_env \<Rightarrow> net_act" where
  "migrate_calls P E st = andthen (snapshot_calls (start_migration (ctx P E st))) arm_verify st"

definition fail_pending_migrations :: "net_par \<Rightarrow> mon_env \<Rightarrow> errno \<Rightarrow> net_act" where
  "fail_pending_migrations P E err st = snapshot_calls (fail_pending (ctx P E st) err) st"

definition verify_handler :: "net_par \<Rightarrow> mon_env \<Rightarrow> net_act" where
  "verify_handler P E st =
     (if \<not> nm_started (n_nm st) then (st, [])
      else andthen (snapshot_calls (verify_call (ctx P E st))) arm_verify st)"

section \<open>The handover\<close>

definition backoff_ms :: "u32 \<Rightarrow> u32" where
  "backoff_ms attempt = (let shift = (if 5 < attempt then 5 else attempt) in push_bit (unat shift) 1000)"

text \<open>The network is reported down once, and its accounts as on their way back.\<close>

definition go_down :: "net_par \<Rightarrow> mon_env \<Rightarrow> bool \<Rightarrow> net_act" where
  "go_down P E blank st =
     (if nm_down (n_nm st) then (st, [])
      else andthen (set_nm (\<lambda>N. N\<lparr>nm_down := True, cur_laddr := (if blank then [] else cur_laddr N)\<rparr>))
             (andthen (emit_net P E NET_DOWN None 0) mark_accounts_reconnecting) st)"

text \<open>The branch for a failed flush of the transports, which may be the last.\<close>

definition handover_failed :: "net_par \<Rightarrow> mon_env \<Rightarrow> errno \<Rightarrow> net_act" where
  "handover_failed P E err =
     andthen (set_nm (\<lambda>N. N\<lparr>nm_attempt := nm_attempt N + 1\<rparr>))
       (andthen (\<lambda>st. emit_net P E NET_HANDOVER_FAILED (Some err) (nm_attempt (n_nm st)) st)
         (\<lambda>st. if nm_attempt (n_nm st) < max_attempts (n_nm st)
               then set_nm (\<lambda>N. N\<lparr>tmr_settle := Some (backoff_ms (nm_attempt N))\<rparr>) st
               else andthen (set_nm (\<lambda>N. N\<lparr>nm_attempt := 0\<rparr>))
                      (andthen (handover_accounts_to_retry P E)
                        (andthen (fail_pending_migrations P E err)
                          (set_nm (\<lambda>N. N\<lparr>announced := False, handover_start := 0\<rparr>)))) st))"

definition handover_done :: "net_par \<Rightarrow> mon_env \<Rightarrow> net_act" where
  "handover_done P E =
     andthen (set_nm (\<lambda>N. N\<lparr>nm_attempt := 0, reset_pending := False, force := False, announced := False, nm_gen := nm_gen N + 1\<rparr>))
       (andthen (upd (update_cur_laddr P E))
         (andthen (emit_net P E NET_TRANSPORT_RESET None 0)
           (andthen (reregister_accounts P E)
             (\<lambda>st. if reinvite_calls (n_nm st) then migrate_calls P E st else (st, [])))))"

definition apply_handover :: "net_par \<Rightarrow> mon_env \<Rightarrow> net_act" where
  "apply_handover P E =
     (case scan_usable E (mo_ifaddrs E) (False, False) of
        (routable, linklocal) \<Rightarrow>
          if \<not> routable \<and> \<not> linklocal then
            andthen (go_down P E True)
              (set_nm (\<lambda>N. N\<lparr>tmr_settle := Some (backoff_ms (wait_ticks N)), wait_ticks := wait_ticks N + 1\<rparr>))
          else
            andthen (set_nm (\<lambda>N. N\<lparr>wait_ticks := 0\<rparr>))
              (andthen
                (\<lambda>st. if \<not> routable then go_down P E False st
                      else if nm_down (n_nm st) then
                        andthen (set_nm (\<lambda>N. N\<lparr>nm_down := False\<rparr>))
                          (andthen (upd (update_cur_laddr P E)) (emit_net P E NET_UP None 0)) st
                      else (st, []))
                (andthen (onlyif (\<not> mo_nsc E) (emit N_DnsRefresh))
                  (andthen (emit N_ResetAll)
                    (case mo_reset_all E of Some err \<Rightarrow> handover_failed P E err | None \<Rightarrow> handover_done P E)))))"

definition settle_handler :: "net_par \<Rightarrow> mon_env \<Rightarrow> net_act" where
  "settle_handler P E st =
     (if \<not> nm_started (n_nm st) then (st, [])
      else
        (case scan_addresses E st of
           (changed, st1, es) \<Rightarrow>
             if changed \<noteq> 0 then
               (st1\<lparr>n_nm := (n_nm st1)\<lparr>reset_pending := True, tmr_settle := Some (settle_ms (n_nm st1))\<rparr>\<rparr>, es)
             else if \<not> reset_pending (n_nm st1) \<and> \<not> force (n_nm st1) then (st1, es)
             else andthen (\<lambda>s. (s, es)) (apply_handover P E) st1))"

definition announce :: "net_par \<Rightarrow> mon_env \<Rightarrow> net_act" where
  "announce P E st =
     (if announced (n_nm st) then (st, [])
      else andthen (set_nm (\<lambda>N. N\<lparr>announced := True, handover_start := ne_now (mo_net E)\<rparr>))
             (andthen (upd (update_cur_laddr P E)) (andthen (emit_net P E NET_CHANGE_DETECTED None 0) mark_accounts_reconnecting)) st)"

definition netmon_trigger :: "net_par \<Rightarrow> mon_env \<Rightarrow> bool \<Rightarrow> net_act" where
  "netmon_trigger P E forced st =
     (if \<not> nm_started (n_nm st) then (st, [])
      else
        (case scan_addresses E st of
           (changed, st1, es) \<Rightarrow>
             (let N1 = (n_nm st1)\<lparr>reset_pending := (changed \<noteq> 0 \<or> reset_pending (n_nm st1)), force := (forced \<or> force (n_nm st1))\<rparr>;
                  st2 = st1\<lparr>n_nm := N1\<rparr>
              in if \<not> reset_pending N1 \<and> \<not> force N1 then (st2, es)
                 else andthen (\<lambda>s. (s, es))
                        (andthen (announce P E) (set_nm (\<lambda>N. N\<lparr>tmr_settle := Some (settle_ms N)\<rparr>))) st2)))"

definition poll_handler :: "net_par \<Rightarrow> mon_env \<Rightarrow> net_act" where
  "poll_handler P E st =
     (if \<not> nm_started (n_nm st) then (st, [])
      else andthen (netmon_trigger P E False)
             (\<lambda>s. (if poll_s (n_nm s) \<noteq> 0 then s\<lparr>n_nm := (n_nm s)\<lparr>tmr_poll := Some (poll_s (n_nm s) * 1000)\<rparr>\<rparr> else s, [])) st)"

section \<open>Lifecycle and public functions\<close>

definition netmon_zero :: netmon where
  "netmon_zero = \<lparr>tmr_poll = None, tmr_settle = None, tmr_verify = None, nm_started = False, reset_pending = False, force = False,
     announced = False, nm_down = False, nm_gen = 0, nm_attempt = 0, wait_ticks = 0, handover_start = 0, poll_s = 0,
     settle_ms = 0, verify_ms = 0, max_attempts = 0, reinvite_calls = False, hangup_on_fail = False,
     nm_ice_handover = ICE_BEST_EFFORT, cur_laddr = []\<rparr>"

definition vox_netmon_init :: "net_par \<Rightarrow> mon_env \<Rightarrow> net \<Rightarrow> net" where
  "vox_netmon_init P E st =
     (let C = np_net P;
          st1 = update_cur_laddr P E (st\<lparr>n_nm := netmon_zero\<lparr>poll_s := nc_monitor_interval_s C,
                  settle_ms := (if nc_settle_ms C \<noteq> 0 then nc_settle_ms C else VOX_NET_SETTLE_MS),
                  verify_ms := nc_verify_ms C,
                  max_attempts := (if nc_max_attempts C \<noteq> 0 then nc_max_attempts C else VOX_NET_MAX_ATTEMPT),
                  reinvite_calls := nc_reinvite_calls C, hangup_on_fail := nc_hangup_on_migration_failure C,
                  nm_ice_handover := nc_ice_handover C, nm_started := True\<rparr>\<rparr>);
          N = n_nm st1
      in st1\<lparr>n_nm := N\<lparr>nm_down := \<not> have_routable_addr E,
                tmr_poll := (if poll_s N \<noteq> 0 then Some (poll_s N * 1000) else tmr_poll N)\<rparr>\<rparr>)"

definition vox_netmon_stop :: "net \<Rightarrow> net" where
  "vox_netmon_stop st = st\<lparr>n_nm := (n_nm st)\<lparr>nm_started := False\<rparr>\<rparr>"

definition vox_netmon_close :: "net \<Rightarrow> net" where
  "vox_netmon_close st = st\<lparr>n_nm := (n_nm st)\<lparr>nm_started := False, tmr_poll := None, tmr_settle := None, tmr_verify := None\<rparr>\<rparr>"

definition changed_fn :: "net_par \<Rightarrow> mon_env \<Rightarrow> net_act" where
  "changed_fn P E = netmon_trigger P E True"

definition set_monitor_fn :: "u32 \<Rightarrow> net \<Rightarrow> net" where
  "set_monitor_fn seconds st =
     st\<lparr>n_nm := (n_nm st)\<lparr>poll_s := seconds, tmr_poll := (if seconds \<noteq> 0 then Some (seconds * 1000) else None)\<rparr>\<rparr>"

definition set_policy_fn :: "bool \<Rightarrow> bool \<Rightarrow> net \<Rightarrow> net" where
  "set_policy_fn reinvite hangup st = st\<lparr>n_nm := (n_nm st)\<lparr>reinvite_calls := reinvite, hangup_on_fail := hangup\<rparr>\<rparr>"

definition local_addr_fn :: "net_par \<Rightarrow> mon_env \<Rightarrow> nat \<Rightarrow> net \<Rightarrow> string \<times> net" where
  "local_addr_fn P E sz st =
     (let st1 = update_cur_laddr P E st in (lb_ncpy (np_libre P) sz (cur_laddr (n_nm st1)), st1))"

definition is_up_fn :: "mon_env \<Rightarrow> bool" where
  "is_up_fn E = have_routable_addr E"

section \<open>The machine\<close>

text \<open>
  The inputs of the monitor beside those of the stack: its timers, the public functions, and
  the reports about single calls. A stack event runs the handler of \<open>Vox_Bevent\<close>; the hooks it
  calls are run from its effects.
\<close>

datatype net_in =
    I_Settle mon_env | I_Verify mon_env | I_Poll mon_env
  | I_Changed mon_env | I_SetMonitor u32 | I_SetPolicy bool bool | I_LocalAddr mon_env nat | I_Stop
  | I_Stalled mon_env call_id
  | I_Bev mon_env bev_env bevent "nat option" "nat option"

definition call_stalled :: "net_par \<Rightarrow> mon_env \<Rightarrow> call_id \<Rightarrow> net_act" where
  "call_stalled P E h st =
     (case call_get h (v_calls (n_vox st)) of
        None \<Rightarrow> (st, [])
      | Some lc \<Rightarrow>
          (case vox_netmon_call_stalled (ctx P E st) lc of
             (lc', arm) \<Rightarrow>
               if arm then (st\<lparr>n_vox := set_call h (\<lambda>_. lc') (n_vox st), n_nm := (n_nm st)\<lparr>tmr_verify := Some 1\<rparr>\<rparr>, [])
               else (st, [])))"

fun bev_hook :: "net_par \<Rightarrow> mon_env \<Rightarrow> bev_eff \<Rightarrow> net_act" where
  "bev_hook P E (B_Refreshable h) st =
     (case call_get h (v_calls (n_vox st)) of
        None \<Rightarrow> (st, [])
      | Some lc \<Rightarrow> (st\<lparr>n_nm := vox_netmon_call_refreshable (n_nm st) lc\<rparr>, []))"
| "bev_hook P E (B_SdpAnswer h) st =
     (case call_get h (v_calls (n_vox st)) of
        None \<Rightarrow> (st, [])
      | Some lc \<Rightarrow> (st, vox_netmon_call_sdp_answer (ctx P E st) lc))"
| "bev_hook P E _ st = (st, [])"

definition net_bev :: "net_par \<Rightarrow> mon_env \<Rightarrow> bev_env \<Rightarrow> bevent \<Rightarrow> nat option \<Rightarrow> nat option \<Rightarrow> net_act" where
  "net_bev P E B bev u bc st =
     (case bevent_handler (np_libre P) (np_vox P) B bev u bc (n_vox st) of
        (v, es) \<Rightarrow> run_acts (bev_hook P E) es (st\<lparr>n_vox := v\<rparr>))"

text \<open>A timer fires only while it runs, and no longer runs in its handler.\<close>

fun net_step :: "net_par \<Rightarrow> net_in \<Rightarrow> net_act" where
  "net_step P (I_Settle E) st =
     (if tmr_settle (n_nm st) = None then (st, []) else settle_handler P E (st\<lparr>n_nm := (n_nm st)\<lparr>tmr_settle := None\<rparr>\<rparr>))"
| "net_step P (I_Verify E) st =
     (if tmr_verify (n_nm st) = None then (st, []) else verify_handler P E (st\<lparr>n_nm := (n_nm st)\<lparr>tmr_verify := None\<rparr>\<rparr>))"
| "net_step P (I_Poll E) st =
     (if tmr_poll (n_nm st) = None then (st, []) else poll_handler P E (st\<lparr>n_nm := (n_nm st)\<lparr>tmr_poll := None\<rparr>\<rparr>))"
| "net_step P (I_Changed E) st = changed_fn P E st"
| "net_step P (I_SetMonitor s) st = (set_monitor_fn s st, [])"
| "net_step P (I_SetPolicy r h) st = (set_policy_fn r h st, [])"
| "net_step P (I_LocalAddr E sz) st = (snd (local_addr_fn P E sz st), [])"
| "net_step P I_Stop st = (vox_netmon_stop st, [])"
| "net_step P (I_Stalled E h) st = call_stalled P E h st"
| "net_step P (I_Bev E B bev u bc) st = net_bev P E B bev u bc st"

section \<open>What the handlers leave alone\<close>

definition calls_of :: "net \<Rightarrow> vcall list" where
  "calls_of st = s_calls (v_calls (n_vox st))"

lemma calls_of_frames [simp]:
  "calls_of (st\<lparr>n_nm := N\<rparr>) = calls_of st" "calls_of (st\<lparr>n_laddrs := l\<rparr>) = calls_of st"
  "calls_of (st\<lparr>n_vox := (n_vox st)\<lparr>v_db := db\<rparr>\<rparr>) = calls_of st"
  by (simp_all add: calls_of_def)

lemma set_nm_frames [simp]:
  "fst (set_nm f st) = st\<lparr>n_nm := f (n_nm st)\<rparr>" "fst (emit_net P E w e a st) = st"
  by (simp_all add: set_nm_def emit_net_def)

lemma accounts_frames [simp]:
  "n_nm (fst (snapshot_accounts f st)) = n_nm st" "calls_of (fst (snapshot_accounts f st)) = calls_of st"
  by (simp_all add: snapshot_accounts_def Let_def split: prod.splits)

lemma account_loops_frames [simp]:
  "n_nm (fst (mark_accounts_reconnecting st)) = n_nm st" "calls_of (fst (mark_accounts_reconnecting st)) = calls_of st"
  "n_nm (fst (handover_accounts_to_retry P E st)) = n_nm st" "calls_of (fst (handover_accounts_to_retry P E st)) = calls_of st"
  "n_nm (fst (reregister_accounts P E st)) = n_nm st" "calls_of (fst (reregister_accounts P E st)) = calls_of st"
  by (simp_all add: mark_accounts_reconnecting_def handover_accounts_to_retry_def reregister_accounts_def)

lemma update_cur_laddr_frames [simp]:
  "tmr_settle (n_nm (update_cur_laddr P E st)) = tmr_settle (n_nm st)" "tmr_verify (n_nm (update_cur_laddr P E st)) = tmr_verify (n_nm st)"
  "nm_started (n_nm (update_cur_laddr P E st)) = nm_started (n_nm st)" "announced (n_nm (update_cur_laddr P E st)) = announced (n_nm st)"
  "reset_pending (n_nm (update_cur_laddr P E st)) = reset_pending (n_nm st)" "force (n_nm (update_cur_laddr P E st)) = force (n_nm st)"
  "nm_gen (n_nm (update_cur_laddr P E st)) = nm_gen (n_nm st)" "max_attempts (n_nm (update_cur_laddr P E st)) = max_attempts (n_nm st)"
  "reinvite_calls (n_nm (update_cur_laddr P E st)) = reinvite_calls (n_nm st)"
  "calls_of (update_cur_laddr P E st) = calls_of st"
  by (simp_all add: update_cur_laddr_def Let_def)

lemma scan_frames:
  assumes "scan_addresses E st = (k, st', es)"
  shows "n_nm st' = n_nm st" "calls_of st' = calls_of st"
  using assms by (auto simp: scan_addresses_def split: prod.splits)

lemma each_map [simp]: "fst (each f cs) = map (fst \<circ> f) cs"
  by (induction cs) (auto split: prod.splits simp: prod_eq_iff)

lemma snapshot_calls_frames [simp]:
  "n_nm (fst (snapshot_calls f st)) = n_nm st"
  "calls_of (fst (snapshot_calls f st)) = map (fst \<circ> f) (take VOX_NET_MAX_SNAP (calls_of st)) @ drop VOX_NET_MAX_SNAP (calls_of st)"
  by (simp_all add: snapshot_calls_def calls_of_def Let_def each_map [symmetric] split: prod.splits del: each_map)

section \<open>The invariant\<close>

text \<open>
  A call of the current generation that is migrating is within its budget and the verify timer
  runs for it; a change that was announced still has a handover to come, and the settle timer
  runs for it.
\<close>

definition mig_wf :: "netmon \<Rightarrow> vcall \<Rightarrow> bool" where
  "mig_wf N lc \<longleftrightarrow> net_mig_gen lc \<le> nm_gen N \<and> (net_mig_gen lc = nm_gen N \<longrightarrow> in_budget (unat (max_attempts N)) lc)"

definition owed :: "netmon \<Rightarrow> vcall \<Rightarrow> bool" where
  "owed N lc \<longleftrightarrow> net_mig_gen lc = nm_gen N \<and> migrating lc"

definition calls_wf :: "net \<Rightarrow> bool" where
  "calls_wf st \<longleftrightarrow> max_attempts (n_nm st) \<noteq> 0 \<and> (\<forall>lc \<in> set (calls_of st). mig_wf (n_nm st) lc)"

definition verify_armed :: "net \<Rightarrow> bool" where
  "verify_armed st \<longleftrightarrow> (nm_started (n_nm st) \<longrightarrow> (\<exists>lc \<in> set (calls_of st). owed (n_nm st) lc) \<longrightarrow> tmr_verify (n_nm st) \<noteq> None)"

definition settle_armed :: "net \<Rightarrow> bool" where
  "settle_armed st \<longleftrightarrow> (nm_started (n_nm st) \<longrightarrow> announced (n_nm st) \<longrightarrow>
     tmr_settle (n_nm st) \<noteq> None \<and> (reset_pending (n_nm st) \<or> force (n_nm st)))"

definition net_inv :: "net \<Rightarrow> bool" where
  "net_inv st \<longleftrightarrow> calls_wf st \<and> verify_armed st \<and> settle_armed st"

text \<open>
  The environment keeps to the snapshot's 64 calls and to fewer than \<open>2\<^sup>3\<^sup>2\<close> handovers.
\<close>

fun net_ok :: "net_in \<Rightarrow> net \<Rightarrow> bool" where
  "net_ok i st = (length (calls_of st) \<le> VOX_NET_MAX_SNAP \<and> nm_gen (n_nm st) \<noteq> - 1)"

text \<open>An action that changes nothing the invariant reads of the calls.\<close>

lemma arm_verify_frames [simp]:
  "calls_of (fst (arm_verify st)) = calls_of st" "tmr_settle (n_nm (fst (arm_verify st))) = tmr_settle (n_nm st)"
  "nm_started (n_nm (fst (arm_verify st))) = nm_started (n_nm st)" "announced (n_nm (fst (arm_verify st))) = announced (n_nm st)"
  "reset_pending (n_nm (fst (arm_verify st))) = reset_pending (n_nm st)" "force (n_nm (fst (arm_verify st))) = force (n_nm st)"
  "nm_gen (n_nm (fst (arm_verify st))) = nm_gen (n_nm st)" "max_attempts (n_nm (fst (arm_verify st))) = max_attempts (n_nm st)"
  by (simp_all add: arm_verify_def split: prod.splits)

lemma arm_verify_armed:
  assumes "length (calls_of st) \<le> VOX_NET_MAX_SNAP"
  shows "verify_armed (fst (arm_verify st))"
proof -
  have "tmr_verify (n_nm (fst (arm_verify st))) \<noteq> None" if "lc \<in> set (calls_of st)" "owed (n_nm st) lc" for lc
    using that assms by (auto simp: arm_verify_def migration_pending_def owed_def calls_of_def Let_def filter_empty_conv)
  then show ?thesis by (auto simp: verify_armed_def owed_def)
qed

lemma wf_same:
  assumes "calls_wf st" and "set (calls_of st') \<subseteq> set (calls_of st)" and "nm_gen (n_nm st') = nm_gen (n_nm st)"
    and "max_attempts (n_nm st') = max_attempts (n_nm st)"
  shows "calls_wf st'"
  using assms by (auto simp: calls_wf_def mig_wf_def)

lemma armed_same:
  assumes "verify_armed st" and "set (calls_of st') \<subseteq> set (calls_of st)" and "nm_gen (n_nm st') = nm_gen (n_nm st)"
    and "nm_started (n_nm st') = nm_started (n_nm st)" and "tmr_verify (n_nm st') = None \<Longrightarrow> tmr_verify (n_nm st) = None"
  shows "verify_armed st'"
proof -
  have "tmr_verify (n_nm st') \<noteq> None" if "tmr_verify (n_nm st) \<noteq> None" using that by (rule contrapos_nn) (rule assms(5))
  then show ?thesis using assms(1-4) by (auto simp: verify_armed_def owed_def)
qed

section \<open>Every step keeps it\<close>

lemma started_wf:
  assumes "started X g0 n r" and "unat n < unat (max_attempts (mx_nm X))" and "g0 \<le> nm_gen (mx_nm X)"
  shows "mig_wf (mx_nm X) (fst r)"
  using assms unat_inc [OF assms(2)]
  by (auto simp: started_def mig_wf_def in_budget_def migrating_cases settled_def word_less_nat_alt)

lemma start_wf:
  assumes "max_attempts (mx_nm X) \<noteq> 0" and "net_mig_gen lc < nm_gen (mx_nm X)"
  shows "mig_wf (mx_nm X) (fst (start_migration X lc))"
proof (rule started_wf [OF start_migration_started [OF assms(1)]])
  show "unat (if net_mig_gen lc = nm_gen (mx_nm X) then net_mig_tries lc else 0) < unat (max_attempts (mx_nm X))"
    using assms by (auto simp: unat_gt_0)
  show "net_mig_gen lc \<le> nm_gen (mx_nm X)" using assms(2) by simp
qed

lemma verify_wf:
  assumes "mig_wf (mx_nm X) lc" and "max_attempts (mx_nm X) \<noteq> 0"
  shows "mig_wf (mx_nm X) (fst (verify_call X lc))"
proof (cases "net_mig_gen lc = nm_gen (mx_nm X)")
  case False
  then show ?thesis using assms(1) by (simp add: verify_call_def)
next
  case True
  show ?thesis
  proof (cases "migrating lc")
    case True
    have "tick_ctx (nm_gen (mx_nm X)) (max_attempts (mx_nm X)) X" using assms(2) by (simp add: tick_ctx_def)
    from verify_call_tick(1) [OF this \<open>net_mig_gen lc = _\<close> True] assms(1) \<open>net_mig_gen lc = _\<close>
    show ?thesis by (simp add: mig_wf_def ticked_def)
  next
    case False
    then show ?thesis using assms(1) by (auto simp: verify_idle mig_wf_def in_budget_def migrating_def)
  qed
qed

lemma ctx_nm [simp]: "mx_nm (ctx P E st) = n_nm st"
  by (simp add: ctx_def)

lemma verify_handler_inv:
  assumes "calls_wf st" and "settle_armed st" and "length (calls_of st) \<le> VOX_NET_MAX_SNAP"
  shows "net_inv (fst (verify_handler P E st))"
proof (cases "nm_started (n_nm st)")
  case False
  then show ?thesis using assms by (simp add: verify_handler_def net_inv_def verify_armed_def)
next
  case True
  let ?s = "fst (snapshot_calls (verify_call (ctx P E st)) st)"
  have c: "calls_of ?s = map (fst \<circ> verify_call (ctx P E st)) (calls_of st)" using assms(3) by simp
  have "mig_wf (n_nm st) (fst (verify_call (ctx P E st) lc))" if "lc \<in> set (calls_of st)" for lc
    using verify_wf [of "ctx P E st" lc] assms(1) that by (simp add: calls_wf_def)
  then have "calls_wf ?s" using assms(1) unfolding calls_wf_def c by simp
  then have "calls_wf (fst (arm_verify ?s))" by (rule wf_same) simp_all
  moreover have "verify_armed (fst (arm_verify ?s))" by (rule arm_verify_armed) (use assms(3) c in simp)
  moreover have "settle_armed (fst (arm_verify ?s))" using assms(2) by (simp add: settle_armed_def)
  ultimately show ?thesis using True by (simp add: verify_handler_def net_inv_def)
qed

text \<open>Actions that touch neither the calls nor what the invariant reads of the monitor.\<close>

lemma go_down_frames [simp]:
  "calls_of (fst (go_down P E b st)) = calls_of st" "tmr_settle (n_nm (fst (go_down P E b st))) = tmr_settle (n_nm st)"
  "tmr_verify (n_nm (fst (go_down P E b st))) = tmr_verify (n_nm st)"
  "nm_started (n_nm (fst (go_down P E b st))) = nm_started (n_nm st)" "announced (n_nm (fst (go_down P E b st))) = announced (n_nm st)"
  "reset_pending (n_nm (fst (go_down P E b st))) = reset_pending (n_nm st)" "force (n_nm (fst (go_down P E b st))) = force (n_nm st)"
  "nm_gen (n_nm (fst (go_down P E b st))) = nm_gen (n_nm st)" "max_attempts (n_nm (fst (go_down P E b st))) = max_attempts (n_nm st)"
  by (simp_all add: go_down_def)

lemma announce_frames [simp]:
  "calls_of (fst (announce P E st)) = calls_of st" "tmr_settle (n_nm (fst (announce P E st))) = tmr_settle (n_nm st)"
  "tmr_verify (n_nm (fst (announce P E st))) = tmr_verify (n_nm st)"
  "nm_started (n_nm (fst (announce P E st))) = nm_started (n_nm st)"
  "reset_pending (n_nm (fst (announce P E st))) = reset_pending (n_nm st)" "force (n_nm (fst (announce P E st))) = force (n_nm st)"
  "nm_gen (n_nm (fst (announce P E st))) = nm_gen (n_nm st)" "max_attempts (n_nm (fst (announce P E st))) = max_attempts (n_nm st)"
  by (simp_all add: announce_def)

lemma fail_pending_res:
  "fst (fail_pending X e lc) = lc \<or>
   net_mig_state (fst (fail_pending X e lc)) = MIG_FAILED \<and> net_mig_gen (fst (fail_pending X e lc)) = net_mig_gen lc"
  by (simp add: fail_pending_def fail_migration_def Let_def)

lemma fail_pending_wf:
  "mig_wf N lc \<Longrightarrow> mig_wf N (fst (fail_pending X e lc))" "owed N (fst (fail_pending X e lc)) \<Longrightarrow> owed N lc"
  using fail_pending_res [of X e lc] by (auto simp: mig_wf_def owed_def in_budget_def migrating_cases)

lemma fail_pending_migrations_frames:
  assumes "length (calls_of st) \<le> VOX_NET_MAX_SNAP"
  shows "n_nm (fst (fail_pending_migrations P E e st)) = n_nm st"
    and "calls_wf st \<Longrightarrow> calls_wf (fst (fail_pending_migrations P E e st))"
    and "verify_armed st \<Longrightarrow> verify_armed (fst (fail_pending_migrations P E e st))"
  using assms fail_pending_wf
  by (auto simp: fail_pending_migrations_def calls_wf_def verify_armed_def) blast+

lemma handover_failed_inv:
  assumes "calls_wf st" and "verify_armed st" and "reset_pending (n_nm st) \<or> force (n_nm st)" and "length (calls_of st) \<le> VOX_NET_MAX_SNAP"
  shows "net_inv (fst (handover_failed P E err st))"
proof -
  let ?s1 = "st\<lparr>n_nm := (n_nm st)\<lparr>nm_attempt := nm_attempt (n_nm st) + 1\<rparr>\<rparr>"
  let ?s2 = "fst (handover_accounts_to_retry P E (?s1\<lparr>n_nm := (n_nm ?s1)\<lparr>nm_attempt := 0\<rparr>\<rparr>))"
  have w: "calls_wf ?s2" using assms(1) by (rule wf_same) simp_all
  have v: "verify_armed ?s2" using assms(2) by (rule armed_same) simp_all
  have l: "length (calls_of ?s2) \<le> VOX_NET_MAX_SNAP" using assms(4) by simp
  note f = fail_pending_migrations_frames [OF l, of P E err]
  show ?thesis
  proof (cases "nm_attempt (n_nm ?s1) < max_attempts (n_nm ?s1)")
    case True
    let ?r = "?s1\<lparr>n_nm := (n_nm ?s1)\<lparr>tmr_settle := Some (backoff_ms (nm_attempt (n_nm ?s1)))\<rparr>\<rparr>"
    have "fst (handover_failed P E err st) = ?r" using True by (simp add: handover_failed_def)
    moreover have "calls_wf ?r" using assms(1) by (rule wf_same) simp_all
    moreover have "verify_armed ?r" using assms(2) by (rule armed_same) simp_all
    moreover have "settle_armed ?r" using assms(3) by (simp add: settle_armed_def)
    ultimately show ?thesis by (simp add: net_inv_def)
  next
    case False
    let ?s3 = "fst (fail_pending_migrations P E err ?s2)"
    let ?r = "?s3\<lparr>n_nm := (n_nm ?s3)\<lparr>announced := False, handover_start := 0\<rparr>\<rparr>"
    have "fst (handover_failed P E err st) = ?r" using False by (simp add: handover_failed_def)
    moreover have "calls_wf ?r" using f(2) [OF w] by (rule wf_same) simp_all
    moreover have "verify_armed ?r" using f(3) [OF v] by (rule armed_same) simp_all
    moreover have "settle_armed ?r" by (simp add: settle_armed_def)
    ultimately show ?thesis by (simp add: net_inv_def)
  qed
qed

lemma gen_inc: "(g :: u32) \<noteq> - 1 \<Longrightarrow> x \<le> g \<Longrightarrow> x < g + 1"
proof -
  assume "g \<noteq> - 1" and x: "x \<le> g"
  then have "1 + g \<noteq> 0" by (simp add: add_eq_0_iff)
  from unatSuc [OF this] x show ?thesis by (simp add: word_less_nat_alt word_le_nat_alt add.commute)
qed

lemma handover_done_inv:
  assumes "calls_wf st" and "length (calls_of st) \<le> VOX_NET_MAX_SNAP" and "nm_gen (n_nm st) \<noteq> - 1"
  shows "net_inv (fst (handover_done P E st))"
proof -
  let ?s1 = "st\<lparr>n_nm := (n_nm st)\<lparr>nm_attempt := 0, reset_pending := False, force := False, announced := False, nm_gen := nm_gen (n_nm st) + 1\<rparr>\<rparr>"
  let ?s = "fst (reregister_accounts P E (update_cur_laddr P E ?s1))"
  have n: "nm_gen (n_nm ?s) = nm_gen (n_nm st) + 1" "max_attempts (n_nm ?s) = max_attempts (n_nm st)"
    "announced (n_nm ?s) = False" "reinvite_calls (n_nm ?s) = reinvite_calls (n_nm st)" "calls_of ?s = calls_of st"
    by simp_all
  have lt: "net_mig_gen lc < nm_gen (n_nm ?s)" if "lc \<in> set (calls_of st)" for lc
    using gen_inc [OF assms(3)] assms(1) that unfolding n(1) by (simp add: calls_wf_def mig_wf_def)
  have "mig_wf (n_nm ?s) lc" if "lc \<in> set (calls_of st)" for lc
    using lt [OF that] by (simp only: mig_wf_def) (metis less_imp_le order.irrefl)
  then have wf: "calls_wf ?s" using assms(1) unfolding calls_wf_def n(2,5) by blast
  have e: "fst (handover_done P E st) = fst (if reinvite_calls (n_nm ?s) then migrate_calls P E ?s else (?s, []))"
    by (simp add: handover_done_def)
  show ?thesis
  proof (cases "reinvite_calls (n_nm ?s)")
    case False
    have "\<not> owed (n_nm ?s) lc" if "lc \<in> set (calls_of st)" for lc
      using lt [OF that] by (simp only: owed_def) (metis order.irrefl)
    then have "verify_armed ?s" unfolding verify_armed_def n(5) by blast
    moreover have "settle_armed ?s" by (simp add: settle_armed_def n(3))
    ultimately show ?thesis using wf e False by (simp add: net_inv_def)
  next
    case True
    let ?t = "fst (snapshot_calls (start_migration (ctx P E ?s)) ?s)"
    have c: "calls_of ?t = map (fst \<circ> start_migration (ctx P E ?s)) (calls_of st)"
      unfolding snapshot_calls_frames n(5) using assms(2) by simp
    have m: "max_attempts (mx_nm (ctx P E ?s)) \<noteq> 0" using assms(1) unfolding ctx_nm n(2) by (simp add: calls_wf_def)
    have "mig_wf (n_nm ?s) (fst (start_migration (ctx P E ?s) lc))" if "lc \<in> set (calls_of st)" for lc
      using start_wf [OF m, of lc] lt [OF that] unfolding ctx_nm by blast
    then have "calls_wf ?t" using wf unfolding calls_wf_def c snapshot_calls_frames(1) by simp
    then have "calls_wf (fst (arm_verify ?t))" by (rule wf_same) simp_all
    moreover have "verify_armed (fst (arm_verify ?t))" by (rule arm_verify_armed) (use assms(2) c in simp)
    moreover have "settle_armed (fst (arm_verify ?t))" by (simp add: settle_armed_def)
    ultimately show ?thesis using e True by (simp add: migrate_calls_def net_inv_def)
  qed
qed

lemma apply_handover_inv:
  assumes "calls_wf st" and "verify_armed st" and "reset_pending (n_nm st) \<or> force (n_nm st)"
    and "length (calls_of st) \<le> VOX_NET_MAX_SNAP" and "nm_gen (n_nm st) \<noteq> - 1"
  shows "net_inv (fst (apply_handover P E st))"
proof -
  obtain r l where u: "scan_usable E (mo_ifaddrs E) (False, False) = (r, l)" by (rule prod.exhaust)
  show ?thesis
  proof (cases "\<not> r \<and> \<not> l")
    case True
    let ?s = "fst (go_down P E True st)"
    let ?t = "?s\<lparr>n_nm := (n_nm ?s)\<lparr>tmr_settle := Some (backoff_ms (wait_ticks (n_nm ?s))), wait_ticks := wait_ticks (n_nm ?s) + 1\<rparr>\<rparr>"
    have "fst (apply_handover P E st) = ?t" using True by (simp add: apply_handover_def u)
    moreover have "calls_wf ?t" using assms(1) by (rule wf_same) simp_all
    moreover have "verify_armed ?t" using assms(2) by (rule armed_same) simp_all
    moreover have "settle_armed ?t" using assms(3) by (simp add: settle_armed_def)
    ultimately show ?thesis by (simp add: net_inv_def)
  next
    case False
    let ?s = "st\<lparr>n_nm := (n_nm st)\<lparr>wait_ticks := 0\<rparr>\<rparr>"
    let ?up = "update_cur_laddr P E (?s\<lparr>n_nm := (n_nm ?s)\<lparr>nm_down := False\<rparr>\<rparr>)"
    let ?t = "if \<not> r then fst (go_down P E False ?s) else if nm_down (n_nm ?s) then ?up else ?s"
    have e: "fst (apply_handover P E st) =
        fst (case mo_reset_all E of Some err \<Rightarrow> handover_failed P E err ?t | None \<Rightarrow> handover_done P E ?t)"
      using False by (cases "mo_reset_all E"; cases "mo_nsc E") (auto simp: apply_handover_def u)
    have w: "calls_wf ?t" by (rule wf_same [OF assms(1)]) simp_all
    have v: "verify_armed ?t" by (rule armed_same [OF assms(2)]) (simp_all split: if_splits)
    have f: "reset_pending (n_nm ?t) \<or> force (n_nm ?t)" "length (calls_of ?t) \<le> VOX_NET_MAX_SNAP" "nm_gen (n_nm ?t) \<noteq> - 1"
      using assms(3-5) by auto
    show ?thesis unfolding e
      using handover_failed_inv [OF w v f(1,2)] handover_done_inv [OF w f(2,3)] by (cases "mo_reset_all E") simp_all
  qed
qed

lemma settle_handler_inv:
  assumes "calls_wf st" and "verify_armed st" and "nm_started (n_nm st) \<Longrightarrow> announced (n_nm st) \<Longrightarrow> reset_pending (n_nm st) \<or> force (n_nm st)"
    and "length (calls_of st) \<le> VOX_NET_MAX_SNAP" and "nm_gen (n_nm st) \<noteq> - 1"
  shows "net_inv (fst (settle_handler P E st))"
proof (cases "nm_started (n_nm st)")
  case False
  then show ?thesis using assms by (simp add: settle_handler_def net_inv_def settle_armed_def)
next
  case True
  obtain k st1 es where s: "scan_addresses E st = (k, st1, es)" by (metis prod.exhaust)
  note f = scan_frames [OF s]
  have w: "calls_wf st1" by (rule wf_same [OF assms(1)]) (simp_all add: f)
  have v: "verify_armed st1" by (rule armed_same [OF assms(2)]) (simp_all add: f)
  let ?t = "st1\<lparr>n_nm := (n_nm st1)\<lparr>reset_pending := True, tmr_settle := Some (settle_ms (n_nm st1))\<rparr>\<rparr>"
  consider "k \<noteq> 0" | "k = 0" "\<not> reset_pending (n_nm st1) \<and> \<not> force (n_nm st1)" | "k = 0" "reset_pending (n_nm st1) \<or> force (n_nm st1)"
    by blast
  then show ?thesis
  proof cases
    case 1
    have "calls_wf ?t" by (rule wf_same [OF w]) simp_all
    moreover have "verify_armed ?t" by (rule armed_same [OF v]) simp_all
    ultimately show ?thesis using 1 True by (simp add: settle_handler_def s net_inv_def settle_armed_def)
  next
    case 2
    then have "\<not> announced (n_nm st1)" using assms(3) True by (auto simp: f)
    then show ?thesis using 2 True w v by (simp add: settle_handler_def s net_inv_def settle_armed_def)
  next
    case 3
    then show ?thesis using apply_handover_inv [OF w v] assms(4,5) True f by (auto simp: settle_handler_def s)
  qed
qed

lemma netmon_trigger_inv:
  assumes "net_inv st"
  shows "net_inv (fst (netmon_trigger P E forced st))"
proof (cases "nm_started (n_nm st)")
  case False
  then show ?thesis using assms by (simp add: netmon_trigger_def)
next
  case True
  obtain k st1 es where s: "scan_addresses E st = (k, st1, es)" by (metis prod.exhaust)
  note f = scan_frames [OF s]
  let ?N = "(n_nm st1)\<lparr>reset_pending := (k \<noteq> 0 \<or> reset_pending (n_nm st1)), force := (forced \<or> force (n_nm st1))\<rparr>"
  let ?s = "st1\<lparr>n_nm := ?N\<rparr>"
  let ?a = "fst (announce P E ?s)"
  let ?t = "?a\<lparr>n_nm := (n_nm ?a)\<lparr>tmr_settle := Some (settle_ms (n_nm ?a))\<rparr>\<rparr>"
  have w: "calls_wf st1" "calls_wf ?s" "calls_wf ?t" by (rule wf_same [of st]; use assms f in \<open>simp add: net_inv_def\<close>)+
  have v: "verify_armed st1" "verify_armed ?s" "verify_armed ?t" by (rule armed_same [of st]; use assms f in \<open>simp add: net_inv_def\<close>)+
  show ?thesis
  proof (cases "\<not> reset_pending ?N \<and> \<not> force ?N")
    case True
    then show ?thesis using assms w v \<open>nm_started (n_nm st)\<close> f
      by (auto simp: netmon_trigger_def s net_inv_def settle_armed_def)
  next
    case False
    then have "settle_armed ?t" by (auto simp: settle_armed_def)
    moreover have "fst (netmon_trigger P E forced st) = ?t" using False True by (auto simp: netmon_trigger_def s Let_def)
    ultimately show ?thesis using w v by (simp add: net_inv_def)
  qed
qed

text \<open>The events of the stack change nothing of a migration; a new call has none.\<close>

definition mig_view :: "vcall \<Rightarrow> u32 \<times> mig_state \<times> u32" where
  "mig_view c = (net_mig_gen c, net_mig_state c, net_mig_tries c)"

definition mig_views :: "vox \<Rightarrow> (u32 \<times> mig_state \<times> u32) set" where
  "mig_views v = mig_view ` set (s_calls (v_calls v))"

definition mig_quiet :: "vox \<Rightarrow> vox \<Rightarrow> bool" where
  "mig_quiet v v' \<longleftrightarrow> mig_views v' \<subseteq> insert (0, MIG_IDLE, 0) (mig_views v)"

lemma mig_quiet_refl [simp]: "mig_quiet v v"
  by (auto simp: mig_quiet_def)

lemma mig_quiet_on_call [simp]:
  assumes "\<And>x. mig_view (f x) = mig_view x"
  shows "mig_quiet v (on_call lc f v)"
proof -
  have "mig_view (if lc_handle x = h then f x else x) = mig_view x" for x h using assms by simp
  then have "mig_view ` set (map (\<lambda>x. if lc_handle x = h then f x else x) cs) = mig_view ` set cs" for h cs
    by (simp only: set_map image_image)
  then show ?thesis
    by (cases lc) (simp_all add: mig_quiet_def mig_views_def on_call_def call_write_def vox_call_foreach_def subset_insertI del: set_map)
qed

lemma mig_quiet_call:
  assumes "mig_quiet v v'" and "c \<in> set (s_calls (v_calls v'))"
  obtains "mig_view c = (0, MIG_IDLE, 0)" | d where "d \<in> set (s_calls (v_calls v))" "mig_view c = mig_view d"
proof -
  have "mig_view c \<in> insert (0, MIG_IDLE, 0) (mig_views v)" using assms by (auto simp: mig_quiet_def mig_views_def)
  then show ?thesis using that unfolding mig_views_def by blast
qed

lemma mig_quiet_registration [simp]: "mig_quiet v (fst (bev_registration acct f rs v))"
  by (cases acct) (simp_all add: mig_quiet_def mig_views_def bev_registration_def on_account_def subset_insertI split: prod.splits)

lemma mig_quiet_unregister: "mig_quiet v v' \<Longrightarrow> mig_quiet v (v'\<lparr>v_calls := vox_call_unregister h (v_calls v')\<rparr>)"
  by (auto simp: mig_quiet_def mig_views_def vox_call_unregister_def)

lemma mig_quiet_incoming: "mig_quiet v (fst (bev_incoming L B a b v))"
proof (cases "be_wrapper B")
  case None
  then show ?thesis by (simp add: bev_incoming_def vox_call_wrap_new_def)
next
  case (Some k)
  obtain lc where w: "vox_call_wrap_new (Some k) (\<lambda>_. True) (v_db v) b a CALL_RINGING False (v_calls v)
      = (Some lc, vox_call_register lc (v_calls v))" "mig_view lc = (0, MIG_IDLE, 0)"
    by (simp add: vox_call_wrap_new_def Let_def call_zero_def mig_view_def split: option.splits)
  then have q: "mig_quiet v (v\<lparr>v_calls := vox_call_register lc (v_calls v)\<rparr>)"
    by (auto simp: mig_quiet_def mig_views_def vox_call_register_def)
  then show ?thesis using w mig_quiet_unregister [OF q, of "lc_handle lc"] by (simp add: bev_incoming_def Some Let_def)
qed

lemma mig_quiet_closed: "mig_quiet v (fst (bev_closed L G B r acct lc v))"
  by (cases lc) (simp_all add: bev_closed_def Let_def mig_quiet_unregister mig_view_def)

lemma mig_quiet_branches:
  "mig_quiet v (fst (bev_simple a lc s v))" "mig_quiet v (fst (bev_established B a lc v))"
  "mig_quiet v (on_call lc (\<lambda>x. x\<lparr>lc_state := CALL_ESTABLISHED\<rparr>) v)"
  "mig_quiet v (fst (bev_dtmf lc d v))" "mig_quiet v (fst (bev_transfer_failed L B r a lc v))"
  "mig_quiet v (fst (bev_sdp L G B l p lc v))" "mig_quiet v (fst (vox_transfer_handle_event L B t a lc v))"
  by (cases lc; simp add: bev_simple_def bev_established_def vox_adapt_call_start_def bev_dtmf_def bev_transfer_failed_def
      bev_sdp_def vox_sdp_handle_event_def vox_transfer_handle_event_def mig_view_def Let_def split: option.splits list.splits)+

lemma handler_mig_quiet: "mig_quiet v (fst (bevent_handler L G B bev u bc v))"
  by (cases bev)
    (simp_all add: bevent_handler_def bev_reg_fail_def Let_def mig_quiet_branches mig_quiet_closed mig_quiet_incoming split: option.splits)

lemma quiet_wf:
  assumes "mig_quiet (n_vox st) v" and "calls_wf st"
  shows "calls_wf (st\<lparr>n_vox := v\<rparr>)"
proof -
  have "mig_wf (n_nm st) c" if "c \<in> set (s_calls (v_calls v))" for c
  proof (rule mig_quiet_call [OF assms(1) that])
    assume "mig_view c = (0, MIG_IDLE, 0)"
    then show ?thesis by (simp add: mig_view_def mig_wf_def in_budget_def migrating_def)
  next
    fix d
    assume "d \<in> set (s_calls (v_calls (n_vox st)))" and v: "mig_view c = mig_view d"
    then have "mig_wf (n_nm st) d" using assms(2) by (simp add: calls_wf_def calls_of_def)
    then show ?thesis using v by (simp add: mig_view_def mig_wf_def in_budget_def migrating_def)
  qed
  then show ?thesis using assms(2) by (simp add: calls_wf_def calls_of_def)
qed

lemma quiet_armed:
  assumes "mig_quiet (n_vox st) v" and "verify_armed st"
  shows "verify_armed (st\<lparr>n_vox := v\<rparr>)"
proof -
  have "\<exists>d \<in> set (calls_of st). owed (n_nm st) d" if "c \<in> set (s_calls (v_calls v))" "owed (n_nm st) c" for c
  proof (rule mig_quiet_call [OF assms(1) that(1)])
    assume "mig_view c = (0, MIG_IDLE, 0)"
    then show ?thesis using that(2) by (simp add: mig_view_def owed_def migrating_def)
  next
    fix d
    assume "d \<in> set (s_calls (v_calls (n_vox st)))" and v: "mig_view c = mig_view d"
    then show ?thesis using that(2) by (auto simp: mig_view_def owed_def migrating_def calls_of_def)
  qed
  then show ?thesis using assms(2) by (auto simp: verify_armed_def calls_of_def)
qed

lemma bev_hook_frames:
  "calls_of (fst (bev_hook P E e st)) = calls_of st \<and> (\<exists>t. n_nm (fst (bev_hook P E e st)) = (n_nm st)\<lparr>tmr_verify := t\<rparr> \<and> (t = None \<longrightarrow> tmr_verify (n_nm st) = None))"
proof (cases e)
  case (B_Refreshable h)
  then show ?thesis
    by (cases "call_get h (v_calls (n_vox st))")
      (auto simp: vox_netmon_call_refreshable_def intro: exI [of _ "tmr_verify (n_nm st)"] exI [of _ "Some 1"])
next
  case (B_SdpAnswer h)
  then show ?thesis
    by (cases "call_get h (v_calls (n_vox st))") (auto intro: exI [of _ "tmr_verify (n_nm st)"])
qed (auto intro: exI [of _ "tmr_verify (n_nm st)"])

lemma bev_hook_inv: "net_inv st \<Longrightarrow> net_inv (fst (bev_hook P E e st))"
proof -
  assume i: "net_inv st"
  obtain t where f: "calls_of (fst (bev_hook P E e st)) = calls_of st" "n_nm (fst (bev_hook P E e st)) = (n_nm st)\<lparr>tmr_verify := t\<rparr>"
    "t = None \<longrightarrow> tmr_verify (n_nm st) = None" using bev_hook_frames [of P E e st] by blast
  have "calls_wf (fst (bev_hook P E e st))" by (rule wf_same [of st]) (use i f in \<open>simp_all add: net_inv_def\<close>)
  moreover have "verify_armed (fst (bev_hook P E e st))" by (rule armed_same [of st]) (use i f in \<open>simp_all add: net_inv_def\<close>)
  ultimately show ?thesis using i f by (simp add: net_inv_def settle_armed_def)
qed

lemma net_bev_inv: "net_inv st \<Longrightarrow> net_inv (fst (net_bev P E B bev u bc st))"
proof -
  assume i: "net_inv st"
  obtain v es where h: "bevent_handler (np_libre P) (np_vox P) B bev u bc (n_vox st) = (v, es)" by (rule prod.exhaust)
  have q: "mig_quiet (n_vox st) v" using handler_mig_quiet [of "n_vox st" "np_libre P" "np_vox P" B bev u bc] by (simp add: h)
  have "net_inv (st\<lparr>n_vox := v\<rparr>)"
    using quiet_wf [OF q] quiet_armed [OF q] i by (simp add: net_inv_def settle_armed_def)
  moreover have "net_inv s \<Longrightarrow> net_inv (fst (run_acts (bev_hook P E) es s))" for s
    by (induction es arbitrary: s) (simp_all add: bev_hook_inv)
  ultimately have "net_inv (fst (run_acts (bev_hook P E) es (st\<lparr>n_vox := v\<rparr>)))" by blast
  then show ?thesis by (simp add: net_bev_def h)
qed

lemma call_stalled_inv: "net_inv st \<Longrightarrow> net_inv (fst (call_stalled P E h st))"
proof -
  assume i: "net_inv st"
  show ?thesis
  proof (cases "call_get h (v_calls (n_vox st))")
    case None
    then show ?thesis using i by (simp add: call_stalled_def)
  next
    case (Some lc)
    let ?c = "stall_claim (ctx P E st) lc"
    let ?s = "st\<lparr>n_vox := set_call h (\<lambda>_. ?c) (n_vox st), n_nm := (n_nm st)\<lparr>tmr_verify := Some 1\<rparr>\<rparr>"
    have m: "max_attempts (n_nm st) \<noteq> 0" using i by (simp add: net_inv_def calls_wf_def)
    have c: "set (calls_of ?s) \<subseteq> insert ?c (set (calls_of st))"
      by (auto simp: calls_of_def set_call_def call_write_def vox_call_foreach_def)
    have "mig_wf (n_nm ?s) ?c" using m
      by (simp add: mig_wf_def stall_claim_def in_budget_def unat_gt_0)
    moreover have "mig_wf (n_nm ?s) d" if "d \<in> set (calls_of st)" for d
      using i that by (simp add: net_inv_def calls_wf_def mig_wf_def)
    ultimately have "calls_wf ?s" using c m by (auto simp: calls_wf_def)
    then have "net_inv ?s" using i by (simp add: net_inv_def verify_armed_def settle_armed_def)
    then show ?thesis using i Some by (simp add: call_stalled_def vox_netmon_call_stalled_def)
  qed
qed

lemma nm_only_inv:
  assumes "net_inv st" and "nm_gen N = nm_gen (n_nm st)" and "max_attempts N = max_attempts (n_nm st)"
    and "nm_started N \<Longrightarrow> nm_started (n_nm st)" and "tmr_verify N = tmr_verify (n_nm st)" and "tmr_settle N = tmr_settle (n_nm st)"
    and "announced N = announced (n_nm st)" and "reset_pending N = reset_pending (n_nm st)" and "force N = force (n_nm st)"
  shows "net_inv (st\<lparr>n_nm := N\<rparr>)"
  using assms by (auto simp: net_inv_def calls_wf_def mig_wf_def verify_armed_def owed_def settle_armed_def)

lemma setters_inv:
  assumes "net_inv st"
  shows "net_inv (set_monitor_fn x st)" "net_inv (set_policy_fn r h st)" "net_inv (vox_netmon_stop st)"
  unfolding set_monitor_fn_def set_policy_fn_def vox_netmon_stop_def by (rule nm_only_inv [OF assms]; simp)+

lemma net_step_inv: "net_inv st \<Longrightarrow> net_ok i st \<Longrightarrow> net_inv (fst (net_step P i st))"
proof (cases i)
  case (I_Settle E)
  assume a: "net_inv st" "net_ok i st"
  let ?s = "st\<lparr>n_nm := (n_nm st)\<lparr>tmr_settle := None\<rparr>\<rparr>"
  have "net_inv (fst (settle_handler P E ?s))" if "tmr_settle (n_nm st) \<noteq> None"
  proof (rule settle_handler_inv)
    show "calls_wf ?s" by (rule wf_same [of st]) (use a in \<open>simp_all add: net_inv_def\<close>)
    show "verify_armed ?s" by (rule armed_same [of st]) (use a in \<open>simp_all add: net_inv_def\<close>)
  qed (use a in \<open>simp_all add: net_inv_def settle_armed_def\<close>)
  then show ?thesis using a I_Settle by simp
next
  case (I_Verify E)
  assume a: "net_inv st" "net_ok i st"
  let ?s = "st\<lparr>n_nm := (n_nm st)\<lparr>tmr_verify := None\<rparr>\<rparr>"
  have "net_inv (fst (verify_handler P E ?s))"
  proof (rule verify_handler_inv)
    show "calls_wf ?s" by (rule wf_same [of st]) (use a in \<open>simp_all add: net_inv_def\<close>)
  qed (use a in \<open>simp_all add: net_inv_def settle_armed_def\<close>)
  then show ?thesis using a I_Verify by simp
next
  case (I_Poll E)
  assume a: "net_inv st" "net_ok i st"
  let ?s = "st\<lparr>n_nm := (n_nm st)\<lparr>tmr_poll := None\<rparr>\<rparr>"
  have "net_inv ?s" by (rule nm_only_inv [OF a(1)]) simp_all
  from netmon_trigger_inv [OF this] have t: "net_inv (fst (netmon_trigger P E False ?s))" .
  have "net_inv ((fst (netmon_trigger P E False ?s))\<lparr>n_nm := (n_nm (fst (netmon_trigger P E False ?s)))\<lparr>tmr_poll := x\<rparr>\<rparr>)" for x
    by (rule nm_only_inv [OF t]) simp_all
  then show ?thesis using a t I_Poll \<open>net_inv ?s\<close> by (simp add: poll_handler_def)
next
  case (I_LocalAddr E sz)
  assume a: "net_inv st"
  have "net_inv (update_cur_laddr P E st)"
    unfolding update_cur_laddr_def Let_def by (rule nm_only_inv [OF a]) simp_all
  then show ?thesis using I_LocalAddr by (simp add: local_addr_fn_def Let_def)
qed (simp_all add: changed_fn_def netmon_trigger_inv setters_inv call_stalled_inv net_bev_inv)

interpretation monitor: invariant_machine "net_step P" net_ok net_inv
  by unfold_locales (rule net_step_inv)

lemma init_inv:
  assumes "calls_of st = []"
  shows "net_inv (vox_netmon_init P E st)"
  using assms
  by (simp add: net_inv_def calls_wf_def verify_armed_def settle_armed_def vox_netmon_init_def Let_def update_cur_laddr_def
      netmon_zero_def VOX_NET_MAX_ATTEMPT_def)

section \<open>Properties\<close>

text \<open>
  C2: The network monitor never forgets what it started. From its initialisation, through any
  sequence of timers, address changes, stalls, stack events and calls of the application, while
  it runs: a change of the network that was announced has a handover still to come with the
  settle timer running for it; and every call that is being migrated in the current handover
  has the verify timer running for it and is within its budget of attempts, so that the verify
  ticks bring it to a verdict.
\<close>

theorem handover_always_driven:
  assumes "calls_of st0 = []" and "legal_run (net_step P) net_ok xs (vox_netmon_init P E st0)"
    and "st = fst (run_acts (net_step P) xs (vox_netmon_init P E st0))" and "nm_started (n_nm st)"
  shows "(announced (n_nm st) \<longrightarrow> tmr_settle (n_nm st) \<noteq> None \<and> (reset_pending (n_nm st) \<or> force (n_nm st))) \<and>
    (\<forall>lc \<in> set (calls_of st). owed (n_nm st) lc \<longrightarrow>
       tmr_verify (n_nm st) \<noteq> None \<and> in_budget (unat (max_attempts (n_nm st))) lc)"
proof -
  have "net_inv st" using monitor.run_inv [OF init_inv [OF assms(1)] assms(2)] assms(3) by simp
  then show ?thesis using assms(4)
    by (auto simp: net_inv_def settle_armed_def verify_armed_def calls_wf_def mig_wf_def owed_def)
qed

definition mon_env0 :: "u64 \<Rightarrow> mon_env" where
  "mon_env0 now = \<lparr>mo_net = (net_env0 now)\<lparr>ne_route := (\<lambda>_. Some (SA INET ''b''))\<rparr>, mo_acct = env0, mo_ifaddrs = [SA INET ''b''], mo_filter = (\<lambda>_. True),
     mo_gone = (\<lambda>s. s \<noteq> SA INET ''b''), mo_add = (\<lambda>s l. Inr (l @ [s])), mo_rm = (\<lambda>s l. Inr (removeAll s l)),
     mo_laddr_af = (\<lambda>f l. find (\<lambda>s. Some (sa_af s) = f) l), mo_net_af = None, mo_reset_all = None, mo_nsc = False\<rparr>"

definition net_par0 :: net_par where
  "net_par0 = \<lparr>np_libre = libre_ref, np_vox = cfg0, np_net = net_cfg0\<rparr>"

definition net0 :: net where
  "net0 = \<lparr>n_nm = netmon_zero, n_laddrs = [SA INET ''a''], n_vox = vox0\<rparr>"

definition move_network :: "net_in list" where
  "move_network = [I_Bev (mon_env0 500) bev_env0 BEV_CALL_INCOMING None (Some 3), I_Changed (mon_env0 1000), I_Settle (mon_env0 2500)]"

theorem handover_always_driven_witness:
  "let st = fst (run_acts (net_step net_par0) move_network (vox_netmon_init net_par0 (mon_env0 0) net0))
   in list_ex (owed (n_nm st)) (calls_of st) \<and> tmr_verify (n_nm st) \<noteq> None"
proof -
  let ?st = "fst (run_acts (net_step net_par0) move_network (vox_netmon_init net_par0 (mon_env0 0) net0))"
  have a: "calls_of net0 = []" by (simp add: calls_of_def net0_def vox0_def vox_call_global_init_def)
  have b: "legal_run (net_step net_par0) net_ok move_network (vox_netmon_init net_par0 (mon_env0 0) net0) \<and>
      nm_started (n_nm ?st) \<and> list_ex (owed (n_nm ?st)) (calls_of ?st)" by code_simp
  then have "nm_started (n_nm ?st)" by blast
  from handover_always_driven [OF a conjunct1 [OF b] refl this] b show ?thesis unfolding Let_def list_ex_iff by blast
qed

text \<open>A run that starts a repair of a stalled call and then moves the network with re-INVITEs off.\<close>

definition strand :: "net_in list" where
  "strand = [I_SetPolicy False False, I_Bev (mon_env0 500) bev_env0 BEV_CALL_INCOMING None (Some 3), I_Stalled (mon_env0 9000) 7, I_Verify (mon_env0 9001),
     I_Changed (mon_env0 9500), I_Settle (mon_env0 11000), I_Verify (mon_env0 12000), I_Verify (mon_env0 16000)]"

text \<open>
  C36: A handover without re-INVITEs strands a stall repair. The handover counts its generation
  up and, with \<open>net_reinvite_calls\<close> off, restarts no call: a call whose repair was waiting for
  its verdict stays in the state SENT of a generation nobody looks at, without a timer and
  without a verdict. The stall detector of \<^verbatim>\<open>src/adapt.c\<close> excuses a call in that state, so its
  silence is never reported again.
\<close>

theorem handover_strands_stall_repair:
  "let st = fst (run_acts (net_step net_par0) strand (vox_netmon_init net_par0 (mon_env0 0) net0));
       es = snd (run_acts (net_step net_par0) strand (vox_netmon_init net_par0 (mon_env0 0) net0))
   in map net_mig_state (calls_of st) = [MIG_SENT] \<and> tmr_verify (n_nm st) = None \<and> tmr_settle (n_nm st) = None \<and>
      filter is_verdict es = [] \<and> list_all (stall_excused M) (calls_of st)"
proof -
  let ?r = "run_acts (net_step net_par0) strand (vox_netmon_init net_par0 (mon_env0 0) net0)"
  have "(let r = ?r in map net_mig_state (calls_of (fst r)) = [MIG_SENT] \<and> tmr_verify (n_nm (fst r)) = None \<and>
      tmr_settle (n_nm (fst r)) = None \<and> filter is_verdict (snd r) = [])" by code_simp
  then have s: "map net_mig_state (calls_of (fst ?r)) = [MIG_SENT]" "tmr_verify (n_nm (fst ?r)) = None"
    "tmr_settle (n_nm (fst ?r)) = None" "filter is_verdict (snd ?r) = []" unfolding Let_def by blast+
  then have "list_all (stall_excused M) (calls_of (fst ?r))" by (auto simp: stall_excused_def map_eq_Cons_conv)
  with s show ?thesis unfolding Let_def by blast
qed

end
