(* ===== verification/Vox_Pcap.thy ===== *)
theory Vox_Pcap
  imports Vox_Event_Queue Vox_Record Vox_Dispatch
begin

text \<open>
  \<^verbatim>\<open>src/pcap.c\<close> and \<^verbatim>\<open>src/trace.c\<close>: the capture file of the SIP traffic, and the hook of the
  stack that feeds it and posts the trace events. The capture is the bytes written so far;
  the headers of the file are in the byte order of the machine, those of the packets in
  network order.
\<close>

section \<open>The capture file\<close>

text \<open>What libre answers for an address: whether one is set, the IPv4 address as a number, the
  port, and its text (\<open>sa_print_addr\<close>).\<close>

record sip_peer =
  pa_isset :: bool
  pa_in :: u32
  pa_port :: u16
  pa_text :: string

definition be16 :: "u16 \<Rightarrow> u8 list" where
  "be16 w = [ucast (drop_bit 8 w), ucast w]"

definition be32 :: "u32 \<Rightarrow> u8 list" where
  "be32 w = [ucast (drop_bit 24 w), ucast (drop_bit 16 w), ucast (drop_bit 8 w), ucast w]"

definition write_global_header :: "u8 list" where
  "write_global_header =
     le32 0xa1b2c3d4 @ le16 2 @ le16 4 @ le32 0 @ le32 0 @ le32 65535 @ le32 101"

definition sa_to_bytes :: "sip_peer option \<Rightarrow> u8 list \<times> u16" where
  "sa_to_bytes addr =
     (case addr of
        None \<Rightarrow> ([0, 0, 0, 0], 0)
      | Some a \<Rightarrow> if \<not> pa_isset a then ([0, 0, 0, 0], 0) else (be32 (pa_in a), pa_port a))"

text \<open>The outcome of \<open>fopen\<close>, with \<open>errno\<close> when it fails (\<open>None\<close> for 0).\<close>

datatype fopened = F_ok | F_fail "errno option"

definition vox_pcap_open :: "cptr \<Rightarrow> fopened \<Rightarrow> u8 list option \<Rightarrow> errno option \<times> u8 list option" where
  "vox_pcap_open path opened file =
     (if path = None then (None, file)
      else if file \<noteq> None then (Some EALREADY, file)
      else (case opened of
              F_fail e \<Rightarrow> (Some (case e of Some e \<Rightarrow> e | None \<Rightarrow> EIO), None)
            | F_ok \<Rightarrow> (None, Some write_global_header)))"

text \<open>The file that was closed, if there was one.\<close>

definition vox_pcap_close :: "u8 list option \<Rightarrow> u8 list option \<times> u8 list option" where
  "vox_pcap_close file = (file, None)"

definition pcap_pkt_hdr :: "u32 \<times> u32 \<Rightarrow> u32 \<Rightarrow> u8 list" where
  "pcap_pkt_hdr tv pkt_len = le32 (fst tv) @ le32 (snd tv) @ le32 pkt_len @ le32 pkt_len"

definition ip_hdr :: "u16 \<Rightarrow> u8 \<Rightarrow> u8 list \<Rightarrow> u8 list \<Rightarrow> u8 list" where
  "ip_hdr total_len proto src dst =
     [0x45, 0] @ be16 total_len @ be16 0 @ be16 0 @ [64, proto] @ be16 0 @ src @ dst"

definition udp_hdr :: "u16 \<Rightarrow> u16 \<Rightarrow> u16 \<Rightarrow> u8 list" where
  "udp_hdr src_port dst_port udp_len = be16 src_port @ be16 dst_port @ be16 udp_len @ be16 0"

definition tcp_hdr :: "u16 \<Rightarrow> u16 \<Rightarrow> u8 list" where
  "tcp_hdr src_port dst_port =
     be16 src_port @ be16 dst_port @ be32 0 @ be32 0 @ be16 0x5010 @ be16 65535 @ be16 0 @ be16 0"

text \<open>\<open>tv\<close> is what \<open>gettimeofday\<close> gives; the lengths are cut to 16 bits as the code casts them.\<close>

definition vox_pcap_write_sip ::
  "u32 \<times> u32 \<Rightarrow> u8 list \<Rightarrow> sip_peer option \<Rightarrow> sip_peer option \<Rightarrow> bool \<Rightarrow> u8 list option \<Rightarrow> u8 list option" where
  "vox_pcap_write_sip tv data src dst is_udp file =
     (if data = [] then file
      else (case file of
              None \<Rightarrow> None
            | Some f \<Rightarrow>
                (let (src_ip, sp) = sa_to_bytes src;
                     (dst_ip, dp) = sa_to_bytes dst;
                     src_port = (if sp = 0 then 5060 else sp);
                     dst_port = (if dp = 0 then 5060 else dp)
                 in if is_udp then
                      (let udp_len = of_nat (8 + length data) :: u16;
                           pkt_len = 20 + ucast udp_len :: u32
                       in Some (f @ pcap_pkt_hdr tv pkt_len @ ip_hdr (20 + udp_len) 17 src_ip dst_ip
                                  @ udp_hdr src_port dst_port udp_len @ data))
                    else
                      (let l4_total = of_nat (20 + length data) :: u16;
                           pkt_len = 20 + ucast l4_total :: u32
                       in Some (f @ pcap_pkt_hdr tv pkt_len @ ip_hdr (20 + l4_total) 6 src_ip dst_ip
                                  @ tcp_hdr src_port dst_port @ data)))))"

definition voxsdk_pcap_start :: "cptr \<Rightarrow> fopened \<Rightarrow> u8 list option \<Rightarrow> rc \<times> u8 list option" where
  "voxsdk_pcap_start path opened file =
     (if path = None then (RC_vox ERR_INVAL, file) else apfst rc_of (vox_pcap_open path opened file))"

definition voxsdk_pcap_stop :: "u8 list option \<Rightarrow> rc \<times> u8 list option" where
  "voxsdk_pcap_stop file = (RC_OK, snd (vox_pcap_close file))"

section \<open>The trace hook\<close>

datatype sip_tp = SIP_UDP | SIP_TCP | SIP_TLS | SIP_WS | SIP_WSS | SIP_tp_other

definition transp_name :: "sip_tp \<Rightarrow> string" where
  "transp_name tp =
     (case tp of SIP_UDP \<Rightarrow> ''UDP'' | SIP_TCP \<Rightarrow> ''TCP'' | SIP_TLS \<Rightarrow> ''TLS'' | SIP_WS \<Rightarrow> ''WS''
      | SIP_WSS \<Rightarrow> ''WSS'' | SIP_tp_other \<Rightarrow> ''?'')"

text \<open>
  Writing a string and its NUL into the zeroed buffer of a fresh event; the list is the part
  of the buffer written so far.
\<close>

definition buf_put :: "nat \<Rightarrow> string \<Rightarrow> string \<Rightarrow> string" where
  "buf_put off s b = take off (b @ replicate (off - length b) (CHR 0x00)) @ s @ CHR 0x00 # drop (off + length s + 1) b"

definition trace_event ::
  "libre \<Rightarrow> nat \<Rightarrow> u64 \<Rightarrow> bool \<Rightarrow> sip_tp \<Rightarrow> sip_peer option \<Rightarrow> string \<Rightarrow> qevent" where
  "trace_event L n jiffies tx tp peer pkt =
     (let remote = (case peer of None \<Rightarrow> [] | Some a \<Rightarrow> fst (lb_snprintf L 64 (pa_text a)));
          tn = transp_name tp;
          b1 = buf_put 0 (lb_ncpy L QEV_BUF tn) [];
          off1 = length tn + 1;
          b2 = buf_put off1 (lb_ncpy L (QEV_BUF - off1) remote) b1;
          off2 = off1 + length remote + 1;
          copy_len = (if QEV_BUF - off2 - 1 < length pkt then QEV_BUF - off2 - 1 else length pkt);
          b3 = buf_put off2 (take copy_len pkt) b2
      in \<lparr>q_id = n,
          q_ev = EV_SIP_TRACE (if tx then DIR_TX else DIR_RX) (P_buf n 0) (P_buf n off1) (P_buf n off2) (jiffies * 1000),
          q_buf = b3, q_deref = None\<rparr>)"

text \<open>
  The hook: the capture first, then the event if the configuration asks for it; \<open>mem\<close> is the
  address of a new queued event, if there is memory for one.
\<close>

record trace_st =
  ts_pcap :: "u8 list option"
  ts_evq :: evq

definition sip_trace_handler ::
  "libre \<Rightarrow> bool \<Rightarrow> nat option \<Rightarrow> u32 \<times> u32 \<Rightarrow> u64 \<Rightarrow> bool \<Rightarrow> sip_tp \<Rightarrow> sip_peer option \<Rightarrow> sip_peer option \<Rightarrow> string
   \<Rightarrow> (trace_st, ev_eff) act" where
  "sip_trace_handler L trace_sip mem tv jiffies tx tp src dst pkt s =
     (let s1 = s\<lparr>ts_pcap := vox_pcap_write_sip tv (tag pkt) (if tx then None else src) (if tx then dst else None) (tp = SIP_UDP) (ts_pcap s)\<rparr>
      in if \<not> trace_sip \<or> fst (ev_cb (ts_evq s)) = None then (s1, [])
         else (case mem of
                 None \<Rightarrow> (s1, [])
               | Some n \<Rightarrow>
                   (case ev_post queue_post_silent (trace_event L n jiffies tx tp (if tx then dst else src) pkt) (ts_evq s1) of
                      (q, es) \<Rightarrow> (s1\<lparr>ts_evq := q\<rparr>, es))))"

text \<open>\<open>vox_trace_init\<close>: whether the hook is installed, and the error.\<close>

definition vox_trace_init :: "bool \<Rightarrow> cptr \<Rightarrow> bool \<Rightarrow> bool \<Rightarrow> errno option \<times> bool" where
  "vox_trace_init trace_sip pcap_path have_sip hook =
     (if \<not> trace_sip \<and> pcap_path = None then (None, hook)
      else if \<not> have_sip then (Some ENOENT, hook) else (None, True))"

definition vox_trace_close :: "bool \<Rightarrow> bool \<Rightarrow> bool" where
  "vox_trace_close have_sip hook = (if have_sip then False else hook)"

section \<open>Reading a capture\<close>

text \<open>
  A reader of the format, for raw IP: the packets with their time, protocol, addresses, ports
  and payload, or \<open>None\<close> if the file is not well formed (a length that disagrees with another
  or with the bytes that are there included).
\<close>

definition getb16 :: "u8 list \<Rightarrow> u16" where
  "getb16 bs = push_bit 8 (ucast (bs ! 0)) OR ucast (bs ! 1)"

type_synonym packet = "(u32 \<times> u32) \<times> bool \<times> u8 list \<times> u16 \<times> u8 list \<times> u16 \<times> u8 list"

definition ip_read :: "u32 \<times> u32 \<Rightarrow> u8 list \<Rightarrow> packet option" where
  "ip_read tv p =
     (if length p < 28 \<or> p ! 0 \<noteq> 0x45 \<or> unat (getb16 (drop 2 p)) \<noteq> length p then None
      else let src = take 4 (drop 12 p); dst = take 4 (drop 16 p); sp = getb16 (drop 20 p); dp = getb16 (drop 22 p)
           in if p ! 9 = 17 \<and> unat (getb16 (drop 24 p)) = length p - 20 then Some (tv, True, src, sp, dst, dp, drop 28 p)
              else if p ! 9 = 6 \<and> 40 \<le> length p \<and> p ! 32 = 0x50 then Some (tv, False, src, sp, dst, dp, drop 40 p)
              else None)"

function pcap_packets :: "u8 list \<Rightarrow> packet list option" where
  "pcap_packets f =
     (if f = [] then Some []
      else let incl = unat (get32 (drop 8 f)); body = drop 16 f
           in if length f < 16 \<or> length body < incl \<or> get32 (drop 12 f) \<noteq> get32 (drop 8 f) then None
              else (case ip_read (get32 f, get32 (drop 4 f)) (take incl body) of
                      None \<Rightarrow> None
                    | Some p \<Rightarrow> map_option ((#) p) (pcap_packets (drop incl body))))"
  by auto
termination by (relation "measure length") auto

declare pcap_packets.simps [simp del]

definition pcap_read :: "u8 list \<Rightarrow> packet list option" where
  "pcap_read f = (if take 24 f = write_global_header then pcap_packets (drop 24 f) else None)"

section \<open>Lemmas\<close>

lemma be_lengths [simp]: "length (be16 v) = 2" "length (be32 w) = 4" "length (pcap_pkt_hdr tv n) = 16"
    "length (udp_hdr a b c) = 8" "length (tcp_hdr a b) = 20" "length write_global_header = 24"
  by (simp_all add: be16_def be32_def pcap_pkt_hdr_def udp_hdr_def tcp_hdr_def write_global_header_def)

lemma getb16_be16 [simp]: "getb16 (be16 w @ bs) = w"
  unfolding getb16_def be16_def by (rule bit_word_eqI) (auto simp: bit_simps)

lemma getb16_pair [simp]: "getb16 (ucast (drop_bit 8 w) # ucast w # bs) = w"
  using getb16_be16 [of w bs] by (simp add: be16_def)

lemma sa_bytes_length [simp]: "length (fst (sa_to_bytes a)) = 4"
  by (simp add: sa_to_bytes_def split: option.split)

lemma ip_read_udp:
  assumes "length src = 4" and "length dst = 4" and "n = 28 + length d" and "n < 65536"
  shows "ip_read tv (ip_hdr (of_nat n) 17 src dst @ udp_hdr sp dp (of_nat (n - 20)) @ d) = Some (tv, True, src, sp, dst, dp, d)"
proof -
  obtain s1 s2 s3 s4 where s: "src = [s1, s2, s3, s4]" using assms(1) by (auto simp: numeral_eq_Suc length_Suc_conv)
  obtain t1 t2 t3 t4 where t: "dst = [t1, t2, t3, t4]" using assms(2) by (auto simp: numeral_eq_Suc length_Suc_conv)
  have "unat (of_nat n :: u16) = n" "unat (of_nat (n - 20) :: u16) = n - 20"
    using assms(4) by (simp_all add: unsigned_of_nat take_bit_nat_eq_self)
  then show ?thesis
    using assms(3) by (simp add: ip_read_def ip_hdr_def udp_hdr_def be16_def s t Let_def del: of_nat_add)
qed

lemma ip_read_tcp:
  assumes "length src = 4" and "length dst = 4" and "n = 40 + length d" and "n < 65536"
  shows "ip_read tv (ip_hdr (of_nat n) 6 src dst @ tcp_hdr sp dp @ d) = Some (tv, False, src, sp, dst, dp, d)"
proof -
  obtain s1 s2 s3 s4 where s: "src = [s1, s2, s3, s4]" using assms(1) by (auto simp: numeral_eq_Suc length_Suc_conv)
  obtain t1 t2 t3 t4 where t: "dst = [t1, t2, t3, t4]" using assms(2) by (auto simp: numeral_eq_Suc length_Suc_conv)
  have "unat (of_nat n :: u16) = n" using assms(4) by (simp add: unsigned_of_nat take_bit_nat_eq_self)
  moreover have "ucast (drop_bit 8 (0x5010 :: u16)) = (0x50 :: u8)" by code_simp
  ultimately show ?thesis
    using assms(3) by (simp add: ip_read_def ip_hdr_def tcp_hdr_def be16_def be32_def s t Let_def del: of_nat_add)
qed

lemma le32_nonempty: "le32 w \<noteq> []"
  by (simp add: le32_def)

lemma pcap_packets_Cons:
  assumes "ip_read tv p = Some x" and "length p < 2 ^ 32" and "pcap_packets rest = Some xs"
  shows "pcap_packets (pcap_pkt_hdr tv (of_nat (length p)) @ p @ rest) = Some (x # xs)"
proof -
  have "unat (of_nat (length p) :: u32) = length p"
    using assms(2) by (simp add: unsigned_of_nat take_bit_nat_eq_self)
  then show ?thesis
    using assms(1,3) by (subst pcap_packets.simps) (simp add: pcap_pkt_hdr_def Let_def le32_nonempty)
qed

text \<open>A message on its way into the capture, and the packet a reader should see for it.\<close>

type_synonym sip_msg = "(u32 \<times> u32) \<times> u8 list \<times> sip_peer option \<times> sip_peer option \<times> bool"

definition capture :: "sip_msg \<Rightarrow> u8 list option \<Rightarrow> u8 list option" where
  "capture m = (case m of (tv, data, src, dst, is_udp) \<Rightarrow> vox_pcap_write_sip tv data src dst is_udp)"

definition fits :: "sip_msg \<Rightarrow> bool" where
  "fits m = (case m of (tv, data, src, dst, is_udp) \<Rightarrow> data \<noteq> [] \<and> length data \<le> (if is_udp then 65507 else 65495))"

definition port_or_sip :: "u16 \<Rightarrow> u16" where
  "port_or_sip p = (if p = 0 then 5060 else p)"

definition packet_of :: "sip_msg \<Rightarrow> packet" where
  "packet_of m = (case m of (tv, data, src, dst, is_udp) \<Rightarrow>
     (tv, is_udp, fst (sa_to_bytes src), port_or_sip (snd (sa_to_bytes src)),
      fst (sa_to_bytes dst), port_or_sip (snd (sa_to_bytes dst)), data))"

lemma capture_appends:
  assumes "fits m"
  shows "\<exists>p. capture m (Some f) = Some (f @ p) \<and> (\<forall>rest xs. pcap_packets rest = Some xs \<longrightarrow> pcap_packets (p @ rest) = Some (packet_of m # xs))"
proof -
  obtain tv d src dst u where m: "m = (tv, d, src, dst, u)" by (metis prod_cases5)
  obtain si sp where s: "sa_to_bytes src = (si, sp)" by fastforce
  obtain di dp where t: "sa_to_bytes dst = (di, dp)" by fastforce
  have l: "length si = 4" "length di = 4" using sa_bytes_length [of src] sa_bytes_length [of dst] s t by simp_all
  let ?sp = "port_or_sip sp" and ?dp = "port_or_sip dp"
  define n where "n = (if u then 28 else 40) + length d"
  have n: "n < 65536" using assms by (auto simp: m fits_def n_def split: if_splits)
  define q where "q = ip_hdr (of_nat n) (if u then 17 else 6) si di @ (if u then udp_hdr ?sp ?dp (of_nat (n - 20)) else tcp_hdr ?sp ?dp) @ d"
  have lq: "length q = n" using l by (simp add: q_def ip_hdr_def n_def)
  have r: "ip_read tv q = Some (packet_of m)"
    using ip_read_udp [OF l, of n d tv ?sp ?dp] ip_read_tcp [OF l, of n d tv ?sp ?dp] n
    by (simp add: q_def n_def packet_of_def m s t del: of_nat_add)
  have c: "20 + ucast (of_nat (n - 20) :: u16) = (of_nat n :: u32)"
    using n by (intro word_unat_eq_iff [THEN iffD2])
      (auto simp: unat_word_ariths unsigned_ucast_eq unsigned_of_nat take_bit_nat_eq_self take_bit_word_eq_self n_def split: if_splits)
  have e: "20 + of_nat (n - 20) = (of_nat n :: u16)" by (simp add: n_def)
  have "capture m (Some f) = Some (f @ pcap_pkt_hdr tv (of_nat n) @ q)"
  proof -
    have d: "d \<noteq> []" "u \<Longrightarrow> 8 + length d = n - 20" "\<not> u \<Longrightarrow> 20 + length d = n - 20"
      using assms by (simp_all add: m fits_def n_def)
    show ?thesis
      by (simp add: capture_def m vox_pcap_write_sip_def s t Let_def q_def port_or_sip_def d c e del: of_nat_add of_nat_diff)
  qed
  moreover have "pcap_packets (pcap_pkt_hdr tv (of_nat n) @ q @ rest) = Some (packet_of m # xs)"
    if "pcap_packets rest = Some xs" for rest xs
    using pcap_packets_Cons [OF r _ that] n lq by simp
  ultimately show ?thesis by (intro exI [of _ "pcap_pkt_hdr tv (of_nat n) @ q"]) simp
qed

lemma capture_run:
  "\<forall>m \<in> set ms. fits m \<Longrightarrow> \<exists>p. fold capture ms (Some f) = Some (f @ p) \<and> pcap_packets p = Some (map packet_of ms)"
proof (induction ms arbitrary: f)
  case Nil
  then show ?case by (auto simp: pcap_packets.simps)
next
  case (Cons m ms)
  from capture_appends [of m f] Cons.prems obtain p where
    p: "capture m (Some f) = Some (f @ p)" "\<forall>rest xs. pcap_packets rest = Some xs \<longrightarrow> pcap_packets (p @ rest) = Some (packet_of m # xs)"
    by auto
  from Cons.prems obtain p' where "fold capture ms (Some (f @ p)) = Some ((f @ p) @ p')" "pcap_packets p' = Some (map packet_of ms)"
    using Cons.IH [of "f @ p"] by auto
  with p show ?case by (intro exI [of _ "p @ p'"]) simp
qed

section \<open>Properties\<close>

text \<open>
  C30: A capture reads back as the traffic. From a successful start, through any messages over
  UDP or a stream transport, to the stop, the file is a well-formed capture whose packets are
  the messages in order, each with its time, protocol, addresses, ports (5060 where none is
  known) and its bytes in full, as long as every message fits an IP packet.
\<close>

theorem capture_reads_back:
  assumes "\<forall>m \<in> set ms. fits m"
  shows "\<exists>f. fst (vox_pcap_close (fold capture ms (snd (vox_pcap_open (Some path) F_ok None)))) = Some f \<and>
    pcap_read f = Some (map packet_of ms)"
  using capture_run [OF assms, of write_global_header] by (auto simp: vox_pcap_open_def vox_pcap_close_def pcap_read_def)

definition demo_traffic :: "sip_msg list" where
  "demo_traffic =
     [((7, 9), tag ''OPTIONS'', None, Some \<lparr>pa_isset = True, pa_in = 0x0a000001, pa_port = 5080, pa_text = ''10.0.0.1''\<rparr>, True),
      ((8, 1), tag ''200'', Some \<lparr>pa_isset = True, pa_in = 0x0a000001, pa_port = 0, pa_text = ''10.0.0.1''\<rparr>, None, False)]"

theorem capture_reads_back_witness:
  "\<exists>f. fst (vox_pcap_close (fold capture demo_traffic (snd (vox_pcap_open (Some ''t.pcap'') F_ok None)))) = Some f \<and>
    pcap_read f = Some
      [((7, 9), True, [0, 0, 0, 0], 5060, [10, 0, 0, 1], 5080, tag ''OPTIONS''),
       ((8, 1), False, [10, 0, 0, 1], 5060, [0, 0, 0, 0], 5060, tag ''200'')]"
proof -
  have "\<forall>m \<in> set demo_traffic. fits m" by (simp add: demo_traffic_def fits_def tag_def)
  moreover have "map packet_of demo_traffic =
      [((7, 9), True, [0, 0, 0, 0], 5060, [10, 0, 0, 1], 5080, tag ''OPTIONS''),
       ((8, 1), False, [10, 0, 0, 1], 5060, [0, 0, 0, 0], 5060, tag ''200'')]" by code_simp
  ultimately show ?thesis using capture_reads_back [of demo_traffic "''t.pcap''"] by simp
qed

text \<open>
  A message that does not fit an IP packet breaks the capture. Its length is cut to 16 bits
  in the headers but all its bytes are written, so the record announces less than what follows
  it, and a reader takes the rest of the message for the next record.
\<close>

theorem oversized_message_breaks_capture:
  assumes "65536 \<le> (if is_udp then 8 else 20) + length data"
  shows "\<exists>f. vox_pcap_write_sip tv data src dst is_udp (Some write_global_header) = Some f \<and>
    24 + 16 + unat (get32 (drop 32 f)) < length f"
proof -
  have bound: "unat (20 + ucast (w :: u16) :: u32) \<le> 65555" for w
  proof -
    have "unat w < 65536" using unsigned_less [of w, where ?'a = nat] by simp
    then show ?thesis by (simp add: unat_word_ariths unsigned_ucast_eq take_bit_word_eq_self take_bit_nat_eq_self)
  qed
  have "data \<noteq> []" using assms by (auto split: if_splits)
  then have "\<exists>f. vox_pcap_write_sip tv data src dst is_udp (Some write_global_header) = Some f"
    by (simp add: vox_pcap_write_sip_def Let_def case_prod_beta)
  then obtain f where f: "vox_pcap_write_sip tv data src dst is_udp (Some write_global_header) = Some f" ..
  have "\<exists>w :: u16. get32 (drop 32 f) = 20 + ucast w"
    using f assms by (auto simp: vox_pcap_write_sip_def Let_def case_prod_beta pcap_pkt_hdr_def split: if_splits)
  then have "unat (get32 (drop 32 f)) \<le> 65555" using bound by auto
  moreover have "length f = 24 + 16 + 20 + (if is_udp then 8 else 20) + length data"
    using f assms by (auto simp: vox_pcap_write_sip_def Let_def case_prod_beta ip_hdr_def split: if_splits)
  ultimately show ?thesis using f assms by auto
qed

theorem oversized_message_breaks_capture_witness:
  "65536 \<le> (if False then 8 else 20) + length (replicate 65516 (1 :: u8)) \<and>
   (\<exists>f. vox_pcap_write_sip (0, 0) (replicate 65516 1) None None False (Some write_global_header) = Some f \<and>
     24 + 16 + unat (get32 (drop 32 f)) < length f)"
proof -
  have "65536 \<le> (if False then 8 else 20) + length (replicate 65516 (1 :: u8))" by simp
  then show ?thesis using oversized_message_breaks_capture [of False "replicate 65516 1" "(0, 0)" None None] by blast
qed

end
