(* ===== verification/Vox_Producers.thy ===== *)
theory Vox_Producers
  imports Vox_Pcap Vox_Config
begin

text \<open>
  The parts that turn what the stack reports into events of their own: the log bridge
  (\<^verbatim>\<open>src/log.c\<close>), instant messages (\<^verbatim>\<open>src/message.c\<close>), presence and message waiting
  (\<^verbatim>\<open>src/presence.c\<close>); and the custom headers (\<^verbatim>\<open>src/headers.c\<close>). Each packs the strings of an
  event into the event's own buffer.
\<close>

section \<open>Log\<close>

text \<open>\<open>queue_log_event\<close>: the event, for \<open>len\<close> bytes at \<open>msg\<close>, or a C string when \<open>len\<close> is 0.\<close>

definition log_event :: "libre \<Rightarrow> nat \<Rightarrow> string \<Rightarrow> nat \<Rightarrow> qevent" where
  "log_event L n msg len =
     \<lparr>q_id = n, q_ev = EV_LOG (P_buf n 0),
      q_buf = buf_put 0 (if 0 < len \<and> len < QEV_BUF then take len msg else lb_ncpy L QEV_BUF msg) [],
      q_deref = None\<rparr>"

definition queue_log_event :: "libre \<Rightarrow> nat option \<Rightarrow> string \<Rightarrow> nat \<Rightarrow> (evq, ev_eff) act" where
  "queue_log_event L mem msg len =
     (case mem of None \<Rightarrow> skip | Some n \<Rightarrow> ev_post queue_post_silent (log_event L n msg len))"

definition log_handler :: "libre \<Rightarrow> int \<Rightarrow> nat option \<Rightarrow> u32 \<Rightarrow> string \<Rightarrow> (evq, ev_eff) act" where
  "log_handler L log_level mem level msg =
     (if sint level < 3 - log_level then skip else queue_log_event L mem msg 0)"

definition re_dbg_handler :: "libre \<Rightarrow> int \<Rightarrow> nat option \<Rightarrow> int \<Rightarrow> string \<Rightarrow> nat \<Rightarrow> (evq, ev_eff) act" where
  "re_dbg_handler L log_level mem re_level p len =
     (let bslevel = (if re_level \<le> 3 then 3 else if re_level = 4 then 2 else 1 :: int)
      in if bslevel < 3 - log_level then skip else queue_log_event L mem p len)"

section \<open>Instant messages\<close>

text \<open>
  The packing of \<open>message_recv_handler\<close>: one string after the other, each cut to the room that
  is left. A step gives the pointer, the offset behind the string and the buffer.
\<close>

definition pack_next :: "nat \<Rightarrow> cptr \<Rightarrow> nat \<times> string \<Rightarrow> sptr \<times> nat \<times> string" where
  "pack_next n s st =
     (case st of (off, b) \<Rightarrow>
        (case s of
           None \<Rightarrow> (P_null, off, b)
         | Some t \<Rightarrow>
             if off < QEV_BUF then
               (let k = (if length t < QEV_BUF - off - 1 then length t else QEV_BUF - off - 1)
                in (P_buf n off, off + k + 1, buf_put off (take k t) b))
             else (P_null, off, b)))"

definition message_event :: "nat \<Rightarrow> acct_id option \<Rightarrow> cptr \<Rightarrow> cptr \<Rightarrow> cptr \<Rightarrow> qevent" where
  "message_event n acct peer ctype body =
     (case pack_next n peer (0, []) of (from_uri, st1) \<Rightarrow>
        (case pack_next n ctype st1 of (content_type, st2) \<Rightarrow>
           (case pack_next n body st2 of (text, _, b) \<Rightarrow>
              \<lparr>q_id = n, q_ev = EV_MESSAGE acct from_uri text content_type, q_buf = b, q_deref = None\<rparr>)))"

definition message_recv_handler ::
  "nat option \<Rightarrow> acct_id option \<Rightarrow> cptr \<Rightarrow> cptr \<Rightarrow> cptr \<Rightarrow> (evq, ev_eff) act" where
  "message_recv_handler mem acct peer ctype body =
     (case mem of
        None \<Rightarrow> skip
      | Some n \<Rightarrow> ev_post (\<lambda>q s. snd (vox_event_post_qev q s)) (message_event n acct peer ctype body))"

section \<open>Requests on an account\<close>

text \<open>What the functions below ask of the stack. The state is the list of accounts.\<close>

datatype acct_eff =
    A_Message nat string string
  | A_Presence nat presence_status
  | A_Rel100 nat int
  | A_CustomHdr nat string string
  | A_ContactAdd string
  | A_ContactPresence string bool
  | A_ContactRemove string

type_synonym accts = "account list"
type_synonym acct_loop = "(accts, acct_eff) re_loop"

definition acct_ua :: "acct_id \<Rightarrow> accts \<Rightarrow> nat option" where
  "acct_ua h as = Option.bind (find (\<lambda>a. handle a = h) as) ua"

text \<open>Every public function here rejects a NULL handle and hands the rest to the re_main thread.\<close>

definition acct_sync ::
  "dispatch_env \<Rightarrow> nat list \<Rightarrow> (acct_id \<Rightarrow> accts \<Rightarrow> rc \<times> accts \<times> acct_eff list) \<Rightarrow> acct_id option \<Rightarrow> acct_loop
   \<Rightarrow> rc \<times> acct_loop \<times> acct_eff list" where
  "acct_sync D turns f acct lp =
     (case acct of None \<Rightarrow> (RC_vox ERR_INVAL, lp, []) | Some h \<Rightarrow> sync_rc (vox_dispatch_sync D turns (f h) lp))"

text \<open>\<open>r\<close> is the answer of the stack.\<close>

definition send_msg_fn :: "errno option \<Rightarrow> string \<Rightarrow> string \<Rightarrow> acct_id \<Rightarrow> accts \<Rightarrow> rc \<times> accts \<times> acct_eff list" where
  "send_msg_fn r to_uri body h as =
     (case acct_ua h as of None \<Rightarrow> (RC_errno ENOENT, as, []) | Some u \<Rightarrow> (rc_of r, as, [A_Message u to_uri body]))"

definition voxsdk_message_send ::
  "dispatch_env \<Rightarrow> nat list \<Rightarrow> errno option \<Rightarrow> acct_id option \<Rightarrow> cptr \<Rightarrow> cptr \<Rightarrow> cptr \<Rightarrow> acct_loop \<Rightarrow> rc \<times> acct_loop \<times> acct_eff list" where
  "voxsdk_message_send D turns r account to_uri body content_type lp =
     (case (to_uri, body) of
        (Some t, Some b) \<Rightarrow> acct_sync D turns (send_msg_fn r t b) account lp
      | _ \<Rightarrow> (RC_vox ERR_INVAL, lp, []))"

section \<open>Presence\<close>

text \<open>baresip's enumeration has the same values; \<open>to_baresip_status\<close> and its inverse map them
  one to one, with \<open>PRESENCE_UNKNOWN\<close> for the rest.\<close>

definition publish_fn :: "presence_status \<Rightarrow> acct_id \<Rightarrow> accts \<Rightarrow> rc \<times> accts \<times> acct_eff list" where
  "publish_fn st h as =
     (case acct_ua h as of None \<Rightarrow> (RC_errno ENOENT, as, []) | Some u \<Rightarrow> (RC_OK, as, [A_Presence u st]))"

definition voxsdk_account_publish_presence ::
  "dispatch_env \<Rightarrow> nat list \<Rightarrow> acct_id option \<Rightarrow> presence_status \<Rightarrow> acct_loop \<Rightarrow> rc \<times> acct_loop \<times> acct_eff list" where
  "voxsdk_account_publish_presence D turns account st = acct_sync D turns (publish_fn st) account"

definition set_100rel_fn :: "bool \<Rightarrow> errno option \<Rightarrow> int \<Rightarrow> acct_id \<Rightarrow> accts \<Rightarrow> rc \<times> accts \<times> acct_eff list" where
  "set_100rel_fn have_ba r mode h as =
     (case acct_ua h as of
        None \<Rightarrow> (RC_errno ENOENT, as, [])
      | Some u \<Rightarrow> if have_ba then (rc_of r, as, [A_Rel100 u mode]) else (RC_errno ENOENT, as, []))"

definition voxsdk_account_set_100rel ::
  "dispatch_env \<Rightarrow> nat list \<Rightarrow> bool \<Rightarrow> errno option \<Rightarrow> acct_id option \<Rightarrow> int \<Rightarrow> acct_loop \<Rightarrow> rc \<times> acct_loop \<times> acct_eff list" where
  "voxsdk_account_set_100rel D turns have_ba r account mode = acct_sync D turns (set_100rel_fn have_ba r mode) account"

subsection \<open>Message waiting\<close>

record mwi =
  mw_waiting :: bool
  mw_new :: u32
  mw_old :: u32
  mw_new_urgent :: u32
  mw_old_urgent :: u32

definition mwi_zero :: mwi where
  "mwi_zero = \<lparr>mw_waiting = False, mw_new = 0, mw_old = 0, mw_new_urgent = 0, mw_old_urgent = 0\<rparr>"

text \<open>\<open>(uint32_t)strtoul(p, &end, 10)\<close>: the value and the text at \<open>end\<close>.\<close>

definition read_u32 :: "string \<Rightarrow> u32 \<times> string" where
  "read_u32 p = (ucast (strtoul p), drop (snd (snd (scan_int p))) p)"

definition read_slash :: "string \<Rightarrow> u32 \<Rightarrow> u32 \<times> string" where
  "read_slash p v = (case p of c # cs \<Rightarrow> if c = CHR ''/'' then read_u32 cs else (v, p) | [] \<Rightarrow> (v, p))"

definition skip_blanks :: "string \<Rightarrow> string" where
  "skip_blanks p = dropWhile (\<lambda>c. c = CHR '' '') p"

text \<open>The counts after \<open>Voice-Message:\<close>.\<close>

definition parse_voice :: "string \<Rightarrow> mwi \<Rightarrow> mwi" where
  "parse_voice p m =
     (case read_u32 p of (nv, e1) \<Rightarrow>
        (case read_slash e1 (mw_old m) of (ov, e2) \<Rightarrow>
           (let m1 = m\<lparr>mw_new := nv, mw_old := ov\<rparr>
            in if take 2 e2 = '' ('' then
                 (case read_u32 (drop 2 e2) of (nu, e3) \<Rightarrow>
                    m1\<lparr>mw_new_urgent := nu, mw_old_urgent := fst (read_slash e3 (mw_old_urgent m1))\<rparr>)
               else m1)))"

text \<open>One turn of the loop: the fields, and where \<open>p\<close> stands before it moves to the next line.\<close>

definition mwi_line :: "string \<Rightarrow> mwi \<Rightarrow> mwi \<times> string" where
  "mwi_line p m =
     (if starts_with_ci ''Messages-Waiting:'' p then
        (let q = skip_blanks (drop 17 p) in (m\<lparr>mw_waiting := starts_with_ci ''yes'' q\<rparr>, q))
      else if starts_with_ci ''Voice-Message:'' p then
        (let q = skip_blanks (drop 14 p) in (parse_voice q m, q))
      else (m, p))"

lemma mwi_line_shrinks: "mwi_line p m = (m', q) \<Longrightarrow> p \<noteq> [] \<Longrightarrow> length q - Suc i < length p"
proof -
  assume "mwi_line p m = (m', q)" "p \<noteq> []"
  moreover have "length (snd (mwi_line p m)) \<le> length p"
    by (simp add: mwi_line_def skip_blanks_def Let_def le_trans [OF length_dropWhile_le])
  ultimately show ?thesis by (cases p) auto
qed

function mwi_loop :: "string \<Rightarrow> mwi \<Rightarrow> mwi" where
  "mwi_loop p m =
     (if p = [] then m
      else (case mwi_line p m of (m', q) \<Rightarrow>
              (case strchr (CHR 0x0A) q of None \<Rightarrow> m' | Some i \<Rightarrow> mwi_loop (drop (Suc i) q) m')))"
  by auto
termination
  by (relation "measure (length \<circ> fst)") (auto dest: sym intro: mwi_line_shrinks)

declare mwi_loop.simps [simp del]

definition parse_mwi_body :: "string \<Rightarrow> mwi" where
  "parse_mwi_body body = mwi_loop body mwi_zero"

definition mwi_event :: "libre \<Rightarrow> nat \<Rightarrow> acct_id option \<Rightarrow> cptr \<Rightarrow> qevent" where
  "mwi_event L n acct body =
     (case body of
        None \<Rightarrow> \<lparr>q_id = n, q_ev = EV_MWI acct False 0 0 0 0 P_null, q_buf = [], q_deref = None\<rparr>
      | Some t \<Rightarrow>
          (let m = parse_mwi_body t
           in \<lparr>q_id = n,
               q_ev = EV_MWI acct (mw_waiting m) (mw_new m) (mw_old m) (mw_new_urgent m) (mw_old_urgent m) (P_buf n 0),
               q_buf = buf_put 0 (lb_ncpy L QEV_BUF t) [], q_deref = None\<rparr>))"

definition vox_presence_handle_mwi :: "libre \<Rightarrow> nat option \<Rightarrow> acct_id option \<Rightarrow> cptr \<Rightarrow> (evq, ev_eff) act" where
  "vox_presence_handle_mwi L mem acct body =
     (case mem of
        None \<Rightarrow> skip
      | Some n \<Rightarrow> ev_post (\<lambda>q s. snd (vox_event_post_qev q s)) (mwi_event L n acct body))"

subsection \<open>Contacts\<close>

definition presence_event :: "libre \<Rightarrow> nat \<Rightarrow> cptr \<Rightarrow> presence_status \<Rightarrow> qevent" where
  "presence_event L n uri st =
     (case uri of
        None \<Rightarrow> \<lparr>q_id = n, q_ev = EV_PRESENCE_STATE None P_null st, q_buf = [], q_deref = None\<rparr>
      | Some t \<Rightarrow> \<lparr>q_id = n, q_ev = EV_PRESENCE_STATE None (P_buf n 0) st, q_buf = buf_put 0 (lb_ncpy L QEV_BUF t) [], q_deref = None\<rparr>)"

definition contact_update_handler :: "libre \<Rightarrow> nat option \<Rightarrow> cptr \<Rightarrow> presence_status \<Rightarrow> bool \<Rightarrow> (evq, ev_eff) act" where
  "contact_update_handler L mem uri st removed =
     (if removed then skip
      else (case mem of
              None \<Rightarrow> skip
            | Some n \<Rightarrow> ev_post (\<lambda>q s. snd (vox_event_post_qev q s)) (presence_event L n uri st)))"

text \<open>
  What the contact list of the stack answers: whether there is one, whether it has the
  contact, and what adding gives.
\<close>

record contacts_env =
  ce_have :: bool
  ce_found :: bool
  ce_add :: "errno option"

definition subscribe_fn :: "libre \<Rightarrow> contacts_env \<Rightarrow> string \<Rightarrow> acct_id \<Rightarrow> accts \<Rightarrow> rc \<times> accts \<times> acct_eff list" where
  "subscribe_fn L C uri h as =
     (if acct_ua h as = None \<or> \<not> ce_have C then (RC_errno ENOENT, as, [])
      else if ce_found C then (RC_OK, as, [])
      else (let buf = fst (lb_snprintf L 512 (CHR 0x22 # uri @ CHR 0x22 # '' <'' @ uri @ ''>''))
            in (rc_of (ce_add C), as,
                A_ContactAdd buf # (if ce_add C = None then [A_ContactPresence buf True] else []))))"

definition unsubscribe_fn :: "contacts_env \<Rightarrow> string \<Rightarrow> acct_id \<Rightarrow> accts \<Rightarrow> rc \<times> accts \<times> acct_eff list" where
  "unsubscribe_fn C uri h as =
     (if acct_ua h as = None \<or> \<not> ce_have C then (RC_errno ENOENT, as, [])
      else (RC_OK, as, if ce_found C then [A_ContactPresence uri False, A_ContactRemove uri] else []))"

text \<open>\<open>dup\<close>: whether the copy of the URI can be allocated.\<close>

definition voxsdk_account_subscribe_presence ::
  "libre \<Rightarrow> dispatch_env \<Rightarrow> nat list \<Rightarrow> contacts_env \<Rightarrow> bool \<Rightarrow> acct_id option \<Rightarrow> cptr \<Rightarrow> acct_loop \<Rightarrow> rc \<times> acct_loop \<times> acct_eff list" where
  "voxsdk_account_subscribe_presence L D turns C dup account target_uri lp =
     (case (account, target_uri) of
        (Some h, Some t) \<Rightarrow> if \<not> dup then (RC_vox ERR_NOMEM, lp, []) else acct_sync D turns (subscribe_fn L C t) account lp
      | _ \<Rightarrow> (RC_vox ERR_INVAL, lp, []))"

definition voxsdk_account_unsubscribe_presence ::
  "dispatch_env \<Rightarrow> nat list \<Rightarrow> contacts_env \<Rightarrow> bool \<Rightarrow> acct_id option \<Rightarrow> cptr \<Rightarrow> acct_loop \<Rightarrow> rc \<times> acct_loop \<times> acct_eff list" where
  "voxsdk_account_unsubscribe_presence D turns C dup account target_uri lp =
     (case (account, target_uri) of
        (Some h, Some t) \<Rightarrow> if \<not> dup then (RC_vox ERR_NOMEM, lp, []) else acct_sync D turns (unsubscribe_fn C t) account lp
      | _ \<Rightarrow> (RC_vox ERR_INVAL, lp, []))"

section \<open>Custom headers\<close>

text \<open>\<open>r\<close> is the stack's answer, \<open>ok\<close> the outcomes of the three allocations.\<close>

definition add_hdr_fn :: "errno option \<Rightarrow> (nat \<Rightarrow> bool) \<Rightarrow> string \<Rightarrow> string \<Rightarrow> acct_id \<Rightarrow> accts \<Rightarrow> rc \<times> accts \<times> acct_eff list" where
  "add_hdr_fn r ok name value h as =
     (case acct_ua h as of
        None \<Rightarrow> (RC_errno ENOENT, as, [])
      | Some u \<Rightarrow>
          if r \<noteq> None \<or> \<not> (ok 0 \<and> ok 1 \<and> ok 2) then (rc_of r, as, [A_CustomHdr u name value])
          else (RC_OK, map (\<lambda>a. if handle a = h then a\<lparr>custom_hdrs := custom_hdrs a @ [(name, value)]\<rparr> else a) as,
                [A_CustomHdr u name value]))"

definition add_reg_hdr_fn :: "errno option \<Rightarrow> string \<Rightarrow> string \<Rightarrow> acct_id \<Rightarrow> accts \<Rightarrow> rc \<times> accts \<times> acct_eff list" where
  "add_reg_hdr_fn r name value h as =
     (case acct_ua h as of None \<Rightarrow> (RC_errno ENOENT, as, []) | Some u \<Rightarrow> (rc_of r, as, [A_CustomHdr u name value]))"

definition voxsdk_account_add_header ::
  "dispatch_env \<Rightarrow> nat list \<Rightarrow> errno option \<Rightarrow> (nat \<Rightarrow> bool) \<Rightarrow> acct_id option \<Rightarrow> cptr \<Rightarrow> cptr \<Rightarrow> acct_loop \<Rightarrow> rc \<times> acct_loop \<times> acct_eff list" where
  "voxsdk_account_add_header D turns r ok acct name value lp =
     (case (name, value) of
        (Some n, Some v) \<Rightarrow> acct_sync D turns (add_hdr_fn r ok n v) acct lp
      | _ \<Rightarrow> (RC_vox ERR_INVAL, lp, []))"

definition voxsdk_account_add_register_header ::
  "dispatch_env \<Rightarrow> nat list \<Rightarrow> errno option \<Rightarrow> acct_id option \<Rightarrow> cptr \<Rightarrow> cptr \<Rightarrow> acct_loop \<Rightarrow> rc \<times> acct_loop \<times> acct_eff list" where
  "voxsdk_account_add_register_header D turns r acct name value lp =
     (case (name, value) of
        (Some n, Some v) \<Rightarrow> acct_sync D turns (add_reg_hdr_fn r n v) acct lp
      | _ \<Rightarrow> (RC_vox ERR_INVAL, lp, []))"

section \<open>Well-formed events\<close>

text \<open>
  What a queued event has to be for the queue to carry it: its pointers are into its own
  buffer, the buffer is not overrun, and every string ends inside it.
\<close>

fun ends_in :: "string \<Rightarrow> sptr \<Rightarrow> bool" where
  "ends_in b (P_buf i off) = (CHR 0x00 \<in> set (drop off b))"
| "ends_in b _ = True"

definition wf_qev :: "qevent \<Rightarrow> bool" where
  "wf_qev q \<longleftrightarrow> packed q \<and> length (q_buf q) \<le> QEV_BUF \<and> (\<forall>p \<in> set_event (q_ev q). ends_in (q_buf q) p)"

lemma buf_put_end: "off = length b \<Longrightarrow> buf_put off s b = b @ s @ [CHR 0x00]"
  by (simp add: buf_put_def)

lemma ncpy_fits_buf: "libre_laws L \<Longrightarrow> length (lb_ncpy L QEV_BUF t) < QEV_BUF"
  by (simp add: libre_ncpy QEV_BUF_def)

lemma qev_buf_pos [simp]: "0 < QEV_BUF"
  by (simp add: QEV_BUF_def)

lemma one_string:
  "length t < QEV_BUF \<Longrightarrow> length (buf_put 0 t []) \<le> QEV_BUF \<and> own_ptr n (P_buf n 0) \<and> ends_in (buf_put 0 t []) (P_buf n 0)"
  by (simp add: buf_put_end QEV_BUF_def)

lemma wf_log: "libre_laws L \<Longrightarrow> wf_qev (log_event L n msg len)"
  using one_string [of "if 0 < len \<and> len < QEV_BUF then take len msg else lb_ncpy L QEV_BUF msg" n] ncpy_fits_buf [of L msg]
  by (auto simp: wf_qev_def packed_def log_event_def split: if_splits)

lemma wf_mwi: "libre_laws L \<Longrightarrow> wf_qev (mwi_event L n acct body)"
  using ncpy_fits_buf [of L] one_string [of _ n]
  by (auto simp: wf_qev_def packed_def mwi_event_def Let_def split: option.split)

lemma wf_presence: "libre_laws L \<Longrightarrow> wf_qev (presence_event L n uri st)"
  using ncpy_fits_buf [of L] one_string [of _ n]
  by (auto simp: wf_qev_def packed_def presence_event_def split: option.split)

text \<open>One step of the packing: it appends the string, cut to the room, and its NUL.\<close>

lemma pack_next_step:
  assumes "pack_next n s (length b, b) = (p, off', b')" and "length b \<le> QEV_BUF"
  shows "off' = length b' \<and> length b' \<le> QEV_BUF \<and> own_ptr n p \<and> (\<exists>c. b' = b @ c \<and> ends_in b' p) \<and>
    (\<forall>t. s = Some t \<longrightarrow> length b + length t < QEV_BUF \<longrightarrow> p = P_buf n (length b) \<and> b' = b @ t @ [CHR 0x00])"
  using assms by (auto simp: pack_next_def buf_put_end Let_def split: option.splits if_splits)

lemma ends_in_append: "ends_in b p \<Longrightarrow> ends_in (b @ c) p"
  by (cases p) auto

lemma wf_message: "wf_qev (message_event n acct peer ctype body)"
proof -
  obtain p1 o1 b1 where 1: "pack_next n peer (0, []) = (p1, o1, b1)" by (metis prod_cases3)
  obtain p2 o2 b2 where 2: "pack_next n ctype (o1, b1) = (p2, o2, b2)" by (metis prod_cases3)
  obtain p3 o3 b3 where 3: "pack_next n body (o2, b2) = (p3, o3, b3)" by (metis prod_cases3)
  note s1 = pack_next_step [of n peer "[]" p1 o1 b1]
  note s2 = pack_next_step [of n ctype b1 p2 o2 b2]
  note s3 = pack_next_step [of n body b2 p3 o3 b3]
  show ?thesis using 1 2 3 s1 s2 s3
    by (auto simp: message_event_def wf_qev_def packed_def intro: ends_in_append)
qed

lemma wf_trace:
  assumes "libre_laws L"
  shows "wf_qev (trace_event L n jiffies tx tp peer pkt)"
proof -
  define r where "r = (case peer of None \<Rightarrow> [] | Some a \<Rightarrow> fst (lb_snprintf L 64 (pa_text a)))"
  define tn where "tn = transp_name tp"
  have r: "length r < 64" using assms by (auto simp: r_def libre_laws_def split: option.split)
  have tn: "length tn \<le> 3" by (cases tp) (simp_all add: tn_def transp_name_def)
  have c: "lb_ncpy L QEV_BUF tn = tn" "lb_ncpy L (QEV_BUF - Suc (length tn)) r = r"
    using assms r tn by (simp_all add: libre_ncpy_fits QEV_BUF_def)
  let ?k = "QEV_BUF - (Suc (length tn) + length r + 1) - 1"
  have "q_buf (trace_event L n jiffies tx tp peer pkt) = tn @ [CHR 0x00] @ r @ [CHR 0x00] @ take ?k pkt @ [CHR 0x00]"
    by (simp add: trace_event_def Let_def c buf_put_end flip: r_def tn_def)
  then show ?thesis using r tn
    by (simp add: wf_qev_def packed_def trace_event_def Let_def QEV_BUF_def flip: r_def tn_def)
qed

section \<open>The message-waiting summary\<close>

text \<open>A line without the two keywords is skipped.\<close>

lemma mwi_loop_skip:
  assumes "CHR 0x0A \<notin> set l" and "mwi_line (l @ CHR 0x0A # rest) m = (m', drop k l @ CHR 0x0A # rest)" and "k \<le> length l"
  shows "mwi_loop (l @ CHR 0x0A # rest) m = mwi_loop rest m'"
proof -
  have "CHR 0x0A \<notin> set (drop k l)" using assms(1) by (meson in_set_dropD)
  then show ?thesis using assms(2) by (subst mwi_loop.simps) simp
qed

lemma digit_head: "\<exists>c cs. show_nat n = c # cs \<and> is_digit c"
  using show_nat_digits [of n] by (cases "show_nat n") auto

lemma read_u32_show:
  assumes "r = [] \<or> \<not> is_digit (hd r)"
  shows "read_u32 (show_nat (unat (w :: u32)) @ r) = (w, r)"
proof -
  have lt: "unat w < 2 ^ 32" using unsigned_less [of w, where ?'a = nat] by simp
  then have "strtoul (show_nat (unat w) @ r) = of_nat (unat w)"
    using strtoul_show_nat [OF assms, of "unat w"] by simp
  moreover have "ucast (of_nat (unat w) :: u64) = w"
    using lt by (intro word_unat_eq_iff [THEN iffD2])
      (simp add: unsigned_ucast_eq unsigned_of_nat take_bit_nat_eq_self take_bit_word_eq_self)
  ultimately show ?thesis using scan_int_show_nat [OF assms, of "unat w"] by (simp add: read_u32_def)
qed

text \<open>The summary as RFC 3842 writes it.\<close>

definition crlf :: string where "crlf = [CHR 0x0D, CHR 0x0A]"

definition voice_text :: "mwi \<Rightarrow> string" where
  "voice_text m = show_nat (unat (mw_new m)) @ ''/'' @ show_nat (unat (mw_old m)) @ '' ('' @
     show_nat (unat (mw_new_urgent m)) @ ''/'' @ show_nat (unat (mw_old_urgent m)) @ '')''"

definition mwi_text :: "string \<Rightarrow> mwi \<Rightarrow> string" where
  "mwi_text account m =
     ''Messages-Waiting: '' @ (if mw_waiting m then ''yes'' else ''no'') @ crlf @
     ''Message-Account: '' @ account @ crlf @
     ''Voice-Message: '' @ voice_text m @ crlf"

lemma parse_voice_text:
  "parse_voice (voice_text m @ crlf) m0 = m\<lparr>mw_waiting := mw_waiting m0\<rparr>"
proof -
  have nd: "\<not> is_digit (CHR ''/'')" "\<not> is_digit (CHR '' '')" "\<not> is_digit (CHR '')'')" by (simp_all add: is_digit_def)
  show ?thesis
    by (simp add: parse_voice_def voice_text_def read_slash_def read_u32_show nd)
qed

lemma voice_head: "skip_blanks (voice_text m @ r) = voice_text m @ r"
proof -
  obtain c cs where c: "show_nat (unat (mw_new m)) = c # cs" "is_digit c" using digit_head by blast
  have "c \<noteq> CHR '' ''" using c(2) by (auto simp: is_digit_def)
  then show ?thesis by (simp add: skip_blanks_def voice_text_def c(1))
qed

lemma voice_no_newline: "CHR 0x0A \<notin> set (voice_text m)"
proof -
  have "CHR 0x0A \<notin> set (show_nat k)" for k using show_nat_digits [of k] by (auto simp: is_digit_def)
  then show ?thesis by (simp add: voice_text_def)
qed

section \<open>Properties\<close>

text \<open>
  C23: Every event a producer packs is well formed. Whatever the stack reports, however long,
  the events of the log bridge, the trace hook, instant messages, message waiting and presence
  point only into their own buffers, never write past the 4096 bytes, and end every string
  inside them: the form the queue relies on when it copies an event.
\<close>

theorem produced_events_well_formed:
  assumes "libre_laws L"
  shows "wf_qev (log_event L n msg len) \<and> wf_qev (trace_event L n jiffies tx tp peer pkt) \<and>
    wf_qev (message_event n acct from ctype body) \<and> wf_qev (mwi_event L n acct body) \<and> wf_qev (presence_event L n uri st)"
  using assms by (simp add: wf_log wf_trace wf_message wf_mwi wf_presence)

theorem produced_events_well_formed_witness:
  "wf_qev (log_event libre_ref 1 (replicate 5000 (CHR ''x'')) 0) \<and>
   wf_qev (trace_event libre_ref 1 0 True SIP_UDP None (replicate 5000 (CHR ''x''))) \<and>
   wf_qev (message_event 1 None (Some ''a'') None (Some (replicate 5000 (CHR ''x'')))) \<and>
   wf_qev (mwi_event libre_ref 1 None (Some (replicate 5000 (CHR ''x'')))) \<and> wf_qev (presence_event libre_ref 1 None PRESENCE_OPEN)"
  using produced_events_well_formed [OF libre_ref_laws] by blast

text \<open>
  The message-waiting summary is read as it was written. Whatever the counts and whatever
  the account line between them says, the parser of the notification body gives back the flag
  and all four counts.
\<close>

theorem mwi_reads_back:
  assumes "CHR 0x0A \<notin> set account"
  shows "parse_mwi_body (mwi_text account m) = m"
proof -
  let ?w = "if mw_waiting m then ''yes'' else ''no''"
  let ?l1 = "''Messages-Waiting: '' @ ?w @ [CHR 0x0D]"
  let ?l2 = "''Message-Account: '' @ account @ [CHR 0x0D]"
  let ?l3 = "''Voice-Message: '' @ voice_text m @ [CHR 0x0D]"
  let ?m1 = "mwi_zero\<lparr>mw_waiting := mw_waiting m\<rparr>"
  have t: "mwi_text account m = ?l1 @ CHR 0x0A # ?l2 @ CHR 0x0A # ?l3 @ CHR 0x0A # []"
    by (simp add: mwi_text_def crlf_def)
  have 1: "mwi_line (?l1 @ CHR 0x0A # r) mwi_zero = (?m1, drop 18 ?l1 @ CHR 0x0A # r)" for r
    by (simp add: mwi_line_def starts_with_ci_def lower_def tolower_def skip_blanks_def)
  have 2: "mwi_line (?l2 @ CHR 0x0A # r) ?m1 = (?m1, drop 0 ?l2 @ CHR 0x0A # r)" for r
    by (simp add: mwi_line_def starts_with_ci_def lower_def tolower_def)
  have 3: "mwi_line (?l3 @ CHR 0x0A # []) ?m1 = (m, drop 15 ?l3 @ CHR 0x0A # [])"
    using voice_head [of m crlf] parse_voice_text [of m ?m1]
    by (simp add: mwi_line_def starts_with_ci_def lower_def tolower_def skip_blanks_def crlf_def)
  have "mwi_loop (mwi_text account m) mwi_zero = mwi_loop (?l2 @ CHR 0x0A # ?l3 @ CHR 0x0A # []) ?m1"
    unfolding t by (rule mwi_loop_skip [OF _ 1]) simp_all
  also have "\<dots> = mwi_loop (?l3 @ CHR 0x0A # []) ?m1"
    by (rule mwi_loop_skip [OF _ 2]) (use assms in simp_all)
  also have "\<dots> = mwi_loop [] m"
    by (rule mwi_loop_skip [OF _ 3]) (use voice_no_newline in simp_all)
  finally show ?thesis by (simp add: parse_mwi_body_def mwi_loop.simps)
qed

theorem mwi_reads_back_witness:
  "parse_mwi_body (''Messages-Waiting: yes'' @ crlf @ ''Message-Account: sip:a'' @ crlf @ ''Voice-Message: 2/4 (0/1)'' @ crlf)
     = \<lparr>mw_waiting = True, mw_new = 2, mw_old = 4, mw_new_urgent = 0, mw_old_urgent = 1\<rparr>"
proof -
  let ?m = "\<lparr>mw_waiting = True, mw_new = 2, mw_old = 4, mw_new_urgent = 0, mw_old_urgent = 1\<rparr>"
  have s: "show_nat 2 = ''2''" "show_nat 4 = ''4''" "show_nat 0 = ''0''" "show_nat (Suc 0) = ''1''" by code_simp+
  have "mwi_text ''sip:a'' ?m =
      ''Messages-Waiting: yes'' @ crlf @ ''Message-Account: sip:a'' @ crlf @ ''Voice-Message: 2/4 (0/1)'' @ crlf"
    by (simp add: mwi_text_def voice_text_def s)
  then show ?thesis using mwi_reads_back [of "''sip:a''" ?m] by simp
qed

end
