(* ===== verification/Vox_Stats.thy ===== *)
theory Vox_Stats
  imports Vox_Adapt
begin

text \<open>
  \<^verbatim>\<open>src/stats.c\<close>: the quality scores, the sample of a call's statistics with its loss window,
  the alerts, and the polling timer. Floats are rationals rounded after every operation
  (\<open>Vox_Float\<close>), in the order in which the C expressions associate.
\<close>

section \<open>Arithmetic\<close>

definition fadd :: "rat \<Rightarrow> rat \<Rightarrow> rat" where "fadd a b = f32_round (a + b)"
definition fsub :: "rat \<Rightarrow> rat \<Rightarrow> rat" where "fsub a b = f32_round (a - b)"
definition fdiv :: "rat \<Rightarrow> rat \<Rightarrow> rat" where "fdiv a b = f32_round (a / b)"

text \<open>Double precision, for the two averages: 53 significant bits.\<close>

definition f64_nonneg :: "rat \<Rightarrow> rat" where
  "f64_nonneg x = (if x = 0 then 0 else let e = ilog2 x - 52 in of_int (round_even (x / pow2 e)) * pow2 e)"

section \<open>Scores\<close>

datatype mos_method = MOS_EMODEL | MOS_SIMPLIFIED

datatype bw_class = BW_NARROW | BW_WIDE

record codec_params =
  cp_ie :: rat
  cp_bpl :: rat
  cp_bw :: bw_class

definition codec_emodel_params :: "libre \<Rightarrow> cptr \<Rightarrow> u32 \<Rightarrow> u32 \<Rightarrow> codec_params" where
  "codec_emodel_params L name srate bitrate_kbps =
     (let P = (\<lambda>ie bpl bw. \<lparr>cp_ie = ie, cp_bpl = bpl, cp_bw = bw\<rparr>);
          by_rate = (if 16000 \<le> srate then BW_WIDE else BW_NARROW)
      in case name of
           None \<Rightarrow> P 0 (f32_round (43 / 10)) BW_NARROW
         | Some n \<Rightarrow>
             if lb_casecmp L n ''PCMU'' = 0 \<or> lb_casecmp L n ''PCMA'' = 0 then P 0 (f32_round (43 / 10)) BW_NARROW
             else if lb_casecmp L n ''G729'' = 0 then P 11 19 BW_NARROW
             else if lb_casecmp L n ''G723'' = 0 then P 15 16 BW_NARROW
             else if lb_casecmp L n ''G722'' = 0 then P 0 (f32_round (43 / 10)) BW_WIDE
             else if lb_casecmp L n ''opus'' = 0 then
               (if bitrate_kbps \<le> 8 then P 14 12 by_rate
                else if bitrate_kbps \<le> 12 then P 11 14 by_rate
                else P 7 14 by_rate)
             else P 0 (f32_round (43 / 10)) by_rate)"

record mos_pair =
  mp_lq :: rat
  mp_cq :: rat
  mp_q :: rat

definition r_to_mos :: "rat \<Rightarrow> bw_class \<Rightarrow> rat" where
  "r_to_mos R bw =
     (let rmax = (if bw = BW_WIDE then 129 else 100);
          r = fdiv (f32_mult R 100) rmax
      in if r \<le> 0 then 1
         else if 100 \<le> r then 9 / 2
         else fadd (fadd 1 (f32_mult (f32_round (35 / 1000)) r))
                (f32_mult (f32_mult (f32_mult (f32_round (7 / 1000000)) r) (fsub r 60)) (fsub 100 r)))"

definition mos_emodel :: "rat \<Rightarrow> rat \<Rightarrow> rat \<Rightarrow> codec_params \<Rightarrow> mos_pair" where
  "mos_emodel loss jb_ms rtt cp =
     (let Ro = (if cp_bw cp = BW_WIDE then 129 else f32_round (932 / 10));
          Ie_eff = fadd (cp_ie cp) (fdiv (f32_mult (fsub 95 (cp_ie cp)) loss) (fadd loss (cp_bpl cp)));
          R_lq = fsub Ro Ie_eff;
          Ta = fadd (f32_mult rtt (1 / 2)) jb_ms;
          knee = f32_round (1773 / 10);
          Id0 = fadd (f32_mult (f32_round (24 / 1000)) Ta)
                  (f32_mult (f32_mult (f32_round (11 / 100)) (fsub Ta knee)) (if knee < Ta then 1 else 0));
          Id = (if Id0 < 0 then 0 else Id0)
      in \<lparr>mp_lq = r_to_mos R_lq (cp_bw cp), mp_cq = r_to_mos (fsub R_lq Id) (cp_bw cp), mp_q = R_lq\<rparr>)"

definition clamp_mos :: "rat \<Rightarrow> rat" where
  "clamp_mos v = (let w = (if v < 1 then 1 else v) in if 9 / 2 < w then 9 / 2 else w)"

definition mos_simplified :: "rat \<Rightarrow> rat \<Rightarrow> rat \<Rightarrow> mos_pair" where
  "mos_simplified loss jitter_ms rtt =
     (let lq = fsub (fsub (9 / 2) (f32_mult (f32_round (9 / 100)) loss)) (f32_mult (f32_round (9 / 10000)) jitter_ms);
          cq = fsub lq (f32_mult (f32_round (5 / 10000)) rtt)
      in \<lparr>mp_lq = clamp_mos lq, mp_cq = clamp_mos cq, mp_q = clamp_mos lq\<rparr>)"

definition calc_mos :: "rat \<Rightarrow> rat \<Rightarrow> rat \<Rightarrow> rat \<Rightarrow> mos_method \<Rightarrow> codec_params \<Rightarrow> mos_pair" where
  "calc_mos loss jitter_ms jb_ms rtt method cp =
     (if method = MOS_SIMPLIFIED then mos_simplified loss jitter_ms rtt else mos_emodel loss jb_ms rtt cp)"

section \<open>Counter differencing\<close>

definition counter_delta :: "u32 \<Rightarrow> u32 \<Rightarrow> u32" where
  "counter_delta now prev = (if prev \<le> now then now - prev else 0)"

text \<open>The counts of lost packets are signed.\<close>

definition counter_delta_i :: "u32 \<Rightarrow> u32 \<Rightarrow> u32" where
  "counter_delta_i now prev = (if sint prev < sint now then now - prev else 0)"

definition pct :: "u32 \<Rightarrow> u32 \<Rightarrow> rat" where
  "pct part whole = (if 0 < whole then fdiv (f32_mult (f32_of_u32 part) 100) (f32_of_u32 whole) else 0)"

section \<open>The sample\<close>

text \<open>What the stack shows of an audio stream; a double is its value.\<close>

record jbuf_stat =
  jb_delay :: u32
  jb_packets :: u32
  jb_late :: u32
  jb_overflow :: u32
  jb_flush :: u32
  jb_jitter :: u32
  jb_lost :: u32
  jb_get :: u32

record rtcp_stats =
  rs_rtt :: u32
  rs_rx_jit :: u32
  rs_tx_jit :: u32
  rs_tx_lost :: u32
  rs_rx_lost :: u32
  rs_tx_sent :: u32
  rs_rx_sent :: u32

record stream_env =
  se_tx_packets :: u32
  se_rx_packets :: u32
  se_tx_bytes :: u32
  se_rx_bytes :: u32
  se_tx_err :: u32
  se_rx_err :: u32
  se_tx_bitrate :: u32
  se_rx_bitrate :: u32
  se_tx_avg :: rat
  se_rx_avg :: rat
  se_codec :: "(string \<times> u32 \<times> u32 \<times> u8) option"
  se_jbuf :: "jbuf_stat option"
  se_jb_adaptive :: bool
  se_rtcp :: "rtcp_stats option"
  se_ssrc_tx :: "u32 option"
  se_ssrc_rx :: u32
  se_pt :: int
  se_raddr :: cptr

text \<open>The statistics fields of \<open>struct voxsdk_call\<close>; the levels are the bit patterns the audio
  thread stores, that of NaN until it has measured a frame.\<close>

record stats_hist =
  stats_mos_min :: rat
  stats_q_sum :: rat
  stats_mos_n :: u32
  stats_tick :: u32
  prev_tx_sent :: u32
  prev_tx_lost :: u32
  prev_rx_recv :: u32
  prev_rx_lost :: u32
  prev_jb_get :: u32
  prev_jb_discard :: u32
  last_mos_lq :: rat
  last_loss_pct :: rat
  last_jitter_ms :: rat
  rx_level_bits :: u32
  tx_level_bits :: u32

definition stats_hist_zero :: stats_hist where
  "stats_hist_zero = \<lparr>stats_mos_min = 0, stats_q_sum = 0, stats_mos_n = 0, stats_tick = 0, prev_tx_sent = 0,
     prev_tx_lost = 0, prev_rx_recv = 0, prev_rx_lost = 0, prev_jb_get = 0, prev_jb_discard = 0, last_mos_lq = 0,
     last_loss_pct = 0, last_jitter_ms = 0, rx_level_bits = 0x7FC00000, tx_level_bits = 0x7FC00000\<rparr>"

text \<open>\<open>voxsdk_ev_media_stats_t\<close>, beyond the four numbers the adaptation reads.\<close>

record full_stats = media_stats +
  fs_call :: "call_id option"
  fs_packets_lost :: u32
  fs_packets_lost_rx :: u32
  fs_bytes_sent :: u32
  fs_bytes_received :: u32
  fs_tx_errors :: u32
  fs_rx_errors :: u32
  fs_loss_pct_rx :: rat
  fs_jitter_ms :: rat
  fs_tx_jitter_ms :: rat
  fs_jb_ms :: u32
  fs_jb_load :: u32
  fs_late :: u32
  fs_discarded :: u32
  fs_jb_target_ms :: u32
  fs_jb_adaptive :: bool
  fs_plc_frames :: u32
  fs_plc_ratio :: rat
  fs_kbps_tx :: u32
  fs_kbps_rx :: u32
  fs_avg_kbps_tx :: u32
  fs_avg_kbps_rx :: u32
  fs_mos_lq :: rat
  fs_mos_cq :: rat
  fs_mos_lq_rx :: rat
  fs_mos_cq_rx :: rat
  fs_mos_method :: mos_method
  fs_codec_name :: cptr
  fs_clock_rate :: u32
  fs_sample_rate :: u32
  fs_channels :: u8
  fs_payload_type :: int
  fs_audio_level :: u32
  fs_mic_level :: u32
  fs_ssrc_tx :: u32
  fs_ssrc_rx :: u32
  fs_remote_addr :: string
  fs_mos_lq_min :: rat
  fs_mos_lq_avg :: rat
  fs_stats_tick :: u32
  fs_duration_ms :: u64
  fs_is_final :: bool

definition full_stats_zero :: full_stats where
  "full_stats_zero = \<lparr>packets_received = 0, packets_sent = 0, rtt_ms = 0, loss_pct = 0, fs_call = None, fs_packets_lost = 0,
     fs_packets_lost_rx = 0, fs_bytes_sent = 0, fs_bytes_received = 0, fs_tx_errors = 0, fs_rx_errors = 0,
     fs_loss_pct_rx = 0, fs_jitter_ms = 0, fs_tx_jitter_ms = 0, fs_jb_ms = 0, fs_jb_load = 0, fs_late = 0,
     fs_discarded = 0, fs_jb_target_ms = 0, fs_jb_adaptive = False, fs_plc_frames = 0, fs_plc_ratio = 0,
     fs_kbps_tx = 0, fs_kbps_rx = 0, fs_avg_kbps_tx = 0, fs_avg_kbps_rx = 0, fs_mos_lq = 0, fs_mos_cq = 0,
     fs_mos_lq_rx = 0, fs_mos_cq_rx = 0, fs_mos_method = MOS_EMODEL, fs_codec_name = None, fs_clock_rate = 0,
     fs_sample_rate = 0, fs_channels = 0, fs_payload_type = 0, fs_audio_level = 0, fs_mic_level = 0,
     fs_ssrc_tx = 0, fs_ssrc_rx = 0, fs_remote_addr = [], fs_mos_lq_min = 0, fs_mos_lq_avg = 0,
     fs_stats_tick = 0, fs_duration_ms = 0, fs_is_final = False\<rparr>"

text \<open>The fields of the configuration that are read here.\<close>

record stats_cfg =
  stats_interval_ms :: u32
  mos_method_cfg :: mos_method
  mos_alert_threshold :: rat
  loss_alert_threshold :: rat
  jitter_alert_threshold :: rat

subsection \<open>Filling a sample\<close>

text \<open>The counters, the bandwidth, the codec and the jitter buffer.\<close>

definition fill_counters :: "(rat \<Rightarrow> u32) \<Rightarrow> stream_env \<Rightarrow> full_stats \<Rightarrow> full_stats" where
  "fill_counters ub E s = s\<lparr>packets_sent := se_tx_packets E, packets_received := se_rx_packets E,
     fs_bytes_sent := se_tx_bytes E, fs_bytes_received := se_rx_bytes E, fs_tx_errors := se_tx_err E, fs_rx_errors := se_rx_err E,
     fs_kbps_tx := se_tx_bitrate E div 1000, fs_kbps_rx := se_rx_bitrate E div 1000,
     fs_avg_kbps_tx := f32_to_u32 ub (f64_nonneg (se_tx_avg E / 1000)),
     fs_avg_kbps_rx := f32_to_u32 ub (f64_nonneg (se_rx_avg E / 1000))\<rparr>"

definition fill_codec :: "stream_env \<Rightarrow> full_stats \<Rightarrow> full_stats" where
  "fill_codec E s =
     (case se_codec E of
        None \<Rightarrow> s
      | Some (_, crate, srate, ch) \<Rightarrow> s\<lparr>fs_clock_rate := crate, fs_sample_rate := srate, fs_channels := ch\<rparr>)"

text \<open>With the buffer's totals of discarded and played frames.\<close>

definition fill_jbuf :: "stream_env \<Rightarrow> full_stats \<Rightarrow> full_stats \<times> u32 \<times> u32" where
  "fill_jbuf E s =
     (case se_jbuf E of
        None \<Rightarrow> (s, 0, 0)
      | Some jb \<Rightarrow>
          (s\<lparr>fs_jb_ms := jb_delay jb, fs_jb_load := jb_packets jb, fs_late := jb_late jb,
             fs_discarded := jb_overflow jb + jb_flush jb, fs_jb_target_ms := jb_jitter jb,
             fs_jb_adaptive := se_jb_adaptive E, fs_plc_frames := jb_lost jb,
             fs_plc_ratio := (if 0 < jb_get jb then fdiv (f32_of_u32 (jb_lost jb)) (f32_of_u32 (jb_get jb)) else 0)\<rparr>,
           jb_late jb + jb_overflow jb + jb_flush jb, jb_get jb))"

definition pos_part :: "u32 \<Rightarrow> u32" where
  "pos_part w = (if 0 < sint w then w else 0)"

text \<open>Times of the RTCP report, in milliseconds.\<close>

definition us_to_ms :: "u32 \<Rightarrow> rat" where
  "us_to_ms w = fdiv (f32_of_u32 w) 1000"

text \<open>The loss of the window, as sent by us and as received, and the discard rate of the buffer.\<close>

definition tx_loss :: "rtcp_stats \<Rightarrow> stats_hist \<Rightarrow> rat" where
  "tx_loss rs h =
     (let sent = counter_delta (rs_tx_sent rs) (prev_tx_sent h);
          lost = counter_delta_i (rs_tx_lost rs) (prev_tx_lost h)
      in pct (if sent < lost then sent else lost) sent)"

definition rx_loss :: "rtcp_stats \<Rightarrow> stats_hist \<Rightarrow> rat" where
  "rx_loss rs h =
     (let recv = counter_delta (rs_rx_sent rs) (prev_rx_recv h);
          lost = counter_delta_i (rs_rx_lost rs) (prev_rx_lost h)
      in pct lost (recv + lost))"

definition discard_rate :: "u32 \<Rightarrow> u32 \<Rightarrow> stats_hist \<Rightarrow> rat" where
  "discard_rate jb_discard_total jb_get_total h =
     (let disc = counter_delta jb_discard_total (prev_jb_discard h);
          got = counter_delta jb_get_total (prev_jb_get h)
      in pct disc (got + disc))"

definition effective_loss :: "rat \<Rightarrow> rat \<Rightarrow> rat" where
  "effective_loss loss discard = (let e = fadd loss discard in if 100 < e then 100 else e)"

text \<open>Rolling the window forward and folding the score in.\<close>

definition advance_window :: "rtcp_stats \<Rightarrow> u32 \<Rightarrow> u32 \<Rightarrow> mos_pair \<Rightarrow> stats_hist \<Rightarrow> stats_hist" where
  "advance_window rs jb_discard_total jb_get_total tx h =
     h\<lparr>prev_tx_sent := rs_tx_sent rs, prev_tx_lost := rs_tx_lost rs, prev_rx_recv := rs_rx_sent rs,
       prev_rx_lost := rs_rx_lost rs, prev_jb_discard := jb_discard_total, prev_jb_get := jb_get_total,
       stats_q_sum := fadd (stats_q_sum h) (mp_q tx), stats_mos_n := stats_mos_n h + 1,
       stats_mos_min := (if stats_mos_min h = 0 \<or> mp_lq tx < stats_mos_min h then mp_lq tx else stats_mos_min h)\<rparr>"

definition fill_rtcp ::
  "libre \<Rightarrow> stats_cfg \<Rightarrow> stream_env \<Rightarrow> bool \<Rightarrow> u32 \<times> u32 \<Rightarrow> full_stats \<Rightarrow> stats_hist \<Rightarrow> full_stats \<times> stats_hist" where
  "fill_rtcp L C E advance totals s h =
     (case se_rtcp E of
        None \<Rightarrow> (s, h)
      | Some rs \<Rightarrow>
          (let txl = tx_loss rs h; rxl = rx_loss rs h;
               eff = effective_loss rxl (discard_rate (fst totals) (snd totals) h);
               rtt = us_to_ms (rs_rtt rs); jit = us_to_ms (rs_rx_jit rs); txj = us_to_ms (rs_tx_jit rs);
               cp = codec_emodel_params L (map_option fst (se_codec E)) (fs_sample_rate s) (fs_avg_kbps_tx s);
               tx = calc_mos txl txj (f32_mult 2 txj) rtt (mos_method_cfg C) cp;
               rx = calc_mos eff jit (f32_of_u32 (fs_jb_ms s)) rtt (mos_method_cfg C) cp
           in (s\<lparr>rtt_ms := rtt, fs_jitter_ms := jit, fs_tx_jitter_ms := txj, fs_packets_lost := pos_part (rs_tx_lost rs),
                 fs_packets_lost_rx := pos_part (rs_rx_lost rs), loss_pct := txl, fs_loss_pct_rx := rxl,
                 fs_mos_lq := mp_lq tx, fs_mos_cq := mp_cq tx, fs_mos_lq_rx := mp_lq rx, fs_mos_cq_rx := mp_cq rx\<rparr>,
               if advance then advance_window rs (fst totals) (snd totals) tx h else h)))"

definition fill_identity :: "libre \<Rightarrow> stream_env \<Rightarrow> stats_hist \<Rightarrow> full_stats \<Rightarrow> full_stats" where
  "fill_identity L E h s =
     (let s1 = s\<lparr>fs_audio_level := rx_level_bits h, fs_mic_level := tx_level_bits h, fs_ssrc_rx := se_ssrc_rx E, fs_payload_type := se_pt E\<rparr>;
          s2 = (case se_ssrc_tx E of None \<Rightarrow> s1 | Some w \<Rightarrow> s1\<lparr>fs_ssrc_tx := w\<rparr>)
      in case se_raddr E of None \<Rightarrow> s2 | Some a \<Rightarrow> s2\<lparr>fs_remote_addr := fst (lb_snprintf L 64 a)\<rparr>)"

definition fill_audio_stats ::
  "libre \<Rightarrow> (rat \<Rightarrow> u32) \<Rightarrow> stats_cfg \<Rightarrow> stream_env \<Rightarrow> bool \<Rightarrow> call_id \<Rightarrow> full_stats \<Rightarrow> stats_hist \<Rightarrow> full_stats \<times> stats_hist" where
  "fill_audio_stats L ub C E advance lc s h =
     (case fill_jbuf E (fill_codec E (fill_counters ub E (s\<lparr>fs_call := Some lc\<rparr>))) of
        (s1, totals) \<Rightarrow>
          (case fill_rtcp L C E advance totals (s1\<lparr>fs_mos_method := mos_method_cfg C\<rparr>) h of
             (s2, h') \<Rightarrow> (fill_identity L E h' s2, h')))"

definition session_mos_avg :: "libre \<Rightarrow> stats_cfg \<Rightarrow> stats_hist \<Rightarrow> full_stats \<Rightarrow> rat" where
  "session_mos_avg L C h s =
     (if stats_mos_n h = 0 then 0
      else let mean = fdiv (stats_q_sum h) (f32_of_u32 (stats_mos_n h))
           in if mos_method_cfg C = MOS_SIMPLIFIED then mean
              else r_to_mos mean (cp_bw (codec_emodel_params L (fs_codec_name s) (fs_sample_rate s) (fs_avg_kbps_tx s))))"

text \<open>The session history on a sample; \<open>now\<close> is \<open>tmr_jiffies\<close>.\<close>

definition fill_history :: "libre \<Rightarrow> stats_cfg \<Rightarrow> u64 \<Rightarrow> vcall \<Rightarrow> bool \<Rightarrow> stats_hist \<Rightarrow> full_stats \<Rightarrow> full_stats" where
  "fill_history L C now lc final h s =
     s\<lparr>fs_mos_lq_min := stats_mos_min h, fs_mos_lq_avg := session_mos_avg L C h s, fs_stats_tick := stats_tick h,
       fs_duration_ms := (if stats_call_start lc \<noteq> 0 then now - stats_call_start lc else 0), fs_is_final := final\<rparr>"

section \<open>Alerts\<close>

definition crossed :: "quality_issue \<Rightarrow> call_id \<Rightarrow> rat \<Rightarrow> rat \<Rightarrow> bool \<Rightarrow> bool \<Rightarrow> adapt_eff list" where
  "crossed issue lc v thr was_bad is_bad =
     (if is_bad \<noteq> was_bad then [A_Post (EV_QUALITY_ALERT (Some lc) issue v thr was_bad)] else [])"

definition quality_alerts :: "stats_cfg \<Rightarrow> call_id \<Rightarrow> full_stats \<Rightarrow> stats_hist \<Rightarrow> adapt_eff list" where
  "quality_alerts C lc s h =
     (if 0 < mos_alert_threshold C \<and> 0 < fs_mos_lq s then
        crossed QUALITY_MOS lc (fs_mos_lq s) (mos_alert_threshold C)
          (0 < last_mos_lq h \<and> last_mos_lq h < mos_alert_threshold C) (fs_mos_lq s < mos_alert_threshold C)
      else [])
     @ (if 0 < loss_alert_threshold C then
          crossed QUALITY_LOSS lc (loss_pct s) (loss_alert_threshold C)
            (loss_alert_threshold C < last_loss_pct h) (loss_alert_threshold C < loss_pct s)
        else [])
     @ (if 0 < jitter_alert_threshold C then
          crossed QUALITY_JITTER lc (fs_jitter_ms s) (jitter_alert_threshold C)
            (jitter_alert_threshold C < last_jitter_ms h) (jitter_alert_threshold C < fs_jitter_ms s)
        else [])"

section \<open>Samples of a call\<close>

text \<open>A call with its history. What is posted is the sample; alerts and the adaptation come with
  the effects of \<open>Vox_Adapt\<close>.\<close>

type_synonym scall = "vcall \<times> stats_hist"

datatype stat_eff = S_Stats full_stats | S_Adapt adapt_eff

text \<open>
  The polling tick. \<open>E\<close> is the audio stream, \<open>None\<close> while the call has none; \<open>mem\<close> whether the
  event can be allocated; \<open>M\<close> and \<open>acct\<close> are what the adaptation looks at.
\<close>

record tick_env =
  te_stream :: "stream_env option"
  te_mem :: bool
  te_media :: media_env
  te_acct :: "account option"

definition collect_call_stats ::
  "libre \<Rightarrow> (rat \<Rightarrow> u32) \<Rightarrow> stats_cfg \<Rightarrow> adapt_cfg \<Rightarrow> tick_env \<Rightarrow> (scall, stat_eff) act" where
  "collect_call_stats L ub C AC T x =
     (case x of (lc, h) \<Rightarrow>
        (case te_stream T of
           None \<Rightarrow> (x, [])
         | Some E \<Rightarrow>
             if lc_bc lc = None \<or> \<not> te_mem T then (x, [])
             else
               (case fill_audio_stats L ub C E True (lc_handle lc) full_stats_zero h of
                  (s0, h0) \<Rightarrow>
                    (let s1 = s0\<lparr>fs_codec_name := map_option (\<lambda>c. lb_ncpy L 4096 (fst c)) (se_codec E)\<rparr>;
                         h1 = h0\<lparr>stats_tick := stats_tick h0 + 1\<rparr>;
                         s = fill_history L C (me_now (te_media T)) lc False h1 s1;
                         alerts = quality_alerts C (lc_handle lc) s h1;
                         h2 = h1\<lparr>last_mos_lq := fs_mos_lq s, last_loss_pct := loss_pct s, last_jitter_ms := fs_jitter_ms s\<rparr>
                     in case vox_adapt_tick L AC (te_acct T) (te_media T) (media_stats.truncate s) lc of
                          (lc', es) \<Rightarrow> ((lc', h2), map S_Adapt alerts @ map S_Adapt es @ [S_Stats s])))))"

text \<open>A snapshot that does not touch the window: the last one of a call, and the getter's.\<close>

definition stats_snapshot ::
  "libre \<Rightarrow> (rat \<Rightarrow> u32) \<Rightarrow> stats_cfg \<Rightarrow> u64 \<Rightarrow> stream_env \<Rightarrow> bool \<Rightarrow> full_stats \<Rightarrow> scall \<Rightarrow> full_stats \<times> scall" where
  "stats_snapshot L ub C now E final s0 x =
     (case x of (lc, h) \<Rightarrow>
        (case fill_audio_stats L ub C E False (lc_handle lc) s0 h of
           (s, h') \<Rightarrow>
             (fill_history L C now lc final h'
                (s\<lparr>fs_codec_name := map_option (\<lambda>c. if final then lb_ncpy L 4096 (fst c) else fst c) (se_codec E)\<rparr>),
              (lc, h'))))"

definition vox_stats_collect_final ::
  "libre \<Rightarrow> (rat \<Rightarrow> u32) \<Rightarrow> stats_cfg \<Rightarrow> tick_env \<Rightarrow> (scall, stat_eff) act" where
  "vox_stats_collect_final L ub C T x =
     (case te_stream T of
        None \<Rightarrow> (x, [])
      | Some E \<Rightarrow>
          if lc_bc (fst x) = None \<or> \<not> te_mem T then (x, [])
          else (case stats_snapshot L ub C (me_now (te_media T)) E True full_stats_zero x of (s, x') \<Rightarrow> (x', [S_Stats s])))"

definition getstats_fn ::
  "libre \<Rightarrow> (rat \<Rightarrow> u32) \<Rightarrow> stats_cfg \<Rightarrow> u64 \<Rightarrow> stream_env option \<Rightarrow> full_stats \<Rightarrow> scall \<Rightarrow> errno option \<times> full_stats \<times> scall" where
  "getstats_fn L ub C now E out x =
     (case E of
        None \<Rightarrow> (Some ENOENT, out, x)
      | Some E \<Rightarrow>
          if lc_bc (fst x) = None then (Some ENOENT, out, x) else (None, stats_snapshot L ub C now E False out x))"

text \<open>\<open>voxsdk_call_get_stats\<close>: the result and what the caller's struct holds afterwards.\<close>

definition voxsdk_call_get_stats ::
  "libre \<Rightarrow> (rat \<Rightarrow> u32) \<Rightarrow> stats_cfg \<Rightarrow> u64 \<Rightarrow> stream_env option \<Rightarrow> vox_error \<Rightarrow> scall option \<Rightarrow> full_stats option
   \<Rightarrow> (vox_error + errno option) \<times> full_stats option \<times> scall option" where
  "voxsdk_call_get_stats L ub C now E dispatched call out =
     (case (call, out) of
        (Some x, Some _) \<Rightarrow>
          if dispatched \<noteq> VOX_OK then (Inl dispatched, Some full_stats_zero, call)
          else (case getstats_fn L ub C now E full_stats_zero x of (r, s, x') \<Rightarrow> (Inr r, Some s, Some x'))
      | _ \<Rightarrow> (Inl ERR_INVAL, out, call))"

section \<open>The timer\<close>

record stats_st =
  ss_calls :: "scall list"
  ss_tmr :: "u32 option"

definition stats_visit ::
  "libre \<Rightarrow> (rat \<Rightarrow> u32) \<Rightarrow> stats_cfg \<Rightarrow> adapt_cfg \<Rightarrow> (call_id \<Rightarrow> tick_env) \<Rightarrow> (scall, stat_eff) act" where
  "stats_visit L ub C AC T x =
     (if lc_state (fst x) = CALL_ESTABLISHED then collect_call_stats L ub C AC (T (lc_handle (fst x))) x else (x, []))"

definition stats_timer_handler ::
  "libre \<Rightarrow> (rat \<Rightarrow> u32) \<Rightarrow> stats_cfg \<Rightarrow> adapt_cfg \<Rightarrow> (call_id \<Rightarrow> tick_env) \<Rightarrow> (stats_st, stat_eff) act" where
  "stats_timer_handler L ub C AC T st =
     (let rs = map (stats_visit L ub C AC T) (ss_calls st)
      in (st\<lparr>ss_calls := map fst rs, ss_tmr := Some (stats_interval_ms C)\<rparr>, concat (map snd rs)))"

definition vox_stats_init :: "stats_cfg \<Rightarrow> stats_st \<Rightarrow> stats_st" where
  "vox_stats_init C st = (if stats_interval_ms C = 0 then st else st\<lparr>ss_tmr := Some (stats_interval_ms C)\<rparr>)"

definition vox_stats_close :: "stats_st \<Rightarrow> stats_st" where
  "vox_stats_close st = st\<lparr>ss_tmr := None\<rparr>"

section \<open>Rounding errors\<close>

lemma round_even_near: "\<bar>of_int (round_even m) - m\<bar> \<le> 1 / 2"
proof -
  have "of_int \<lfloor>m\<rfloor> \<le> m" "m < of_int \<lfloor>m\<rfloor> + 1" by linarith+
  then show ?thesis unfolding round_even_def Let_def by (simp add: abs_le_iff)
qed

lemma f32_round_neg: "f32_round (- x) = - f32_round x"
  by (auto simp: f32_round_def)

text \<open>Rounding moves a value by at most one part in \<open>2 ^ 24\<close>.\<close>

lemma f32_round_near: "\<bar>f32_round x - x\<bar> \<le> \<bar>x\<bar> / 2 ^ 24"
proof -
  have pos: "\<bar>f32_round y - y\<bar> \<le> y / 2 ^ 24" if y: "0 < y" for y
  proof -
    let ?u = "pow2 (ilog2 y - 23)"
    have u: "0 < ?u" by (rule pow2_pos)
    then have n: "?u \<noteq> 0" by linarith
    have "f32_round y - y = (of_int (round_even (y / ?u)) - y / ?u) * ?u"
      using y n by (simp add: f32_round_pos left_diff_distrib)
    moreover have "\<bar>?u\<bar> = ?u" using u by linarith
    ultimately have "\<bar>f32_round y - y\<bar> = \<bar>of_int (round_even (y / ?u)) - y / ?u\<bar> * ?u"
      by (metis abs_mult)
    also have "\<dots> \<le> 1 / 2 * ?u" using u by (intro mult_right_mono round_even_near) linarith
    also have "\<dots> \<le> y / 2 ^ 24" using f32_ulp_le [OF y] by simp
    finally show ?thesis .
  qed
  consider "x = 0" | "0 < x" | "0 < - x" by linarith
  then show ?thesis using pos [of x] pos [of "- x"] by cases (auto simp: f32_round_neg)
qed

lemma near_step:
  assumes "\<bar>x - y\<bar> \<le> e" and "\<bar>y\<bar> \<le> b" and "b + e \<le> c" and "0 \<le> e"
  shows "\<bar>f32_round x - y\<bar> \<le> e + c / 2 ^ 24"
proof -
  have "\<bar>x\<bar> \<le> c" using assms by linarith
  then have "\<bar>x\<bar> / 2 ^ 24 \<le> c / 2 ^ 24" by (rule divide_right_mono) simp
  then have "\<bar>f32_round x - x\<bar> \<le> c / 2 ^ 24" using f32_round_near [of x] by (rule order_trans [rotated])
  then show ?thesis using assms(1) by linarith
qed

lemma near_mult:
  fixes x y u v :: rat
  assumes "\<bar>x - u\<bar> \<le> e" and "\<bar>y - v\<bar> \<le> f" and "\<bar>u\<bar> \<le> a" and "\<bar>v\<bar> \<le> b"
  shows "\<bar>x * y - u * v\<bar> \<le> e * (b + f) + a * f"
proof -
  have y: "\<bar>y\<bar> \<le> b + f" using assms(2,4) by linarith
  have "x * y - u * v = (x - u) * y + u * (y - v)" by (simp add: algebra_simps)
  then have "\<bar>x * y - u * v\<bar> \<le> \<bar>x - u\<bar> * \<bar>y\<bar> + \<bar>u\<bar> * \<bar>y - v\<bar>"
    by (metis abs_mult abs_triangle_ineq)
  also have "\<dots> \<le> e * (b + f) + a * f"
    using assms y by (intro add_mono mult_mono) linarith+
  finally show ?thesis .
qed

section \<open>The range of the scores\<close>

text \<open>The polynomial of \<open>r_to_mos\<close> with its rounded coefficients, without the other roundings.\<close>

definition mos_poly :: "rat \<Rightarrow> rat" where
  "mos_poly r = 1 + 9395241 / 268435456 * r + 15393163 / 2199023255552 * r * (r - 60) * (100 - r)"

lemma mos_poly_range:
  assumes "0 < r" and "r < 100"
  shows "9705 / 10000 \<le> mos_poly r" and "mos_poly r \<le> 45001 / 10000"
proof -
  have "60 * (r * r) \<le> (160 - r) * (r * r)" using assms by (intro mult_right_mono) simp_all
  moreover have "0 \<le> (r - 25 / 3) * (r - 25 / 3)" by simp
  ultimately have "1000 * r - 60 * (625 / 9) \<le> (160 - r) * (r * r)" by (simp add: algebra_simps)
  moreover have "r * (r - 60) * (100 - r) = (160 - r) * (r * r) - 6000 * r" by (simp add: algebra_simps)
  ultimately have lo: "- 5000 * r - 60 * (625 / 9) \<le> r * (r - 60) * (100 - r)" by linarith
  have "0 \<le> (100 - r) * (r + 40) * (100 - r)" using assms by (intro mult_nonneg_nonneg) simp_all
  then have hi: "r * (r - 60) * (100 - r) \<le> 4000 * (100 - r)" by (simp add: algebra_simps)
  define z where "z = r * (r - 60) * (100 - r)"
  have m: "mos_poly r = 1 + 9395241 / 268435456 * r + 15393163 / 2199023255552 * z"
    by (simp add: mos_poly_def z_def mult.assoc)
  have z: "- 5000 * r - 60 * (625 / 9) \<le> z" "z \<le> 4000 * (100 - r)" using lo hi by (simp_all only: z_def)
  show "9705 / 10000 \<le> mos_poly r" using m z assms by linarith
  have "15393163 / 2199023255552 * z \<le> 28001 / 1000000 * (100 - r)"
  proof -
    have "15393163 / 2199023255552 * z \<le> 15393163 / 2199023255552 * (4000 * (100 - r))" using z(2) by (rule mult_left_mono) simp
    also have "\<dots> \<le> 28001 / 1000000 * (100 - r)" using assms by (simp add: field_simps)
    finally show ?thesis .
  qed
  moreover have "9395241 / 268435456 * r \<le> 35001 / 1000000 * r" using assms by (intro mult_right_mono) simp_all
  ultimately have "mos_poly r \<le> 1 + 35001 / 1000000 * r + 28001 / 1000000 * (100 - r)"
    unfolding m by (intro add_mono order_refl)
  also have "\<dots> \<le> 45001 / 10000" using assms by (simp add: field_simps)
  finally show "mos_poly r \<le> 45001 / 10000" .
qed

lemma mos_coefficients:
  "f32_round (35 / 1000) = 9395241 / 268435456" "f32_round (7 / 1000000) = 15393163 / 2199023255552"
  by code_simp+

lemma r_to_mos_near:
  assumes "0 < r" and "r < 100"
  shows "\<bar>fadd (fadd 1 (f32_mult (f32_round (35 / 1000)) r))
      (f32_mult (f32_mult (f32_mult (f32_round (7 / 1000000)) r) (fsub r 60)) (fsub 100 r)) - mos_poly r\<bar> \<le> 410 / 2 ^ 24"
proof -
  let ?c = "9395241 / 268435456 :: rat" and ?d = "15393163 / 2199023255552 :: rat"
  let ?m1 = "f32_mult ?c r" and ?m2 = "f32_mult ?d r" and ?d1 = "fsub r 60" and ?d2 = "fsub 100 r"
  let ?m3 = "f32_mult ?m2 ?d1"
  have "\<bar>?m1 - ?c * r\<bar> \<le> 0 + 4 / 2 ^ 24"
    unfolding f32_mult_def by (rule near_step [where b = 4]) (use assms in auto)
  then have A: "\<bar>fadd 1 ?m1 - (1 + ?c * r)\<bar> \<le> 4 / 2 ^ 24 + 6 / 2 ^ 24"
    unfolding fadd_def by (intro near_step [where b = 5]) (use assms in auto)
  have m2: "\<bar>?m2 - ?d * r\<bar> \<le> 0 + 1 / 1000 / 2 ^ 24"
    unfolding f32_mult_def by (rule near_step [where b = "1 / 1000"]) (use assms in auto)
  have d1: "\<bar>?d1 - (r - 60)\<bar> \<le> 0 + 60 / 2 ^ 24"
    unfolding fsub_def by (rule near_step [where b = 60]) (use assms in auto)
  have d2: "\<bar>?d2 - (100 - r)\<bar> \<le> 0 + 100 / 2 ^ 24"
    unfolding fsub_def by (rule near_step [where b = 100]) (use assms in auto)
  have b1: "\<bar>?d * r * (r - 60)\<bar> \<le> 1 / 1000 * 60"
    unfolding abs_mult by (intro mult_mono) (use assms in auto)
  then have b2: "\<bar>?d * r * (r - 60) * (100 - r)\<bar> \<le> 1 / 1000 * 60 * 100"
    unfolding abs_mult [of "?d * r * (r - 60)"] by (intro mult_mono) (use assms in auto)
  have "\<bar>?m2 * ?d1 - ?d * r * (r - 60)\<bar> \<le> 1 / 1000 / 2 ^ 24 * (60 + 60 / 2 ^ 24) + 1 / 1000 * (60 / 2 ^ 24)"
    by (rule near_mult) (use m2 d1 assms in auto)
  then have m3: "\<bar>?m3 - ?d * r * (r - 60)\<bar> \<le> 1 / 2 ^ 24 + 1 / 2 ^ 24"
    unfolding f32_mult_def [of "?m2"] using b1 by (intro near_step [where b = "1 / 1000 * 60"]) auto
  have "\<bar>?m3 * ?d2 - ?d * r * (r - 60) * (100 - r)\<bar> \<le> 2 / 2 ^ 24 * (100 + 100 / 2 ^ 24) + 6 / 100 * (100 / 2 ^ 24)"
    by (rule near_mult) (use m3 d2 b1 assms in auto)
  then have m4: "\<bar>f32_mult ?m3 ?d2 - ?d * r * (r - 60) * (100 - r)\<bar> \<le> 300 / 2 ^ 24 + 7 / 2 ^ 24"
    unfolding f32_mult_def [of "?m3"] using b2 by (intro near_step [where b = 6]) auto
  have "\<bar>(fadd 1 ?m1 + f32_mult ?m3 ?d2) - mos_poly r\<bar> \<le> 400 / 2 ^ 24"
    using A m4 unfolding mos_poly_def by linarith
  then have "\<bar>fadd (fadd 1 ?m1) (f32_mult ?m3 ?d2) - mos_poly r\<bar> \<le> 400 / 2 ^ 24 + 6 / 2 ^ 24"
    unfolding fadd_def [of "fadd 1 ?m1"] using mos_poly_range [OF assms] by (intro near_step [where b = 5]) auto
  then show ?thesis unfolding mos_coefficients by linarith
qed

lemma r_to_mos_range: "97 / 100 \<le> r_to_mos R bw \<and> r_to_mos R bw \<le> 451 / 100"
proof -
  define r where "r = fdiv (f32_mult R 100) (if bw = BW_WIDE then 129 else 100)"
  consider "r \<le> 0" | "100 \<le> r" | "0 < r" "r < 100" by linarith
  then show ?thesis
  proof cases
    case 3
    let ?v = "r_to_mos R bw"
    have "\<bar>?v - mos_poly r\<bar> \<le> 410 / 2 ^ 24"
      using r_to_mos_near [OF 3] 3 by (simp only: r_to_mos_def Let_def r_def [symmetric] not_le [symmetric] if_False)
    then have "\<bar>?v - mos_poly r\<bar> \<le> 1 / 10000" by (rule order_trans) simp
    then show ?thesis using mos_poly_range [OF 3] by linarith
  qed (simp_all add: r_to_mos_def Let_def r_def [symmetric])
qed

lemma calc_mos_range:
  "97 / 100 \<le> mp_lq (calc_mos l j b t m cp) \<and> mp_lq (calc_mos l j b t m cp) \<le> 451 / 100 \<and>
   97 / 100 \<le> mp_cq (calc_mos l j b t m cp) \<and> mp_cq (calc_mos l j b t m cp) \<le> 451 / 100"
  using r_to_mos_range by (simp add: calc_mos_def mos_emodel_def mos_simplified_def clamp_mos_def Let_def)


section \<open>Percentages\<close>

text \<open>Up to this many packets in a window the percentage is computed without a rounding on the way.\<close>

lemma nat_pct: "a \<le> w \<Longrightarrow> 0 < w \<Longrightarrow> of_nat (a * 100) / (of_nat w :: rat) \<le> of_nat 100"
proof -
  assume a: "a \<le> w" "0 < w"
  then have "of_nat (a * 100) \<le> (of_nat (100 * w) :: rat)" by (intro of_nat_mono) simp
  then show ?thesis using a(2) by (simp add: pos_divide_le_eq)
qed

lemma pct_range:
  assumes "part \<le> whole" and "unat whole \<le> 167772"
  shows "0 \<le> pct part whole \<and> pct part whole \<le> 100"
proof (cases "whole = 0")
  case False
  have le: "unat part \<le> unat whole" using assms(1) by (simp add: word_le_nat_alt)
  have small: "part \<le> 2 ^ 24" "whole \<le> 2 ^ 24" using assms(2) le by (simp_all add: word_le_nat_alt)
  have "f32_mult (f32_of_u32 part) 100 = f32_round (of_nat (unat part * 100))"
    by (simp add: f32_mult_def f32_of_u32_small [OF small(1)])
  also have "\<dots> = of_nat (unat part * 100)" using assms(2) le by (intro f32_round_nat) simp
  finally have p: "pct part whole = f32_round (of_nat (unat part * 100) / of_nat (unat whole))"
    using False by (simp add: pct_def fdiv_def f32_of_u32_small [OF small(2)] word_gt_0)
  let ?x = "of_nat (unat part * 100) / of_nat (unat whole) :: rat"
  have pos: "0 < unat whole" using False by (simp add: unat_gt_0)
  have "?x \<le> of_nat 100" by (rule nat_pct [OF le pos])
  moreover have "0 \<le> ?x" by (intro divide_nonneg_nonneg of_nat_0_le_iff)
  ultimately have "0 \<le> f32_round ?x" "f32_round ?x \<le> of_nat 100"
    using f32_round_le_nat [of ?x 100] by (simp_all add: f32_round_nonneg)
  then show ?thesis unfolding p by simp
qed (simp add: pct_def)

lemma tx_loss_min:
  "tx_loss rs h = pct (min (counter_delta_i (rs_tx_lost rs) (prev_tx_lost h)) (counter_delta (rs_tx_sent rs) (prev_tx_sent h)))
     (counter_delta (rs_tx_sent rs) (prev_tx_sent h))"
proof -
  have "(if a < b then a else b) = min b a" for a b :: u32 by (auto simp: min_def)
  then show ?thesis by (simp add: tx_loss_def Let_def)
qed

section \<open>Alerts that alternate\<close>

text \<open>
  A machine that raises and clears an alarm: \<open>outstanding\<close> reads from the state whether it is
  raised, \<open>alerts\<close> the onsets (False) and recoveries (True) from the effects.
\<close>

locale alarm_machine =
  fixes step :: "'i \<Rightarrow> ('s, 'e) act"
    and ok :: "'i \<Rightarrow> 's \<Rightarrow> bool"
    and outstanding :: "'s \<Rightarrow> bool"
    and alerts :: "'e list \<Rightarrow> bool list"
  assumes alerts_Nil: "alerts [] = []"
    and alerts_append: "alerts (es @ es') = alerts es @ alerts es'"
    and step_alarm: "ok i s \<Longrightarrow> alternates (outstanding s) (alerts (snd (step i s))) \<and>
      outstanding (fst (step i s)) = after_alerts (outstanding s) (alerts (snd (step i s)))"
begin

lemma run_alarm:
  "legal_run step ok is s \<Longrightarrow> alternates (outstanding s) (alerts (snd (run_acts step is s))) \<and>
   outstanding (fst (run_acts step is s)) = after_alerts (outstanding s) (alerts (snd (run_acts step is s)))"
proof (induction "is" arbitrary: s)
  case Nil
  then show ?case by (simp add: alerts_Nil)
next
  case (Cons i "is")
  then show ?case using step_alarm [of i s] Cons.IH [of "fst (step i s)"]
    by (simp add: alerts_append alternates_append after_append)
qed

end

text \<open>What happens to the statistics of one call.\<close>

datatype stat_in = St_Tick tick_env | St_Get u64 "stream_env option" | St_Final tick_env

fun stat_step :: "libre \<Rightarrow> (rat \<Rightarrow> u32) \<Rightarrow> stats_cfg \<Rightarrow> adapt_cfg \<Rightarrow> stat_in \<Rightarrow> (scall, stat_eff) act" where
  "stat_step L ub C AC (St_Tick T) x = collect_call_stats L ub C AC T x"
| "stat_step L ub C AC (St_Get now E) x = (snd (snd (getstats_fn L ub C now E full_stats_zero x)), [])"
| "stat_step L ub C AC (St_Final T) x = vox_stats_collect_final L ub C T x"

fun issue_alerts :: "quality_issue \<Rightarrow> stat_eff list \<Rightarrow> bool list" where
  "issue_alerts q [] = []"
| "issue_alerts q (S_Adapt (A_Post (EV_QUALITY_ALERT c q' v t recovering)) # es) =
     (if q' = q then recovering # issue_alerts q es else issue_alerts q es)"
| "issue_alerts q (_ # es) = issue_alerts q es"

lemma issue_alerts_append [simp]: "issue_alerts q (es @ es') = issue_alerts q es @ issue_alerts q es'"
  by (induction q es rule: issue_alerts.induct) simp_all

text \<open>Whether the last sample was bad, as the next tick computes it.\<close>

definition was_bad :: "stats_cfg \<Rightarrow> quality_issue \<Rightarrow> stats_hist \<Rightarrow> bool" where
  "was_bad C q h =
     (case q of
        QUALITY_MOS \<Rightarrow> 0 < mos_alert_threshold C \<and> 0 < last_mos_lq h \<and> last_mos_lq h < mos_alert_threshold C
      | QUALITY_LOSS \<Rightarrow> 0 < loss_alert_threshold C \<and> loss_alert_threshold C < last_loss_pct h
      | QUALITY_JITTER \<Rightarrow> 0 < jitter_alert_threshold C \<and> jitter_alert_threshold C < last_jitter_ms h
      | _ \<Rightarrow> False)"

text \<open>The stack keeps RTCP statistics for every stream it has.\<close>

fun with_rtcp :: "stat_in \<Rightarrow> bool" where
  "with_rtcp (St_Tick T) = (\<forall>E. te_stream T = Some E \<longrightarrow> se_rtcp E \<noteq> None)"
| "with_rtcp _ = True"

subsection \<open>What a sample leaves in the history\<close>

lemma fill_keeps_window: "snd (fill_audio_stats L ub C E False c s h) = h"
  by (simp add: fill_audio_stats_def fill_rtcp_def Let_def case_prod_beta split: option.split)

lemma snapshot_keeps: "snd (stats_snapshot L ub C now E f s x) = x"
  by (cases x) (simp add: stats_snapshot_def case_prod_beta fill_keeps_window)

lemma others_keep:
  "fst (stat_step L ub C AC (St_Get now E) x) = x" "fst (stat_step L ub C AC (St_Final T) x) = x"
  "issue_alerts q (snd (stat_step L ub C AC (St_Get now E) x)) = []"
  "issue_alerts q (snd (stat_step L ub C AC (St_Final T) x)) = []"
  by (simp_all add: getstats_fn_def vox_stats_collect_final_def case_prod_beta snapshot_keeps split: option.split)

text \<open>The sample of a tick and the history it leaves.\<close>

definition tick_fill :: "libre \<Rightarrow> (rat \<Rightarrow> u32) \<Rightarrow> stats_cfg \<Rightarrow> stream_env \<Rightarrow> vcall \<Rightarrow> stats_hist \<Rightarrow> full_stats \<times> stats_hist" where
  "tick_fill L ub C E lc h = fill_audio_stats L ub C E True (lc_handle lc) full_stats_zero h"

definition tick_hist :: "stats_hist \<Rightarrow> full_stats \<Rightarrow> stats_hist" where
  "tick_hist h s = h\<lparr>stats_tick := stats_tick h + 1, last_mos_lq := fs_mos_lq s, last_loss_pct := loss_pct s, last_jitter_ms := fs_jitter_ms s\<rparr>"

definition tick_sample :: "libre \<Rightarrow> (rat \<Rightarrow> u32) \<Rightarrow> stats_cfg \<Rightarrow> u64 \<Rightarrow> stream_env \<Rightarrow> vcall \<Rightarrow> stats_hist \<Rightarrow> full_stats" where
  "tick_sample L ub C now E lc h =
     (case tick_fill L ub C E lc h of (s, h0) \<Rightarrow>
        fill_history L C now lc False (h0\<lparr>stats_tick := stats_tick h0 + 1\<rparr>)
          (s\<lparr>fs_codec_name := map_option (\<lambda>c. lb_ncpy L 4096 (fst c)) (se_codec E)\<rparr>))"

lemma fill_last:
  "last_mos_lq (snd (fill_audio_stats L ub C E adv c s h)) = last_mos_lq h"
  "last_loss_pct (snd (fill_audio_stats L ub C E adv c s h)) = last_loss_pct h"
  "last_jitter_ms (snd (fill_audio_stats L ub C E adv c s h)) = last_jitter_ms h"
  by (simp_all add: fill_audio_stats_def fill_rtcp_def advance_window_def Let_def case_prod_beta split: option.split)

lemma alerts_cong:
  "last_mos_lq h = last_mos_lq h' \<Longrightarrow> last_loss_pct h = last_loss_pct h' \<Longrightarrow> last_jitter_ms h = last_jitter_ms h' \<Longrightarrow>
   quality_alerts C c s h = quality_alerts C c s h'"
  by (simp add: quality_alerts_def)

lemma tick_sample_fields:
  "fs_mos_lq (tick_sample L ub C now E lc h) = fs_mos_lq (fst (tick_fill L ub C E lc h))"
  "fs_mos_cq (tick_sample L ub C now E lc h) = fs_mos_cq (fst (tick_fill L ub C E lc h))"
  "fs_mos_lq_rx (tick_sample L ub C now E lc h) = fs_mos_lq_rx (fst (tick_fill L ub C E lc h))"
  "fs_mos_cq_rx (tick_sample L ub C now E lc h) = fs_mos_cq_rx (fst (tick_fill L ub C E lc h))"
  "loss_pct (tick_sample L ub C now E lc h) = loss_pct (fst (tick_fill L ub C E lc h))"
  "fs_loss_pct_rx (tick_sample L ub C now E lc h) = fs_loss_pct_rx (fst (tick_fill L ub C E lc h))"
  "fs_jitter_ms (tick_sample L ub C now E lc h) = fs_jitter_ms (fst (tick_fill L ub C E lc h))"
  by (simp_all add: tick_sample_def fill_history_def case_prod_beta)

lemma collect_sample:
  fixes L :: libre and ub :: "rat \<Rightarrow> u32" and C :: stats_cfg and h :: stats_hist
  assumes "te_stream T = Some E" and "lc_bc lc \<noteq> None" and "te_mem T"
  defines "s \<equiv> tick_sample L ub C (me_now (te_media T)) E lc h"
  shows "collect_call_stats L ub C AC T (lc, h) =
    ((fst (vox_adapt_tick L AC (te_acct T) (te_media T) (media_stats.truncate s) lc), tick_hist (snd (tick_fill L ub C E lc h)) s),
     map S_Adapt (quality_alerts C (lc_handle lc) s h) @
       map S_Adapt (snd (vox_adapt_tick L AC (te_acct T) (te_media T) (media_stats.truncate s) lc)) @ [S_Stats s])"
proof -
  obtain s0 h0 where f: "tick_fill L ub C E lc h = (s0, h0)" by fastforce
  have l: "last_mos_lq h0 = last_mos_lq h" "last_loss_pct h0 = last_loss_pct h" "last_jitter_ms h0 = last_jitter_ms h"
    using f fill_last [of L ub C E True "lc_handle lc" full_stats_zero h] by (simp_all add: tick_fill_def)
  have q: "quality_alerts C (lc_handle lc) s (h0\<lparr>stats_tick := stats_tick h0 + 1\<rparr>) = quality_alerts C (lc_handle lc) s h"
    by (rule alerts_cong) (simp_all add: l)
  have s: "s = fill_history L C (me_now (te_media T)) lc False (h0\<lparr>stats_tick := stats_tick h0 + 1\<rparr>)
      (s0\<lparr>fs_codec_name := map_option (\<lambda>c. lb_ncpy L 4096 (fst c)) (se_codec E)\<rparr>)"
    by (simp add: s_def tick_sample_def f)
  show ?thesis
    using assms(1-3) f q
    by (simp add: collect_call_stats_def tick_fill_def Let_def s [symmetric] tick_hist_def case_prod_beta)
qed

lemma collect_nothing:
  "te_stream T = None \<or> lc_bc lc = None \<or> \<not> te_mem T \<Longrightarrow> collect_call_stats L ub C AC T (lc, h) = ((lc, h), [])"
  by (auto simp: collect_call_stats_def split: option.split)

lemma apply_quiet: "issue_alerts q (map S_Adapt (snd (snd (vox_adapt_apply_bitrate L M b lc)))) = []"
  by (simp add: vox_adapt_apply_bitrate_def case_prod_beta split: option.split sum.split)

lemma bitrate_quiet: "issue_alerts q (map S_Adapt (snd (bitrate_tick L AC M s lc))) = []"
  by (simp add: bitrate_tick_def apply_quiet split: prod.split option.split)

lemma stall_quiet: "q \<noteq> QUALITY_MEDIA_STALL \<Longrightarrow> issue_alerts q (map S_Adapt (snd (stall_tick AC acct M s lc))) = []"
  by (simp add: stall_tick_def stall_clear_def stall_alert_def Let_def)

lemma adapt_quiet:
  "q \<noteq> QUALITY_MEDIA_STALL \<Longrightarrow> issue_alerts q (map S_Adapt (snd (vox_adapt_tick L AC acct M s lc))) = []"
  by (simp add: vox_adapt_tick_def bitrate_quiet stall_quiet)

lemma adapt_keeps_bc: "lc_bc (fst (vox_adapt_tick L AC acct M s lc)) = lc_bc lc"
proof -
  have "lc_bc (fst (snd (vox_adapt_apply_bitrate L M b x))) = lc_bc x" for b x
    by (simp add: vox_adapt_apply_bitrate_def split: option.split sum.split)
  moreover have "lc_bc (fst (bitrate_decide AC s x)) = lc_bc x" for x
    by (simp add: bitrate_decide_def Let_def)
  ultimately have "lc_bc (fst (bitrate_tick L AC M s x)) = lc_bc x" for x
    by (auto simp: bitrate_tick_def split: prod.split option.split) (metis fst_conv)+
  moreover have "lc_bc (fst (stall_tick AC acct M s x)) = lc_bc x" for x
    by (simp add: stall_tick_def stall_clear_def Let_def)
  ultimately show ?thesis by (simp add: vox_adapt_tick_def)
qed

text \<open>With a report, the rates are those of the window and every score is in range.\<close>

lemma tick_fill_rtcp:
  fixes L :: libre and ub :: "rat \<Rightarrow> u32" and C :: stats_cfg and h :: stats_hist and lc :: vcall
  assumes "se_rtcp E = Some rs"
  defines "s \<equiv> fst (tick_fill L ub C E lc h)"
  shows "loss_pct s = tx_loss rs h" and "fs_loss_pct_rx s = rx_loss rs h"
    and "97 / 100 \<le> fs_mos_lq s \<and> fs_mos_lq s \<le> 451 / 100" and "97 / 100 \<le> fs_mos_cq s \<and> fs_mos_cq s \<le> 451 / 100"
    and "97 / 100 \<le> fs_mos_lq_rx s \<and> fs_mos_lq_rx s \<le> 451 / 100" and "97 / 100 \<le> fs_mos_cq_rx s \<and> fs_mos_cq_rx s \<le> 451 / 100"
  using calc_mos_range assms(1)
  by (simp_all add: s_def tick_fill_def fill_audio_stats_def fill_rtcp_def fill_identity_def Let_def case_prod_beta split: option.split)

lemma tick_fill_window:
  assumes "se_rtcp E = Some rs"
  shows "prev_tx_sent (snd (tick_fill L ub C E lc h)) = rs_tx_sent rs" and "prev_tx_lost (snd (tick_fill L ub C E lc h)) = rs_tx_lost rs"
    and "prev_rx_recv (snd (tick_fill L ub C E lc h)) = rs_rx_sent rs" and "prev_rx_lost (snd (tick_fill L ub C E lc h)) = rs_rx_lost rs"
  using assms by (simp_all add: tick_fill_def fill_audio_stats_def fill_rtcp_def advance_window_def Let_def case_prod_beta)

section \<open>The alarms\<close>

lemma alerts_alarm:
  assumes "q \<in> {QUALITY_MOS, QUALITY_LOSS, QUALITY_JITTER}" and "q = QUALITY_MOS \<Longrightarrow> 0 < fs_mos_lq s"
  shows "alternates (was_bad C q h) (issue_alerts q (map S_Adapt (quality_alerts C c s h))) \<and>
    was_bad C q (tick_hist h0 s) = after_alerts (was_bad C q h) (issue_alerts q (map S_Adapt (quality_alerts C c s h)))"
  using assms by (cases q) (simp_all add: quality_alerts_def crossed_def was_bad_def tick_hist_def)

lemma step_alarm_law:
  assumes "q \<in> {QUALITY_MOS, QUALITY_LOSS, QUALITY_JITTER}" and "q = QUALITY_MOS \<longrightarrow> with_rtcp i"
  shows "alternates (was_bad C q (snd x)) (issue_alerts q (snd (stat_step L ub C AC i x))) \<and>
    was_bad C q (snd (fst (stat_step L ub C AC i x)))
      = after_alerts (was_bad C q (snd x)) (issue_alerts q (snd (stat_step L ub C AC i x)))"
proof (cases i)
  case (St_Tick T)
  obtain lc h where x: "x = (lc, h)" by fastforce
  show ?thesis
  proof (cases "te_stream T = None \<or> lc_bc lc = None \<or> \<not> te_mem T")
    case True
    then show ?thesis by (simp add: St_Tick x collect_nothing)
  next
    case False
    then obtain E where E: "te_stream T = Some E" and bc: "lc_bc lc \<noteq> None" and mem: "te_mem T" by auto
    let ?s = "tick_sample L ub C (me_now (te_media T)) E lc h"
    have "0 < fs_mos_lq ?s" if m: "q = QUALITY_MOS"
    proof -
      obtain rs where "se_rtcp E = Some rs" using assms(2) m E by (auto simp: St_Tick)
      from tick_fill_rtcp(3) [OF this, of L ub C lc h] show ?thesis
        unfolding tick_sample_fields by linarith
    qed
    note law = alerts_alarm [OF assms(1) this, of C h "lc_handle lc" "snd (tick_fill L ub C E lc h)"]
    have "q \<noteq> QUALITY_MEDIA_STALL" using assms(1) by auto
    then show ?thesis using law
      by (simp add: St_Tick x collect_sample [OF E bc mem] adapt_quiet)
  qed
qed (simp_all add: others_keep del: stat_step.simps)

interpretation mos: alarm_machine "stat_step L ub C AC" "\<lambda>i _. with_rtcp i" "\<lambda>x. was_bad C QUALITY_MOS (snd x)" "issue_alerts QUALITY_MOS"
  for L ub C AC by unfold_locales (use step_alarm_law [of QUALITY_MOS] in simp_all)

interpretation loss: alarm_machine "stat_step L ub C AC" "\<lambda>_ _. True" "\<lambda>x. was_bad C QUALITY_LOSS (snd x)" "issue_alerts QUALITY_LOSS"
  for L ub C AC by unfold_locales (use step_alarm_law [of QUALITY_LOSS] in simp_all)

interpretation jitter: alarm_machine "stat_step L ub C AC" "\<lambda>_ _. True" "\<lambda>x. was_bad C QUALITY_JITTER (snd x)" "issue_alerts QUALITY_JITTER"
  for L ub C AC by unfold_locales (use step_alarm_law [of QUALITY_JITTER] in simp_all)

lemma legal_any: "(\<And>i s. ok i s) \<Longrightarrow> legal_run step ok xs s"
  by (induction xs arbitrary: s) auto

lemma legal_rtcp: "list_all with_rtcp xs \<Longrightarrow> legal_run step (\<lambda>i _. with_rtcp i) xs s"
  by (induction xs arbitrary: s) auto

fun is_tick :: "stat_in \<Rightarrow> bool" where
  "is_tick (St_Tick _) = True"
| "is_tick _ = False"

lemma no_tick_keeps: "list_all (\<lambda>i. \<not> is_tick i) xs \<Longrightarrow> fst (run_acts (stat_step L ub C AC) xs x) = x"
proof (induction xs arbitrary: x)
  case (Cons i xs)
  then show ?case by (cases i) (simp_all add: others_keep del: stat_step.simps)
qed simp

section \<open>Properties\<close>

text \<open>
  C19: A quality alert is raised once and cleared once. In any run of polling ticks, snapshots
  and getter calls over a call, the alerts for loss and for jitter alternate between onset and
  recovery, beginning with an onset, and so do those for the score as long as the stack keeps
  its RTCP statistics.
\<close>

theorem quality_alerts_alternate:
  "let es = snd (run_acts (stat_step L ub C AC) xs (lc, stats_hist_zero))
   in alternates False (issue_alerts QUALITY_LOSS es) \<and> alternates False (issue_alerts QUALITY_JITTER es) \<and>
      (list_all with_rtcp xs \<longrightarrow> alternates False (issue_alerts QUALITY_MOS es))"
proof -
  have z: "\<not> was_bad C q stats_hist_zero" for q by (cases q) (simp_all add: was_bad_def stats_hist_zero_def)
  let ?x = "(lc, stats_hist_zero)"
  let ?es = "snd (run_acts (stat_step L ub C AC) xs ?x)"
  have "alternates (was_bad C QUALITY_LOSS (snd ?x)) (issue_alerts QUALITY_LOSS ?es)"
    using loss.run_alarm [OF legal_any] by blast
  moreover have "alternates (was_bad C QUALITY_JITTER (snd ?x)) (issue_alerts QUALITY_JITTER ?es)"
    using jitter.run_alarm [OF legal_any] by blast
  moreover have "alternates (was_bad C QUALITY_MOS (snd ?x)) (issue_alerts QUALITY_MOS ?es)" if "list_all with_rtcp xs"
    using mos.run_alarm [OF legal_rtcp [OF that]] by blast
  ultimately show ?thesis by (simp add: Let_def z)
qed

definition demo_stream :: "u32 \<Rightarrow> u32 \<Rightarrow> stream_env" where
  "demo_stream sent lost = \<lparr>se_tx_packets = sent, se_rx_packets = sent, se_tx_bytes = 0, se_rx_bytes = 0, se_tx_err = 0, se_rx_err = 0,
     se_tx_bitrate = 64000, se_rx_bitrate = 64000, se_tx_avg = 64000, se_rx_avg = 64000,
     se_codec = Some (''PCMU'', 8000, 8000, 1), se_jbuf = None, se_jb_adaptive = False,
     se_rtcp = Some \<lparr>rs_rtt = 50000, rs_rx_jit = 0, rs_tx_jit = 0, rs_tx_lost = lost, rs_rx_lost = 0, rs_tx_sent = sent, rs_rx_sent = sent\<rparr>,
     se_ssrc_tx = None, se_ssrc_rx = 1, se_pt = 0, se_raddr = None\<rparr>"

definition demo_tick :: "u32 \<Rightarrow> u32 \<Rightarrow> tick_env" where
  "demo_tick sent lost = \<lparr>te_stream = Some (demo_stream sent lost), te_mem = True,
     te_media = \<lparr>me_format = None, me_encoder = None, me_onhold = False, me_secure = [], me_now = 1000\<rparr>, te_acct = None\<rparr>"

definition demo_stats_cfg :: stats_cfg where
  "demo_stats_cfg = \<lparr>stats_interval_ms = 2000, mos_method_cfg = MOS_EMODEL, mos_alert_threshold = 7 / 2,
     loss_alert_threshold = 5, jitter_alert_threshold = 40\<rparr>"

theorem quality_alerts_alternate_witness:
  "let xs = [St_Tick (demo_tick 100 50), St_Get 2000 (Some (demo_stream 150 50)), St_Tick (demo_tick 200 50)];
       es = snd (run_acts (stat_step libre_ref (\<lambda>_. 0) demo_stats_cfg adapt_cfg0) xs (call_zero 1 1 None CALL_ESTABLISHED, stats_hist_zero))
   in list_all with_rtcp xs \<and> alternates False (issue_alerts QUALITY_MOS es) \<and> alternates False (issue_alerts QUALITY_LOSS es)"
  using quality_alerts_alternate [of libre_ref "\<lambda>_. 0" demo_stats_cfg adapt_cfg0
      "[St_Tick (demo_tick 100 50), St_Get 2000 (Some (demo_stream 150 50)), St_Tick (demo_tick 200 50)]"
      "call_zero 1 1 None CALL_ESTABLISHED"]
  by (simp only: Let_def) (simp add: demo_tick_def demo_stream_def)

text \<open>
  C21: The loss rate is that of the window between two polling ticks. Whatever getter calls and
  snapshots come between them, the second tick posts one sample, and its rates are computed
  from what was sent, received and lost since the first: no packet is counted in two windows
  and none is missed.
\<close>

theorem loss_is_windowed:
  assumes "te_stream T1 = Some E1" and "se_rtcp E1 = Some r1" and "te_mem T1"
    and "te_stream T2 = Some E2" and "se_rtcp E2 = Some r2" and "te_mem T2"
    and "lc_bc lc \<noteq> None" and "list_all (\<lambda>i. \<not> is_tick i) xs"
    and "x1 = fst (stat_step L ub C AC (St_Tick T1) (lc, h))"
    and "x2 = fst (run_acts (stat_step L ub C AC) xs x1)"
  shows "\<exists>s. last (snd (stat_step L ub C AC (St_Tick T2) x2)) = S_Stats s \<and>
    (let sent = counter_delta (rs_tx_sent r2) (rs_tx_sent r1); lost = counter_delta_i (rs_tx_lost r2) (rs_tx_lost r1);
         recv = counter_delta (rs_rx_sent r2) (rs_rx_sent r1); miss = counter_delta_i (rs_rx_lost r2) (rs_rx_lost r1)
     in loss_pct s = pct (min lost sent) sent \<and> fs_loss_pct_rx s = pct miss (recv + miss))"
proof -
  have x2: "x2 = x1" using assms(8,10) no_tick_keeps by simp
  obtain lc1 h1 where x1: "x1 = (lc1, h1)" by fastforce
  let ?s1 = "tick_sample L ub C (me_now (te_media T1)) E1 lc h"
  have "h1 = tick_hist (snd (tick_fill L ub C E1 lc h)) ?s1"
    using assms(9) x1 by (simp add: collect_sample [OF assms(1,7,3)])
  then have p: "prev_tx_sent h1 = rs_tx_sent r1" "prev_tx_lost h1 = rs_tx_lost r1" "prev_rx_recv h1 = rs_rx_sent r1" "prev_rx_lost h1 = rs_rx_lost r1"
    using tick_fill_window [OF assms(2), of L ub C lc h] by (simp_all add: tick_hist_def)
  have bc: "lc_bc lc1 \<noteq> None"
    using assms(7,9) x1 by (simp add: collect_sample [OF assms(1,7,3)]) (metis adapt_keeps_bc option.distinct(1))
  let ?s = "tick_sample L ub C (me_now (te_media T2)) E2 lc1 h1"
  have "last (snd (stat_step L ub C AC (St_Tick T2) x2)) = S_Stats ?s"
    using x2 x1 by (simp add: collect_sample [OF assms(4) bc assms(6)])
  moreover have "loss_pct ?s = tx_loss r2 h1" "fs_loss_pct_rx ?s = rx_loss r2 h1"
    unfolding tick_sample_fields using tick_fill_rtcp(1,2) [OF assms(5), of L ub C lc1 h1] by simp_all
  ultimately show ?thesis by (intro exI [of _ ?s]) (simp add: tx_loss_min rx_loss_def p Let_def)
qed

theorem loss_is_windowed_witness:
  "let step = stat_step libre_ref (\<lambda>_. 0) demo_stats_cfg adapt_cfg0;
       x1 = fst (step (St_Tick (demo_tick 100 50)) (call_zero 1 1 None CALL_ESTABLISHED, stats_hist_zero));
       x2 = fst (run_acts step [St_Get 2000 (Some (demo_stream 150 50))] x1)
   in \<exists>s. last (snd (step (St_Tick (demo_tick 200 60)) x2)) = S_Stats s \<and> loss_pct s = 10"
proof -
  have t: "te_stream (demo_tick a b) = Some (demo_stream a b)" "te_mem (demo_tick a b)" for a b by (simp_all add: demo_tick_def)
  have r: "se_rtcp (demo_stream a b) = Some \<lparr>rs_rtt = 50000, rs_rx_jit = 0, rs_tx_jit = 0, rs_tx_lost = b, rs_rx_lost = 0, rs_tx_sent = a, rs_rx_sent = a\<rparr>" for a b
    by (simp add: demo_stream_def)
  have bc: "lc_bc (call_zero 1 1 None CALL_ESTABLISHED) \<noteq> None" by (simp add: call_zero_def)
  have g: "list_all (\<lambda>i. \<not> is_tick i) [St_Get 2000 (Some (demo_stream 150 50))]" by simp
  have p: "pct (min (counter_delta_i 60 50) (counter_delta 200 100)) (counter_delta 200 100) = 10" by code_simp
  from loss_is_windowed [OF t(1) [of 100 50] r t(2) t(1) [of 200 60] r t(2) bc g refl refl, where h = stats_hist_zero
      and L = libre_ref and ub = "\<lambda>_. 0" and C = demo_stats_cfg and AC = adapt_cfg0]
  show ?thesis by (simp only: Let_def rtcp_stats.simps p) blast
qed



text \<open>
  C37: The scores leave the range the header documents for them, and their order. On a G.711
  path that has lost every packet of the window the listening score is below 1.0, because the
  polynomial dips below 1 just above \<open>R = 0\<close>; and since \<open>R \<le> 0\<close> is cut to 1.0, the
  conversational score, which only adds an impairment, comes out higher than the listening one.
\<close>

theorem conversational_above_listening:
  "let m = calc_mos 100 0 0 400 MOS_EMODEL (codec_emodel_params libre_ref (Some ''PCMU'') 8000 64)
   in mp_lq m < 1 \<and> mp_lq m < mp_cq m"
  by code_simp

end
