(* ===== verification/Vox_Core.thy ===== *)
theory Vox_Core
  imports Vox_Pcap Vox_Account_Cfg
begin

text \<open>
  \<^verbatim>\<open>src/core.c\<close>, \<^verbatim>\<open>src/timers.c\<close> and \<^verbatim>\<open>src/re_loop.c\<close>: start-up with its failure path,
  shutdown, and the settings handed to the stack. The state is what the SDK itself keeps in
  \<open>g_vox\<close> and in the static variables of its files; the effects are its calls into the stack,
  in their order. What the stack answers is an input.
\<close>

section \<open>Configuration\<close>

record opus_cfg =
  op_bitrate :: int
  op_complexity :: int
  op_cbr :: bool
  op_dtx :: bool
  op_fec :: bool
  op_stereo :: bool

text \<open>The fields of \<open>voxsdk_config_t\<close> that start-up reads or copies.\<close>

record core_cfg =
  cc_version :: u32
  cc_struct_size :: u32
  cc_event_cb :: "nat option"
  cc_audio_codec_count :: int
  cc_audio_codec_name_count :: int
  cc_local_ip :: cptr
  cc_local_port :: u16
  cc_bind_interface :: cptr
  cc_prefer_ipv6 :: bool
  cc_sip_domain :: cptr
  cc_server_url :: cptr
  cc_server_host :: cptr
  cc_outbound_proxy :: cptr
  cc_ca_cert_path :: cptr
  cc_client_cert :: cptr
  cc_client_key :: cptr
  cc_verify_server :: bool
  cc_sni_hostname :: cptr
  cc_user_agent :: cptr
  cc_ws_origin :: cptr
  cc_ws_extra_headers :: "string list option"
  cc_stun_server :: cptr
  cc_turn_server :: cptr
  cc_turn_user :: cptr
  cc_turn_pass :: cptr
  cc_dscp_sip :: u8
  cc_dscp_rtp :: u8
  cc_opus :: opus_cfg
  cc_opus_expected_loss_pct :: u32
  cc_jbuf_fixed :: bool
  cc_jb_min_ms :: u32
  cc_jb_max_ms :: u32
  cc_rtp_timeout_s :: u32
  cc_session_timer :: bool
  cc_stats_interval_ms :: u32
  cc_net_monitor_interval_s :: u32
  cc_aec_webrtc :: bool
  cc_tmp_dir :: cptr
  cc_trace_sip :: bool
  cc_pcap_path :: cptr

definition VOXSDK_CONFIG_VERSION :: u32 where "VOXSDK_CONFIG_VERSION = 1"

subsection \<open>Deep copy\<close>

text \<open>\<open>ok\<close> gives the outcomes of the allocations, in the order of the code.\<close>

definition vox_strdup_strv :: "bool \<Rightarrow> (nat \<Rightarrow> bool) \<Rightarrow> string list option \<Rightarrow> string list option" where
  "vox_strdup_strv arr ok src =
     (case src of
        None \<Rightarrow> None
      | Some ss \<Rightarrow> if \<not> arr then None else if \<forall>i < length ss. ok i then Some ss else None)"

definition vox_cfg_deep_copy :: "(nat \<Rightarrow> bool) \<Rightarrow> (nat \<Rightarrow> bool) \<Rightarrow> core_cfg \<Rightarrow> core_cfg" where
  "vox_cfg_deep_copy ok strv src = src\<lparr>
     cc_local_ip := vox_strdup (ok 0) (cc_local_ip src),
     cc_sip_domain := vox_strdup (ok 1) (cc_sip_domain src),
     cc_server_url := vox_strdup (ok 2) (cc_server_url src),
     cc_server_host := vox_strdup (ok 3) (cc_server_host src),
     cc_outbound_proxy := vox_strdup (ok 4) (cc_outbound_proxy src),
     cc_ca_cert_path := vox_strdup (ok 5) (cc_ca_cert_path src),
     cc_client_cert := vox_strdup (ok 6) (cc_client_cert src),
     cc_client_key := vox_strdup (ok 7) (cc_client_key src),
     cc_sni_hostname := vox_strdup (ok 8) (cc_sni_hostname src),
     cc_user_agent := vox_strdup (ok 9) (cc_user_agent src),
     cc_ws_origin := vox_strdup (ok 10) (cc_ws_origin src),
     cc_ws_extra_headers := vox_strdup_strv (ok 11) strv (cc_ws_extra_headers src),
     cc_stun_server := vox_strdup (ok 12) (cc_stun_server src),
     cc_turn_server := vox_strdup (ok 13) (cc_turn_server src),
     cc_turn_user := vox_strdup (ok 14) (cc_turn_user src),
     cc_turn_pass := vox_strdup (ok 15) (cc_turn_pass src),
     cc_pcap_path := vox_strdup (ok 16) (cc_pcap_path src),
     cc_tmp_dir := vox_strdup (ok 17) (cc_tmp_dir src)\<rparr>"

subsection \<open>Settings of the stack\<close>

text \<open>The part of the stack's \<open>struct config\<close> that is set; the sizes of its buffers are the
  stack's.\<close>

record stack_cfg =
  sc_tos :: u8
  sc_rtp_tos :: u8
  sc_cafile :: string
  sc_cert :: string
  sc_verify_server :: bool
  sc_verify_client :: bool
  sc_ipv6 :: bool
  sc_rtp_stats :: bool
  sc_rtp_timeout :: u32
  sc_jb_adaptive :: "bool option"
  sc_jb_min :: u32
  sc_jb_max :: u32
  sc_ifname :: string
  sc_local :: string
  sc_local_timeout :: u32
  sc_transports :: u32

record buf_sizes =
  bs_cafile :: nat
  bs_cert :: nat
  bs_ifname :: nat
  bs_local :: nat

definition has_colon :: "string \<Rightarrow> bool" where
  "has_colon s \<longleftrightarrow> strchr (CHR '':'') s \<noteq> None"

text \<open>The bind address: an address in brackets when it has a colon, and a port.\<close>

definition local_text :: "cptr \<Rightarrow> u16 \<Rightarrow> string option" where
  "local_text ip port =
     (case ip of
        Some a \<Rightarrow>
          Some ((if has_colon a then ''['' @ a @ '']'' else a) @ '':'' @ (if port \<noteq> 0 then show_nat (unat port) else ''0''))
      | None \<Rightarrow> if port \<noteq> 0 then Some (''0.0.0.0:'' @ show_nat (unat port)) else None)"

definition vox_timers_configure :: "libre \<Rightarrow> buf_sizes \<Rightarrow> core_cfg \<Rightarrow> stack_cfg \<Rightarrow> stack_cfg" where
  "vox_timers_configure L Z cfg c =
     (let c1 = c\<lparr>sc_tos := cc_dscp_sip cfg, sc_rtp_tos := cc_dscp_rtp cfg\<rparr>;
          c2 = (case cc_ca_cert_path cfg of None \<Rightarrow> c1 | Some p \<Rightarrow> c1\<lparr>sc_cafile := lb_ncpy L (bs_cafile Z) p\<rparr>);
          c3 = (case cc_client_cert cfg of None \<Rightarrow> c2 | Some p \<Rightarrow> c2\<lparr>sc_cert := lb_ncpy L (bs_cert Z) p\<rparr>);
          c4 = c3\<lparr>sc_verify_server := cc_verify_server cfg, sc_ipv6 := cc_prefer_ipv6 cfg,
                  sc_rtp_stats := (0 < cc_stats_interval_ms cfg), sc_rtp_timeout := cc_rtp_timeout_s cfg\<rparr>;
          c5 = (if cc_jb_min_ms cfg \<noteq> 0 \<or> cc_jb_max_ms cfg \<noteq> 0
                then c4\<lparr>sc_jb_adaptive := Some True, sc_jb_min := cc_jb_min_ms cfg,
                        sc_jb_max := (if cc_jb_max_ms cfg \<noteq> 0 then cc_jb_max_ms cfg else 150)\<rparr> else c4);
          c6 = (case cc_bind_interface cfg of None \<Rightarrow> c5 | Some i \<Rightarrow> c5\<lparr>sc_ifname := lb_ncpy L (bs_ifname Z) i\<rparr>);
          c7 = (case local_text (cc_local_ip cfg) (cc_local_port cfg) of
                  None \<Rightarrow> c6 | Some t \<Rightarrow> c6\<lparr>sc_local := fst (lb_snprintf L (bs_local Z) t)\<rparr>);
          c8 = (if \<not> cc_session_timer cfg then c7\<lparr>sc_local_timeout := 0\<rparr> else c7)
      in c8\<lparr>sc_verify_client := False\<rparr>)"

text \<open>The lines handed to the stack for the Opus encoder, written one after the other into 256
  bytes; \<open>olen\<close> follows the return values.\<close>

definition opus_put :: "libre \<Rightarrow> bool \<Rightarrow> string \<Rightarrow> string \<times> int \<Rightarrow> string \<times> int" where
  "opus_put L wanted line st =
     (case st of (buf, olen) \<Rightarrow>
        if \<not> wanted then st
        else (case lb_snprintf L (nat (256 - olen)) line of (t, n) \<Rightarrow> (take (nat olen) buf @ t, olen + n)))"

definition opus_lines :: "core_cfg \<Rightarrow> (bool \<times> string) list" where
  "opus_lines cfg =
     (let op = cc_opus cfg; nl = [CHR 0x0A]; pl = cc_opus_expected_loss_pct cfg; pl' = (if 100 < pl then 100 else pl)
      in [(0 < op_bitrate op, ''opus_bitrate '' @ show_int (op_bitrate op) @ nl),
          (0 \<le> op_complexity op, ''opus_complexity '' @ show_int (op_complexity op) @ nl),
          (op_cbr op, ''opus_cbr yes'' @ nl),
          (op_dtx op, ''opus_dtx yes'' @ nl),
          (op_fec op, ''opus_inbandfec yes'' @ nl),
          (pl \<noteq> 0, ''opus_packet_loss '' @ show_nat (unat pl') @ nl),
          (op_stereo op, ''opus_stereo yes'' @ nl)])"

definition opus_conf :: "libre \<Rightarrow> core_cfg \<Rightarrow> string \<times> int" where
  "opus_conf L cfg = fold (\<lambda>(w, l). opus_put L w l) (opus_lines cfg) ([], 0)"

text \<open>The temporary directory, where there is \<open>getenv\<close>.\<close>

definition vox_resolve_tmpdir :: "libre \<Rightarrow> cptr \<Rightarrow> cptr \<Rightarrow> string" where
  "vox_resolve_tmpdir L override env =
     (case override of
        Some (c # cs) \<Rightarrow> lb_ncpy L 512 (c # cs)
      | _ \<Rightarrow> lb_ncpy L 512 (case env of Some (c # cs) \<Rightarrow> c # cs | _ \<Rightarrow> ''/tmp''))"

section \<open>State and effects\<close>

text \<open>
  \<open>k_lock\<close>: the mutex \<open>g_vox.lock\<close> is an initialised one; \<open>k_held\<close>: the deep copies are
  allocated. From \<open>k_once\<close> on, the static variables: of \<open>voxsdk_init\<close>, of the resolver, the
  network monitor, the call list, the ICE shim, the application's audio device and the media tap.
\<close>

record core =
  k_lock :: bool
  k_initialized :: bool
  k_cfg :: "core_cfg option"
  k_held :: bool
  k_ev_thread :: bool
  k_re_thread :: bool
  k_re_mq :: bool
  k_accounts :: "(acct_id \<times> nat option) list"
  k_pcap :: "u8 list option"
  k_stats_tmr :: "u32 option"
  k_once :: bool
  k_dnsc :: bool
  k_net_started :: bool
  k_net_poll :: "u32 option"
  k_setup_tmr :: "u32 option"
  k_calls :: "call_id list"
  k_ice :: bool
  k_ext :: bool
  k_tap :: bool
  k_platform_aec :: bool
  k_platform_audio_mod :: string

definition core_zero :: core where
  "core_zero = \<lparr>k_lock = False, k_initialized = False, k_cfg = None, k_held = False, k_ev_thread = False, k_re_thread = False,
     k_re_mq = False, k_accounts = [], k_pcap = None, k_stats_tmr = None, k_once = False, k_dnsc = False,
     k_net_started = False, k_net_poll = None, k_setup_tmr = None, k_calls = [], k_ice = False, k_ext = False, k_tap = False,
     k_platform_aec = False, k_platform_audio_mod = []\<rparr>"

datatype core_eff =
    K_Lock bool
  | K_Unlock bool
  | K_Log bool
  | K_Libre bool
  | K_ConfPath string
  | K_Conf string
  | K_NoLinkLocal
  | K_Baresip bool
  | K_CallAccept
  | K_Timers core_cfg
  | K_AllTransports
  | K_Ua string
  | K_UaClose
  | K_TlsCa string
  | K_TlsNoVerify
  | K_Bevent bool
  | K_Trace bool
  | K_LoadModules "string list"
  | K_UnloadModules
  | K_ExtDevices bool
  | K_AudioMod string
  | K_DefaultDevs
  | K_IceHook bool
  | K_PlatformAudio
  | K_JbufFixed
  | K_Filters bool
  | K_TapFilter bool
  | K_MessageListen bool
  | K_PresenceHandler bool
  | K_HangupUa nat
  | K_CallDeref call_id

text \<open>
  What the build chose: the profile, the platform's audio module (\<open>PLATFORM_AUDIO[0]\<close>), whether it
  is one of the modules that are treated apart, and whether the canceller is compiled in.
\<close>

record build =
  bl_desktop :: bool
  bl_audio :: cptr
  bl_opensles :: bool
  bl_audiounit :: bool
  bl_wasapi :: bool
  bl_webrtc :: bool

text \<open>What start-up meets.\<close>

record init_env =
  ie_build :: build
  ie_sles :: bool
  ie_ok :: "nat \<Rightarrow> bool"
  ie_strv :: "nat \<Rightarrow> bool"
  ie_tmpdir :: cptr
  ie_ca :: cptr
  ie_libre :: "errno option"
  ie_baresip :: "errno option"
  ie_dnsc :: bool
  ie_ua :: "errno option"
  ie_tls :: bool
  ie_ev_thread :: bool
  ie_bevent :: "errno option"
  ie_sip :: bool
  ie_ext :: "errno option"
  ie_ice :: bool
  ie_message :: "errno option"
  ie_contacts :: bool
  ie_fopen :: fopened
  ie_mq :: "errno option"
  ie_re_thread :: bool

section \<open>Steps that can fail\<close>

type_synonym cstep = "core \<Rightarrow> errno option \<times> core \<times> core_eff list"

text \<open>\<open>if (err) goto fail;\<close> after every step.\<close>

definition then_ok :: "cstep \<Rightarrow> cstep \<Rightarrow> cstep" where
  "then_ok f g s =
     (case f s of
        (Some e, s', es) \<Rightarrow> (Some e, s', es)
      | (None, s', es) \<Rightarrow> (case g s' of (r, s'', es') \<Rightarrow> (r, s'', es @ es')))"

definition cmd :: "(core \<Rightarrow> core) \<Rightarrow> core_eff list \<Rightarrow> cstep" where
  "cmd f es s = (None, f s, es)"

fun steps :: "cstep list \<Rightarrow> cstep" where
  "steps [] = cmd id []"
| "steps (f # fs) = then_ok f (steps fs)"

text \<open>A call of the stack that may fail.\<close>

definition try_call :: "errno option \<Rightarrow> core_eff list \<Rightarrow> cstep" where
  "try_call r es s = (r, s, es)"

text \<open>A step that cannot fail.\<close>

definition act_step :: "(core \<Rightarrow> core \<times> core_eff list) \<Rightarrow> cstep" where
  "act_step f s = (case f s of (s', es) \<Rightarrow> (None, s', es))"

section \<open>The parts that are started and stopped\<close>

definition vox_re_loop_start :: "errno option \<Rightarrow> bool \<Rightarrow> cstep" where
  "vox_re_loop_start mq thread s =
     (case mq of
        Some e \<Rightarrow> (Some e, s, [])
      | None \<Rightarrow> if thread then (None, s\<lparr>k_re_mq := True, k_re_thread := True\<rparr>, []) else (Some ENOMEM, s\<lparr>k_re_mq := False\<rparr>, []))"

definition vox_re_loop_stop :: "core \<Rightarrow> core" where
  "vox_re_loop_stop s = (if \<not> k_re_thread s then s else s\<lparr>k_re_mq := False, k_re_thread := False\<rparr>)"

definition vox_event_init :: "bool \<Rightarrow> errno option \<Rightarrow> cstep" where
  "vox_event_init thread bevent s =
     (if \<not> thread then (Some ENOMEM, s, []) else (bevent, s\<lparr>k_ev_thread := True\<rparr>, [K_Bevent True]))"

definition vox_event_close :: "core \<Rightarrow> core \<times> core_eff list" where
  "vox_event_close s = ((if k_ev_thread s then s\<lparr>k_ev_thread := False\<rparr> else s), [K_Bevent False])"

definition vox_dns_init :: "bool \<Rightarrow> cstep" where
  "vox_dns_init dnsc s = ((if dnsc then None else Some ENOENT), s\<lparr>k_dnsc := dnsc\<rparr>, [])"

definition vox_audio_external_init :: "errno option \<Rightarrow> core \<Rightarrow> core \<times> core_eff list" where
  "vox_audio_external_init r s =
     (if k_ext s then (s, []) else (if r = None then (s\<lparr>k_ext := True\<rparr>, [K_ExtDevices True]) else (s, [K_ExtDevices True, K_ExtDevices False])))"

definition vox_audio_external_close :: "core \<Rightarrow> core \<times> core_eff list" where
  "vox_audio_external_close s = (if \<not> k_ext s then (s, []) else (s\<lparr>k_ext := False\<rparr>, [K_ExtDevices False]))"

text \<open>
  \<open>modules_init\<close>: the modules of the build, the application's device, and the module that audio
  will use. A module that does not load, and a device that cannot be registered, are only logged.
\<close>

definition COMMON_MODULES :: "string list" where
  "COMMON_MODULES = [''opus'', ''g711'', ''srtp'', ''dtls_srtp'', ''stun'', ''turn'', ''ice'', ''mwi'', ''presence'', ''uuid'']"

definition DESKTOP_EXTRA :: "string list" where
  "DESKTOP_EXTRA = [''aubridge'', ''auconv'', ''auresamp'']"

definition platform_modules :: "build \<Rightarrow> bool \<Rightarrow> string list" where
  "platform_modules b sles = (if bl_opensles b \<and> sles then [] else case bl_audio b of None \<Rightarrow> [] | Some m \<Rightarrow> [m])"

definition audio_mod :: "build \<Rightarrow> bool \<Rightarrow> cptr" where
  "audio_mod b sles = (if bl_opensles b \<and> sles then Some ''sles_vc'' else bl_audio b)"

definition load_modules :: "build \<Rightarrow> bool \<Rightarrow> bool \<Rightarrow> string list" where
  "load_modules b sles webrtc = COMMON_MODULES @ (if bl_desktop b then DESKTOP_EXTRA else []) @ platform_modules b sles @
     (if bl_desktop b \<and> bl_webrtc b \<and> webrtc then [''webrtc_aec''] else [])"

definition use_audio_mod :: "libre \<Rightarrow> build \<Rightarrow> cptr \<Rightarrow> (core, core_eff) act" where
  "use_audio_mod L b m s =
     (case m of
        None \<Rightarrow> (s, [])
      | Some m \<Rightarrow> (s\<lparr>k_platform_audio_mod := lb_ncpy L 32 m\<rparr>, K_AudioMod m # (if bl_wasapi b then [K_DefaultDevs] else [])))"

definition modules_init :: "libre \<Rightarrow> init_env \<Rightarrow> core_cfg \<Rightarrow> (core, core_eff) act" where
  "modules_init L E c =
     (let b = ie_build E; sles = ie_sles E
      in andthen (emit (K_LoadModules (load_modules b sles (cc_aec_webrtc c))))
        (andthen (upd (\<lambda>s. s\<lparr>k_platform_aec := (bl_opensles b \<and> sles \<or> bl_audiounit b)\<rparr>))
        (andthen (vox_audio_external_init (ie_ext E)) (use_audio_mod L b (audio_mod b sles)))))"

definition vox_platform_audio_mod :: "core \<Rightarrow> cptr" where
  "vox_platform_audio_mod s = (if k_platform_audio_mod s = [] then None else Some (k_platform_audio_mod s))"

text \<open>The ICE module's table is replaced unless it already is ours.\<close>

definition vox_ice_shim_init :: "bool \<Rightarrow> core \<Rightarrow> core \<times> core_eff list" where
  "vox_ice_shim_init ice s = (if \<not> ice \<or> k_ice s then (s, []) else (s\<lparr>k_ice := True\<rparr>, [K_IceHook True]))"

definition vox_ice_shim_close :: "core \<Rightarrow> core \<times> core_eff list" where
  "vox_ice_shim_close s = (if \<not> k_ice s then (s, []) else (s\<lparr>k_ice := False\<rparr>, [K_IceHook False]))"

definition ensure_tap_registered :: "core \<Rightarrow> core \<times> core_eff list" where
  "ensure_tap_registered s = (if k_tap s then (s, []) else (s\<lparr>k_tap := True\<rparr>, [K_TapFilter True]))"

definition vox_tap_global_reset :: "core \<Rightarrow> core \<times> core_eff list" where
  "vox_tap_global_reset s = (if k_tap s then (s\<lparr>k_tap := False\<rparr>, [K_TapFilter False]) else (s, []))"

definition vox_call_global_reset :: "core \<Rightarrow> core \<times> core_eff list" where
  "vox_call_global_reset s = (s\<lparr>k_calls := []\<rparr>, map K_CallDeref (k_calls s))"

definition netmon_start :: "core \<Rightarrow> core" where
  "netmon_start s =
     (let poll = (case k_cfg s of None \<Rightarrow> 0 | Some c \<Rightarrow> cc_net_monitor_interval_s c)
      in s\<lparr>k_net_started := True, k_net_poll := (if poll \<noteq> 0 then Some (poll * 1000) else None)\<rparr>)"

definition netmon_close :: "core \<Rightarrow> core" where
  "netmon_close s = s\<lparr>k_net_started := False, k_net_poll := None\<rparr>"

section \<open>Start-up\<close>

definition init_prepare :: "init_env \<Rightarrow> core_cfg \<Rightarrow> cstep" where
  "init_prepare E cfg = cmd (\<lambda>s. s\<lparr>k_cfg := Some (vox_cfg_deep_copy (ie_ok E) (ie_strv E) cfg), k_held := True, k_accounts := [], k_calls := [], k_setup_tmr := None\<rparr>) []"

text \<open>The configuration directory, and the platform's certificates when none are configured.\<close>

definition init_conf :: "libre \<Rightarrow> init_env \<Rightarrow> cstep" where
  "init_conf L E s =
     (case k_cfg s of
        None \<Rightarrow> (None, s, [])
      | Some c \<Rightarrow>
          (let dir = fst (lb_snprintf L 640 (vox_resolve_tmpdir L (cc_tmp_dir c) (ie_tmpdir E) @ ''/.voxsdk''));
               c' = (if cc_ca_cert_path c = None then c\<lparr>cc_ca_cert_path := ie_ca E\<rparr> else c)
           in (None, s\<lparr>k_cfg := Some c'\<rparr>, [K_ConfPath dir, K_Conf [CHR ''#'', CHR 0x0A], K_NoLinkLocal])))"

definition with_cfg :: "(core_cfg \<Rightarrow> cstep) \<Rightarrow> cstep" where
  "with_cfg f s = (case k_cfg s of None \<Rightarrow> (None, s, []) | Some c \<Rightarrow> f c s)"

definition init_tls :: "init_env \<Rightarrow> core_cfg \<Rightarrow> cstep" where
  "init_tls E c =
     cmd id (if ie_tls E then (case cc_ca_cert_path c of None \<Rightarrow> [] | Some p \<Rightarrow> [K_TlsCa p]) @ (if cc_verify_server c then [] else [K_TlsNoVerify]) else [])"

definition init_trace :: "init_env \<Rightarrow> core_cfg \<Rightarrow> cstep" where
  "init_trace E c s =
     (if \<not> cc_trace_sip c then (None, s, [])
      else (case vox_trace_init (cc_trace_sip c) (cc_pcap_path c) (ie_sip E) False of
              (r, hook) \<Rightarrow> (r, s, if hook then [K_Trace True] else [])))"

definition init_opus :: "libre \<Rightarrow> core_cfg \<Rightarrow> cstep" where
  "init_opus L c =
     (case opus_conf L c of (buf, olen) \<Rightarrow>
        cmd id ((if 0 < olen then [K_Conf (take (nat olen) buf)] else []) @ (if cc_jbuf_fixed c then [K_JbufFixed] else [])))"

definition init_audio :: "core \<Rightarrow> core \<times> core_eff list" where
  "init_audio s = (case ensure_tap_registered s of (s', es) \<Rightarrow> (s', K_Filters True # es))"

definition init_pcap :: "init_env \<Rightarrow> core_cfg \<Rightarrow> cstep" where
  "init_pcap E c s =
     (case vox_pcap_open (cc_pcap_path c) (ie_fopen E) (k_pcap s) of (r, f) \<Rightarrow> (r, s\<lparr>k_pcap := f\<rparr>, []))"

definition init_stats :: "core_cfg \<Rightarrow> cstep" where
  "init_stats c = cmd (\<lambda>s. if 0 < cc_stats_interval_ms c then s\<lparr>k_stats_tmr := Some (cc_stats_interval_ms c)\<rparr> else s) []"

text \<open>The body of \<open>voxsdk_init\<close>, step by step.\<close>

definition init_body :: "libre \<Rightarrow> init_env \<Rightarrow> core_cfg \<Rightarrow> cstep" where
  "init_body L E cfg = steps
     [init_prepare E cfg,
      cmd id [K_Log True],
      try_call (ie_libre E) [K_Libre True],
      init_conf L E,
      try_call (ie_baresip E) [K_Baresip True],
      cmd id [K_Conf [CHR ''#'', CHR 0x0A], K_CallAccept],
      vox_dns_init (ie_dnsc E),
      with_cfg (\<lambda>c. cmd id [K_Timers c, K_AllTransports]),
      with_cfg (\<lambda>c. try_call (ie_ua E) [K_Ua (case cc_user_agent c of Some u \<Rightarrow> u | None \<Rightarrow> ''VoxSDK/1.0'')]),
      with_cfg (init_tls E),
      vox_event_init (ie_ev_thread E) (ie_bevent E),
      with_cfg (init_trace E),
      with_cfg (\<lambda>c. act_step (modules_init L E c)),
      act_step (vox_ice_shim_init (ie_ice E)),
      cmd id [K_PlatformAudio],
      with_cfg (init_opus L),
      act_step init_audio,
      try_call (ie_message E) [K_MessageListen True],
      cmd id (if ie_contacts E then [K_PresenceHandler True] else []),
      with_cfg (init_pcap E),
      with_cfg init_stats,
      cmd netmon_start [],
      vox_re_loop_start (ie_mq E) (ie_re_thread E)]"

text \<open>\<open>memset(&g_vox, 0, sizeof(g_vox))\<close>.\<close>

definition zero_ctx :: "core \<Rightarrow> core" where
  "zero_ctx s = s\<lparr>k_lock := False, k_initialized := False, k_cfg := None, k_held := False, k_ev_thread := False, k_re_thread := False,
     k_re_mq := False, k_accounts := [], k_pcap := None, k_stats_tmr := None\<rparr>"

text \<open>The label \<open>fail\<close>.\<close>

definition init_fail :: "init_env \<Rightarrow> (core, core_eff) act" where
  "init_fail E =
     andthen (upd vox_re_loop_stop)
    (andthen (upd netmon_close)
    (andthen (upd (\<lambda>s. s\<lparr>k_setup_tmr := None, k_stats_tmr := None\<rparr>))
    (andthen (onlyif (ie_sip E) (emit (K_Trace False)))
    (andthen vox_event_close
    (andthen (emit K_UaClose)
    (andthen vox_call_global_reset
    (andthen vox_ice_shim_close
    (andthen (upd (\<lambda>s. s\<lparr>k_dnsc := False\<rparr>))
    (andthen (emit (K_Baresip False))
    (andthen (emit (K_Libre False))
    (andthen (emit (K_Log False))
    (andthen (upd (\<lambda>s. s\<lparr>k_pcap := snd (vox_pcap_close (k_pcap s)), k_held := False\<rparr>))
             (upd zero_ctx)))))))))))))"

definition init_cfg_ok :: "nat \<Rightarrow> core_cfg \<Rightarrow> bool" where
  "init_cfg_ok struct_size cfg \<longleftrightarrow> cc_event_cb cfg \<noteq> None \<and> cc_version cfg = VOXSDK_CONFIG_VERSION \<and>
     unat (cc_struct_size cfg) = struct_size \<and> 0 \<le> cc_audio_codec_count cfg \<and> cc_audio_codec_count cfg \<le> 8 \<and>
     0 \<le> cc_audio_codec_name_count cfg \<and> cc_audio_codec_name_count cfg \<le> 8"

definition init_once :: "core \<Rightarrow> core" where
  "init_once s = (if k_once s then s else s\<lparr>k_once := True, k_lock := True\<rparr>)"

definition voxsdk_init :: "libre \<Rightarrow> nat \<Rightarrow> init_env \<Rightarrow> core_cfg option \<Rightarrow> core \<Rightarrow> rc \<times> core \<times> core_eff list" where
  "voxsdk_init L struct_size E cfg s =
     (case cfg of
        None \<Rightarrow> (RC_vox ERR_INVAL, s, [])
      | Some c \<Rightarrow>
          if \<not> init_cfg_ok struct_size c then (RC_vox ERR_INVAL, s, [])
          else
            (let s0 = init_once s; lk = [K_Lock (k_lock s0)]
             in if k_initialized s0 then (RC_vox ERR_ALREADY, s0, lk @ [K_Unlock (k_lock s0)])
                else (case init_body L E c s0 of
                        (None, s1, es) \<Rightarrow> (RC_OK, s1\<lparr>k_initialized := True\<rparr>, lk @ es @ [K_Unlock (k_lock s1)])
                      | (Some e, s1, es) \<Rightarrow>
                          (case init_fail E s1 of (s2, es') \<Rightarrow> (RC_errno e, s2, lk @ es @ es' @ [K_Unlock (k_lock s2)])))))"

definition voxsdk_is_initialized :: "core \<Rightarrow> bool \<times> core_eff list" where
  "voxsdk_is_initialized s =
     (if \<not> k_initialized s then (False, []) else (k_initialized s, [K_Lock (k_lock s), K_Unlock (k_lock s)]))"

section \<open>Shutdown\<close>

definition shutdown_accounts :: "(core, core_eff) act" where
  "shutdown_accounts s =
     (s\<lparr>k_accounts := []\<rparr>, concat (map (\<lambda>(_, u). case u of None \<Rightarrow> [] | Some u \<Rightarrow> [K_HangupUa u]) (k_accounts s)))"

text \<open>\<open>sip\<close> and \<open>contacts\<close>: whether the stack still has them.\<close>

definition voxsdk_shutdown :: "bool \<Rightarrow> bool \<Rightarrow> (core, core_eff) act" where
  "voxsdk_shutdown sip contacts s =
     (if \<not> k_initialized s then (s, [K_Lock (k_lock s), K_Unlock (k_lock s)])
      else
        (andthen (emit (K_Lock (k_lock s)))
        (andthen (upd (\<lambda>s. s\<lparr>k_net_started := False\<rparr>))
        (andthen vox_event_close
        (andthen (upd (\<lambda>s. s\<lparr>k_stats_tmr := None\<rparr>))
        (andthen (onlyif sip (emit (K_Trace False)))
        (andthen (emit (K_MessageListen False))
        (andthen (onlyif contacts (emit (K_PresenceHandler False)))
        (andthen (emit (K_Filters False))
        (andthen shutdown_accounts
        (andthen (upd vox_re_loop_stop)
        (andthen (upd netmon_close)
        (andthen (upd (\<lambda>s. s\<lparr>k_setup_tmr := None\<rparr>))
        (andthen (emit K_UaClose)
        (andthen (emit K_UnloadModules)
        (andthen vox_audio_external_close
        (andthen vox_ice_shim_close
        (andthen (upd (\<lambda>s. s\<lparr>k_dnsc := False\<rparr>))
        (andthen (emit (K_Baresip False))
        (andthen (upd (\<lambda>s. s\<lparr>k_held := False, k_pcap := snd (vox_pcap_close (k_pcap s))\<rparr>))
        (andthen (emit (K_Libre False))
        (andthen (emit (K_Log False))
        (andthen vox_call_global_reset
        (andthen vox_tap_global_reset
        (andthen (upd (\<lambda>s. s\<lparr>k_initialized := False\<rparr>))
                 (emit (K_Unlock (k_lock s))))))))))))))))))))))))))) s)"

section \<open>Runs\<close>

text \<open>
  A run: the application starts and stops the SDK, and while it runs accounts and calls come and
  go, the setup watchdog is armed and captures are started and stopped.
\<close>

datatype core_in =
    C_Init init_env "core_cfg option"
  | C_Shutdown bool bool
  | C_Account acct_id "nat option"
  | C_Account_gone acct_id
  | C_Call call_id
  | C_Call_gone call_id
  | C_Watch u32
  | C_Pcap_start cptr fopened
  | C_Pcap_stop

fun core_step :: "libre \<Rightarrow> nat \<Rightarrow> core_in \<Rightarrow> (core, core_eff) act" where
  "core_step L n (C_Init E c) s = snd (voxsdk_init L n E c s)"
| "core_step L n (C_Shutdown sip contacts) s = voxsdk_shutdown sip contacts s"
| "core_step L n (C_Account a u) s = (s\<lparr>k_accounts := k_accounts s @ [(a, u)]\<rparr>, [])"
| "core_step L n (C_Account_gone a) s = (s\<lparr>k_accounts := filter (\<lambda>x. fst x \<noteq> a) (k_accounts s)\<rparr>, [])"
| "core_step L n (C_Call h) s = (s\<lparr>k_calls := k_calls s @ [h]\<rparr>, [])"
| "core_step L n (C_Call_gone h) s = (s\<lparr>k_calls := remove1 h (k_calls s)\<rparr>, [K_CallDeref h])"
| "core_step L n (C_Watch t) s = (s\<lparr>k_setup_tmr := Some t\<rparr>, [])"
| "core_step L n (C_Pcap_start p f) s = (s\<lparr>k_pcap := snd (voxsdk_pcap_start p f (k_pcap s))\<rparr>, [])"
| "core_step L n C_Pcap_stop s = (s\<lparr>k_pcap := snd (voxsdk_pcap_stop (k_pcap s))\<rparr>, [])"

text \<open>Everything but starting and stopping needs a started SDK.\<close>

fun core_ok :: "core_in \<Rightarrow> core \<Rightarrow> bool" where
  "core_ok (C_Init E c) s = True"
| "core_ok (C_Shutdown sip contacts) s = True"
| "core_ok i s = k_initialized s"

text \<open>What the SDK holds before its first start and after every stop: nothing.\<close>

definition idle :: "core \<Rightarrow> bool" where
  "idle s \<longleftrightarrow> \<not> k_initialized s \<and> \<not> k_held s \<and> \<not> k_ev_thread s \<and> \<not> k_re_thread s \<and> \<not> k_re_mq s \<and> k_accounts s = [] \<and>
     k_calls s = [] \<and> k_pcap s = None \<and> k_stats_tmr s = None \<and> k_setup_tmr s = None \<and> k_net_poll s = None \<and>
     \<not> k_dnsc s \<and> \<not> k_net_started s \<and> \<not> k_ice s"

definition running :: "core \<Rightarrow> bool" where
  "running s \<longleftrightarrow> k_initialized s \<and> k_held s \<and> k_cfg s \<noteq> None \<and> k_ev_thread s \<and> k_re_thread s \<and> k_re_mq s \<and> k_dnsc s \<and> k_net_started s"

text \<open>An environment in which every step of start-up can succeed.\<close>

definition stack_willing :: "init_env \<Rightarrow> bool" where
  "stack_willing E \<longleftrightarrow> ie_libre E = None \<and> ie_baresip E = None \<and> ie_dnsc E \<and> ie_ua E = None \<and> ie_ev_thread E \<and> ie_bevent E = None \<and>
     ie_sip E"

definition willing :: "init_env \<Rightarrow> bool" where
  "willing E \<longleftrightarrow> stack_willing E \<and> ie_message E = None \<and> ie_fopen E = F_ok \<and> ie_mq E = None \<and> ie_re_thread E"

section \<open>Lemmas\<close>

lemmas step_defs = cmd_def try_call_def with_cfg_def act_step_def

lemmas init_defs = init_prepare_def init_conf_def vox_dns_init_def init_tls_def vox_event_init_def init_trace_def
  modules_init_def use_audio_mod_def vox_audio_external_init_def vox_ice_shim_init_def init_opus_def init_audio_def
  ensure_tap_registered_def init_pcap_def init_stats_def netmon_start_def vox_re_loop_start_def

lemma then_ok_None:
  "then_ok f g s = (None, s2, es) \<longleftrightarrow> (\<exists>s1 es1 es2. f s = (None, s1, es1) \<and> g s1 = (None, s2, es2) \<and> es = es1 @ es2)"
  by (auto simp: then_ok_def split: prod.splits option.splits)

lemma then_ok_parts:
  "fst (then_ok f g s) = (if fst (f s) = None then fst (g (fst (snd (f s)))) else fst (f s))"
  "fst (snd (then_ok f g s)) = (if fst (f s) = None then fst (snd (g (fst (snd (f s))))) else fst (snd (f s)))"
  "snd (snd (then_ok f g s)) = snd (snd (f s)) @ (if fst (f s) = None then snd (snd (g (fst (snd (f s))))) else [])"
  by (auto simp: then_ok_def split: prod.splits option.splits)

text \<open>A step that keeps \<open>P\<close> and, under \<open>P\<close>, never has the effect \<open>e\<close>.\<close>

definition quiet :: "(core \<Rightarrow> bool) \<Rightarrow> core_eff set \<Rightarrow> cstep \<Rightarrow> bool" where
  "quiet P X f \<longleftrightarrow> (\<forall>s. P s \<longrightarrow> P (fst (snd (f s))) \<and> set (snd (snd (f s))) \<inter> X = {})"

lemma quiet_then: "quiet P X f \<Longrightarrow> quiet P X g \<Longrightarrow> quiet P X (then_ok f g)"
  unfolding quiet_def then_ok_parts by (auto simp: Int_Un_distrib2)

lemma quiet_steps: "\<forall>f \<in> set fs. quiet P X f \<Longrightarrow> quiet P X (steps fs)"
proof (induction fs)
  case Nil
  then show ?case by (simp add: quiet_def cmd_def)
next
  case (Cons f fs)
  then show ?case by (simp add: quiet_then)
qed

lemma quiet_with_cfg: "(\<And>c. quiet P X (f c)) \<Longrightarrow> quiet P X (with_cfg f)"
  by (simp add: quiet_def with_cfg_def split: option.splits)

text \<open>A step after which \<open>Q\<close> holds when it succeeds, and a sequence in which it is kept.\<close>

definition gives :: "cstep \<Rightarrow> (core \<Rightarrow> bool) \<Rightarrow> bool" where
  "gives f Q \<longleftrightarrow> (\<forall>s s' es. f s = (None, s', es) \<longrightarrow> Q s')"

lemma gives_later: "gives g Q \<Longrightarrow> gives (then_ok f g) Q"
  unfolding gives_def then_ok_None by blast

lemma gives_now: "gives f Q \<Longrightarrow> quiet Q {} g \<Longrightarrow> gives (then_ok f g) Q"
  unfolding gives_def then_ok_None quiet_def by (metis fst_conv snd_conv)

lemma gives_steps: "gives f Q \<Longrightarrow> \<forall>g \<in> set gs. quiet Q {} g \<Longrightarrow> gives (steps (fs @ f # gs)) Q"
  by (induction fs) (simp_all add: gives_now gives_later quiet_steps)

text \<open>A step that cannot fail where \<open>P\<close> holds, and keeps it.\<close>

definition sure :: "(core \<Rightarrow> bool) \<Rightarrow> cstep \<Rightarrow> bool" where
  "sure P f \<longleftrightarrow> (\<forall>s. P s \<longrightarrow> fst (f s) = None \<and> P (fst (snd (f s))))"

lemma sure_then: "sure P f \<Longrightarrow> sure P g \<Longrightarrow> sure P (then_ok f g)"
  unfolding sure_def then_ok_parts by auto

lemma sure_steps: "\<forall>f \<in> set fs. sure P f \<Longrightarrow> sure P (steps fs)"
proof (induction fs)
  case Nil
  then show ?case by (simp add: sure_def cmd_def)
next
  case (Cons f fs)
  then show ?case by (simp add: sure_then)
qed

lemma steps_append: "steps (fs @ gs) s = then_ok (steps fs) (steps gs) s"
  by (induction fs arbitrary: s) (auto simp: then_ok_def cmd_def split: prod.splits option.splits)

subsection \<open>Stopping\<close>

lemma closes:
  "fst (vox_event_close s) = s\<lparr>k_ev_thread := False\<rparr>"
  "fst (vox_ice_shim_close s) = s\<lparr>k_ice := False\<rparr>"
  "fst (vox_audio_external_close s) = s\<lparr>k_ext := False\<rparr>"
  "fst (vox_tap_global_reset s) = s\<lparr>k_tap := False\<rparr>"
  "fst (vox_call_global_reset s) = s\<lparr>k_calls := []\<rparr>"
  "fst (shutdown_accounts s) = s\<lparr>k_accounts := []\<rparr>"
  by (cases s; simp add: vox_event_close_def vox_ice_shim_close_def vox_audio_external_close_def vox_tap_global_reset_def
      vox_call_global_reset_def shutdown_accounts_def)+

lemma loop_stop: "vox_re_loop_stop s = s\<lparr>k_re_thread := False, k_re_mq := (k_re_mq s \<and> \<not> k_re_thread s)\<rparr>"
  by (cases s) (simp add: vox_re_loop_stop_def)

lemma fst_small: "fst (emit e s) = s" "fst (upd f s) = f s" "fst (onlyif b (emit e) s) = s"
  by (simp_all add: act_defs)

lemmas stop_simps = fst_andthen fst_small closes loop_stop netmon_close_def

lemma init_fail_idle: "idle (fst (init_fail E s))"
  unfolding init_fail_def by (simp add: stop_simps zero_ctx_def idle_def)

lemma init_fail_keeps:
  "k_ext (fst (init_fail E s)) = k_ext s" "k_tap (fst (init_fail E s)) = k_tap s"
  "k_once (fst (init_fail E s)) = k_once s" "k_lock (fst (init_fail E s)) = False"
  unfolding init_fail_def by (simp_all add: stop_simps zero_ctx_def)

lemma shutdown_idle: "running s \<Longrightarrow> idle (fst (voxsdk_shutdown sip contacts s))"
  by (simp add: voxsdk_shutdown_def stop_simps running_def idle_def vox_pcap_close_def)

subsection \<open>Starting\<close>

text \<open>The steps before the capture is opened, and after it.\<close>

definition first_steps :: "init_env \<Rightarrow> core_cfg \<Rightarrow> libre \<Rightarrow> cstep list" where
  "first_steps E cfg L =
     [init_prepare E cfg, cmd id [K_Log True], try_call (ie_libre E) [K_Libre True], init_conf L E,
      try_call (ie_baresip E) [K_Baresip True], cmd id [K_Conf [CHR ''#'', CHR 0x0A], K_CallAccept]]"

definition stack_steps :: "init_env \<Rightarrow> cstep list" where
  "stack_steps E =
     [with_cfg (\<lambda>c. cmd id [K_Timers c, K_AllTransports]),
      with_cfg (\<lambda>c. try_call (ie_ua E) [K_Ua (case cc_user_agent c of Some u \<Rightarrow> u | None \<Rightarrow> ''VoxSDK/1.0'')]),
      with_cfg (init_tls E)]"

definition media_steps :: "init_env \<Rightarrow> libre \<Rightarrow> cstep list" where
  "media_steps E L =
     [with_cfg (init_trace E), with_cfg (\<lambda>c. act_step (modules_init L E c)), act_step (vox_ice_shim_init (ie_ice E)),
      cmd id [K_PlatformAudio], with_cfg (init_opus L), act_step init_audio]"

definition notify_steps :: "init_env \<Rightarrow> cstep list" where
  "notify_steps E = [try_call (ie_message E) [K_MessageListen True], cmd id (if ie_contacts E then [K_PresenceHandler True] else [])]"

definition last_steps :: "init_env \<Rightarrow> cstep list" where
  "last_steps E = [with_cfg init_stats, cmd netmon_start [], vox_re_loop_start (ie_mq E) (ie_re_thread E)]"

lemmas group_defs = first_steps_def stack_steps_def media_steps_def notify_steps_def last_steps_def

lemma audio_steps_keep:
  "fst (modules_init L E c s) = s\<lparr>k_platform_aec := k_platform_aec (fst (modules_init L E c s)),
     k_platform_audio_mod := k_platform_audio_mod (fst (modules_init L E c s)), k_ext := k_ext (fst (modules_init L E c s))\<rparr>"
  "fst (vox_ice_shim_init b s) = s\<lparr>k_ice := k_ice (fst (vox_ice_shim_init b s))\<rparr>"
  "fst (init_audio s) = s\<lparr>k_tap := True\<rparr>"
  by (cases s; simp add: modules_init_def use_audio_mod_def vox_audio_external_init_def vox_ice_shim_init_def init_audio_def
      ensure_tap_registered_def act_defs Let_def split: option.splits)+

lemma audio_fields:
  "k_held (fst (modules_init L E c s)) = k_held s" "k_held (fst (vox_ice_shim_init b s)) = k_held s"
  "k_cfg (fst (modules_init L E c s)) = k_cfg s" "k_cfg (fst (vox_ice_shim_init b s)) = k_cfg s"
  "k_dnsc (fst (modules_init L E c s)) = k_dnsc s" "k_dnsc (fst (vox_ice_shim_init b s)) = k_dnsc s"
  "k_ev_thread (fst (modules_init L E c s)) = k_ev_thread s" "k_ev_thread (fst (vox_ice_shim_init b s)) = k_ev_thread s"
  "k_pcap (fst (modules_init L E c s)) = k_pcap s" "k_pcap (fst (vox_ice_shim_init b s)) = k_pcap s"
  "k_once (fst (modules_init L E c s)) = k_once s" "k_once (fst (vox_ice_shim_init b s)) = k_once s"
  "k_lock (fst (modules_init L E c s)) = k_lock s" "k_lock (fst (vox_ice_shim_init b s)) = k_lock s"
  "k_tap (fst (modules_init L E c s)) = k_tap s" "k_tap (fst (vox_ice_shim_init b s)) = k_tap s" "k_ext (fst (vox_ice_shim_init b s)) = k_ext s"
  by (subst audio_steps_keep, simp)+

text \<open>Which fields each step leaves alone.\<close>

lemma step_keeps:
  "fst (snd (try_call r es s)) = s" "fst (snd (cmd id es s)) = s"
  "fst (snd (init_tls E c s)) = s" "fst (snd (init_trace E c s)) = s" "fst (snd (init_opus L c s)) = s"
  "fst (snd (vox_dns_init b s)) = s\<lparr>k_dnsc := b\<rparr>"
  "fst (snd (act_step f s)) = fst (f s)"
  "fst (snd (init_pcap E c s)) = s\<lparr>k_pcap := snd (vox_pcap_open (cc_pcap_path c) (ie_fopen E) (k_pcap s))\<rparr>"
  "fst (snd (cmd netmon_start es s)) = netmon_start s"
  by (simp_all add: try_call_def cmd_def init_tls_def init_trace_def init_opus_def vox_dns_init_def act_step_def init_pcap_def
      split: prod.splits)

lemma quiet_no_effect: "quiet P {} f \<longleftrightarrow> (\<forall>s. P s \<longrightarrow> P (fst (snd (f s))))"
  by (simp add: quiet_def)

lemmas keep_simps = quiet_no_effect step_keeps with_cfg_def audio_fields audio_steps_keep(3) init_conf_def vox_event_init_def
  init_stats_def cmd_def netmon_start_def vox_re_loop_start_def Let_def

lemma first_keeps: "\<forall>f \<in> set (tl (first_steps E c L)). quiet (\<lambda>s. k_held s \<and> k_cfg s \<noteq> None) {} f"
  unfolding group_defs by (auto simp: keep_simps split: option.splits)

lemma dns_keeps: "quiet (\<lambda>s. k_held s \<and> k_cfg s \<noteq> None) {} (vox_dns_init b)"
  by (simp add: keep_simps)

definition late_steps :: "init_env \<Rightarrow> libre \<Rightarrow> cstep list" where
  "late_steps E L = media_steps E L @ notify_steps E @ with_cfg (init_pcap E) # last_steps E"

lemma late_keeps:
  "\<forall>f \<in> set (stack_steps E @ vox_event_init t b # late_steps E L). quiet (\<lambda>s. k_held s \<and> k_cfg s \<noteq> None) {} f"
  "\<forall>f \<in> set (stack_steps E @ vox_event_init t b # late_steps E L). quiet k_dnsc {} f"
  "\<forall>f \<in> set (late_steps E L). quiet k_ev_thread {} f"
  unfolding late_steps_def group_defs by (auto simp: keep_simps split: option.splits)

lemma init_body_early:
  "init_body L E c = steps (init_prepare E c # tl (first_steps E c L) @ vox_dns_init (ie_dnsc E) #
     stack_steps E @ vox_event_init (ie_ev_thread E) (ie_bevent E) # late_steps E L)"
  by (simp only: init_body_def late_steps_def group_defs append_Cons append_Nil list.sel)

lemma init_body_gives:
  "gives (init_body L E c) (\<lambda>s. k_held s \<and> k_cfg s \<noteq> None)"
  "gives (init_body L E c) k_dnsc"
  "gives (init_body L E c) k_ev_thread"
  "gives (init_body L E c) (\<lambda>s. k_net_started s \<and> k_re_mq s \<and> k_re_thread s)"
proof -
  let ?dns = "vox_dns_init (ie_dnsc E)" and ?ev = "vox_event_init (ie_ev_thread E) (ie_bevent E)"
  have "gives (init_prepare E c) (\<lambda>s. k_held s \<and> k_cfg s \<noteq> None)"
    by (auto simp: gives_def init_prepare_def cmd_def)
  then show "gives (init_body L E c) (\<lambda>s. k_held s \<and> k_cfg s \<noteq> None)"
    unfolding init_body_early
    using gives_steps[where fs = "[]"] first_keeps late_keeps(1) dns_keeps by (auto simp: ball_Un)
  have "gives ?dns k_dnsc" by (auto simp: gives_def vox_dns_init_def split: if_splits)
  then show "gives (init_body L E c) k_dnsc"
    unfolding init_body_early
    using gives_steps[where fs = "init_prepare E c # tl (first_steps E c L)"] late_keeps(2) by simp
  have "gives ?ev k_ev_thread" by (auto simp: gives_def vox_event_init_def split: if_splits)
  then show "gives (init_body L E c) k_ev_thread"
    unfolding init_body_early
    using gives_steps[where fs = "init_prepare E c # tl (first_steps E c L) @ ?dns # stack_steps E"] late_keeps(3) by simp
  have "gives (steps [cmd netmon_start [], vox_re_loop_start (ie_mq E) (ie_re_thread E)]) (\<lambda>s. k_net_started s \<and> k_re_mq s \<and> k_re_thread s)"
    by (auto simp: gives_def then_ok_def cmd_def netmon_start_def vox_re_loop_start_def Let_def split: option.splits if_splits)
  then show "gives (init_body L E c) (\<lambda>s. k_net_started s \<and> k_re_mq s \<and> k_re_thread s)"
    unfolding init_body_def by (simp add: gives_later)
qed

lemma init_body_up:
  assumes b: "init_body L E c s = (None, s', es)"
  shows "running (s'\<lparr>k_initialized := True\<rparr>)"
proof -
  have "Q s'" if "gives (init_body L E c) Q" for Q using that b unfolding gives_def by blast
  from this[OF init_body_gives(1)] this[OF init_body_gives(2)] this[OF init_body_gives(3)] this[OF init_body_gives(4)]
  show ?thesis by (simp add: running_def)
qed

lemma init_outcomes:
  assumes "voxsdk_init L n E cfg s = (r, s', es)"
  shows "s' = s \<or> s' = init_once s \<and> k_initialized s' \<or> idle s' \<or> running s'"
proof (cases cfg)
  case None
  with assms show ?thesis by (simp add: voxsdk_init_def)
next
  case (Some c)
  show ?thesis
  proof (cases "init_cfg_ok n c \<and> \<not> k_initialized (init_once s)")
    case False
    with assms Some show ?thesis by (auto simp: voxsdk_init_def Let_def split: if_splits)
  next
    case True
    obtain b s1 es1 where b: "init_body L E c (init_once s) = (b, s1, es1)" by (metis prod_cases3)
    show ?thesis
    proof (cases b)
      case None
      with b have "running (s1\<lparr>k_initialized := True\<rparr>)" by (simp add: init_body_up)
      with assms Some True b None show ?thesis by (auto simp: voxsdk_init_def Let_def)
    next
      case (Some e)
      have "idle (fst (init_fail E s1))" by (rule init_fail_idle)
      with assms \<open>cfg = Some c\<close> True b Some show ?thesis
        by (auto simp: voxsdk_init_def Let_def split: prod.splits)
    qed
  qed
qed

lemma init_once_keeps: "idle (init_once s) = idle s" "running (init_once s) = running s" "k_initialized (init_once s) = k_initialized s"
  by (simp_all add: init_once_def idle_def running_def)

definition core_wf :: "core \<Rightarrow> bool" where
  "core_wf s \<longleftrightarrow> (if k_initialized s then running s else idle s)"

lemma core_wf_cases: "idle s \<Longrightarrow> core_wf s" "running s \<Longrightarrow> core_wf s"
  by (simp_all add: core_wf_def idle_def running_def)

lemma core_step_wf: "core_wf s \<Longrightarrow> core_ok i s \<Longrightarrow> core_wf (fst (core_step L n i s))"
proof (cases i)
  case (C_Init E c)
  assume wf: "core_wf s"
  obtain r s' es where i: "voxsdk_init L n E c s = (r, s', es)" by (metis prod_cases3)
  from init_outcomes[OF i] wf have "core_wf s'"
    by (elim disjE) (auto simp: core_wf_cases, simp add: core_wf_def init_once_keeps)
  with C_Init i show ?thesis by simp
next
  case (C_Shutdown sip contacts)
  assume wf: "core_wf s"
  show ?thesis
  proof (cases "k_initialized s")
    case True
    with wf have "running s" by (simp add: core_wf_def)
    then have "idle (fst (voxsdk_shutdown sip contacts s))" by (rule shutdown_idle)
    then show ?thesis by (simp add: C_Shutdown core_wf_cases)
  next
    case False
    with wf show ?thesis by (simp add: C_Shutdown voxsdk_shutdown_def)
  qed
qed (simp_all add: core_wf_def running_def)

interpretation sdk: invariant_machine "core_step L n" core_ok core_wf
  by unfold_locales (rule core_step_wf)

lemma core_zero_wf: "core_wf core_zero"
  by (simp add: core_wf_def core_zero_def idle_def)

subsection \<open>Steps that succeed, and steps that are silent\<close>

lemma willing_sure:
  assumes "stack_willing E" and "f \<in> set (first_steps E c' L) \<union> {vox_dns_init (ie_dnsc E)} \<union> set (stack_steps E) \<union>
      {vox_event_init (ie_ev_thread E) (ie_bevent E)} \<union> set (media_steps E L)"
  shows "sure (\<lambda>s. k_pcap s = None) f"
  using assms unfolding group_defs stack_willing_def
  by (auto simp: sure_def keep_simps init_prepare_def try_call_def vox_dns_init_def init_tls_def init_trace_def vox_trace_init_def
      act_step_def init_opus_def split: option.splits prod.splits)

lemma willing_notify: "willing E \<Longrightarrow> f \<in> set (notify_steps E) \<Longrightarrow> sure P f"
  by (auto simp: group_defs willing_def sure_def try_call_def cmd_def)

lemma willing_stack: "willing E \<Longrightarrow> stack_willing E"
  by (simp add: willing_def)

lemma willing_last: "willing E \<Longrightarrow> \<forall>f \<in> set (last_steps E). sure (\<lambda>s. True) f"
  unfolding group_defs willing_def by (auto simp: sure_def with_cfg_def init_stats_def cmd_def vox_re_loop_start_def split: option.splits)

lemma sure_chain:
  assumes "\<forall>g \<in> set pre. sure P g" and "\<And>t. P t \<Longrightarrow> fst (f t) = None" and "\<forall>g \<in> set post. sure (\<lambda>s. True) g" and "P s"
  shows "fst (steps (pre @ f # post) s) = None"
proof -
  from sure_steps[OF assms(1)] assms(4) have "fst (steps pre s) = None" "P (fst (snd (steps pre s)))" by (simp_all add: sure_def)
  moreover from sure_steps[OF assms(3)] have "fst (steps post t) = None" for t by (simp add: sure_def)
  ultimately show ?thesis using assms(2) by (simp add: steps_append then_ok_parts)
qed

lemma init_body_willing: "willing E \<Longrightarrow> k_pcap s = None \<Longrightarrow> fst (init_body L E c s) = None"
proof -
  assume w: "willing E" and p: "k_pcap s = None"
  let ?P = "\<lambda>s. k_pcap s = None"
  let ?pre = "first_steps E c L @ vox_dns_init (ie_dnsc E) # stack_steps E @ vox_event_init (ie_ev_thread E) (ie_bevent E) #
     media_steps E L @ notify_steps E"
  have split: "init_body L E c = steps (?pre @ with_cfg (init_pcap E) # last_steps E)"
    by (simp only: init_body_def group_defs append_Cons append_Nil)
  have open_ok: "fst (with_cfg (init_pcap E) t) = None" if "?P t" for t
    using w that by (auto simp: willing_def with_cfg_def init_pcap_def vox_pcap_open_def split: option.splits)
  show ?thesis unfolding split
    by (rule sure_chain[where P = ?P]) (use w p in \<open>auto intro: willing_sure willing_notify willing_stack open_ok simp: willing_last\<close>)
qed

text \<open>What the failure path leaves in the audio stack is not registered again.\<close>

lemmas effect_simps = init_prepare_def step_defs init_conf_def vox_dns_init_def init_tls_def vox_event_init_def init_trace_def
  modules_init_def use_audio_mod_def vox_audio_external_init_def vox_ice_shim_init_def init_opus_def init_audio_def
  ensure_tap_registered_def init_pcap_def init_stats_def netmon_start_def vox_re_loop_start_def act_defs Let_def

abbreviation audio_again :: "core_eff set" where
  "audio_again \<equiv> {K_ExtDevices True, K_TapFilter True, K_Lock True}"

lemma audio_once: "quiet (\<lambda>s. k_ext s \<and> k_tap s) audio_again f" if "f \<in> set (first_steps E c L) \<union> {vox_dns_init (ie_dnsc E)} \<union>
    set (stack_steps E) \<union> {vox_event_init (ie_ev_thread E) (ie_bevent E)} \<union> set (late_steps E L)"
  using that unfolding late_steps_def group_defs
  by (auto simp: quiet_def effect_simps split: option.splits prod.splits if_splits)

lemma init_body_audio_once: "quiet (\<lambda>s. k_ext s \<and> k_tap s) audio_again (init_body L E c)"
proof -
  have "init_prepare E c # tl (first_steps E c L) = first_steps E c L" by (simp add: group_defs)
  then have "init_body L E c = steps (first_steps E c L @ vox_dns_init (ie_dnsc E) # stack_steps E @
      vox_event_init (ie_ev_thread E) (ie_bevent E) # late_steps E L)"
    unfolding init_body_early by (metis append_Cons)
  then show ?thesis by (simp only:) (intro quiet_steps ballI audio_once, auto)
qed

lemma stop_effects:
  "snd (emit e s) = [e]" "snd (upd f s) = []" "set (snd (onlyif b (emit e) s)) \<subseteq> {e}"
  "set (snd (vox_event_close s)) \<subseteq> {K_Bevent False}" "set (snd (vox_ice_shim_close s)) \<subseteq> {K_IceHook False}"
  "set (snd (vox_call_global_reset s)) \<subseteq> range K_CallDeref"
  by (auto simp: act_defs vox_event_close_def vox_ice_shim_close_def vox_call_global_reset_def)

lemma init_fail_effects:
  "set (snd (init_fail E s)) \<subseteq> {K_Trace False, K_Bevent False, K_UaClose, K_IceHook False, K_Baresip False, K_Libre False, K_Log False} \<union> range K_CallDeref"
  unfolding init_fail_def snd_andthen set_append stop_effects
  by (intro Un_least; (rule subset_trans[OF stop_effects(3)] subset_trans[OF stop_effects(4)] subset_trans[OF stop_effects(5)]
        subset_trans[OF stop_effects(6)])?; auto)

lemma init_fail_audio: "set (snd (init_fail E s)) \<inter> audio_again = {}"
proof -
  have "x \<notin> audio_again" if "x \<in> {K_Trace False, K_Bevent False, K_UaClose, K_IceHook False, K_Baresip False, K_Libre False, K_Log False} \<union> range K_CallDeref" for x
    using that by auto
  then show ?thesis using init_fail_effects[of E s] by blast
qed

text \<open>A copy of the configuration with the trace switched off installs no trace hook.\<close>

definition cfg_has :: "cptr \<Rightarrow> bool \<Rightarrow> core \<Rightarrow> bool" where
  "cfg_has p trace s \<longleftrightarrow> (\<exists>d. k_cfg s = Some d \<and> cc_pcap_path d = p \<and> cc_trace_sip d = trace)"

lemma untraced: "quiet (cfg_has p False) {K_Trace True} f" if "f \<in> set (tl (first_steps E c L)) \<union> {vox_dns_init (ie_dnsc E)} \<union>
    set (stack_steps E) \<union> {vox_event_init (ie_ev_thread E) (ie_bevent E)} \<union> set (late_steps E L)"
  using that unfolding late_steps_def group_defs
  by (auto simp: quiet_def cfg_has_def effect_simps split: option.splits prod.splits if_splits)

text \<open>The state in which a start without a willing message listener fails.\<close>

lemma media_gives:
  "gives (steps (fs @ media_steps E L)) k_tap"
  "ie_ext E = None \<Longrightarrow> gives (steps (fs @ media_steps E L)) (\<lambda>s. k_ext s \<or> k_cfg s = None)"
proof -
  let ?a = "[with_cfg (init_trace E)]"
    and ?b = "[act_step (vox_ice_shim_init (ie_ice E)), cmd id [K_PlatformAudio], with_cfg (init_opus L)]"
    and ?m = "with_cfg (\<lambda>c. act_step (modules_init L E c))"
  have "gives (act_step init_audio) k_tap" by (auto simp: gives_def effect_simps split: if_splits)
  from gives_steps[OF this, of "[]" "fs @ ?a @ ?m # ?b"] show "gives (steps (fs @ media_steps E L)) k_tap"
    by (simp add: group_defs)
  assume "ie_ext E = None"
  then have "gives ?m (\<lambda>s. k_ext s \<or> k_cfg s = None)" by (auto simp: gives_def effect_simps split: if_splits option.splits)
  moreover have "\<forall>g \<in> set (?b @ [act_step init_audio]). quiet (\<lambda>s. k_ext s \<or> k_cfg s = None) {} g"
    by (auto simp: quiet_no_effect step_keeps with_cfg_def audio_fields audio_steps_keep(3) split: option.splits)
  ultimately show "gives (steps (fs @ media_steps E L)) (\<lambda>s. k_ext s \<or> k_cfg s = None)"
    using gives_steps[of ?m _ "?b @ [act_step init_audio]" "fs @ ?a"] by (simp add: group_defs)
qed

section \<open>The lines for Opus\<close>

lemma opus_fold:
  assumes "libre_laws L"
  shows "length t + length (concat (map snd (filter fst ls))) < 256 \<Longrightarrow>
     fold (\<lambda>(w, l). opus_put L w l) ls (t, int (length t)) =
       (t @ concat (map snd (filter fst ls)), int (length t + length (concat (map snd (filter fst ls)))))"
proof (induction ls arbitrary: t)
  case Nil
  then show ?case by simp
next
  case (Cons x ls)
  obtain w l where x: "x = (w, l)" by (cases x)
  show ?case
  proof (cases w)
    case False
    with Cons x show ?thesis by (simp add: opus_put_def)
  next
    case True
    with Cons.prems x have "length l < nat (256 - int (length t))" by simp
    with assms have "lb_snprintf L (nat (256 - int (length t))) l = (l, int (length l))" by (rule libre_snprintf_fits)
    with True x Cons.prems Cons.IH[of "t @ l"] show ?thesis by (simp add: opus_put_def)
  qed
qed

lemma show_param: "0 \<le> i \<Longrightarrow> i < 2 ^ 31 \<Longrightarrow> length (show_int i) \<le> 10"
proof -
  assume "0 \<le> i" "i < 2 ^ 31"
  then have "nat i < 10 ^ 10" by simp
  then show ?thesis using \<open>0 \<le> i\<close> length_show_nat_less[of "nat i" 10] by (simp add: show_int_def)
qed

lemma wanted_length:
  "list_all2 (\<lambda>x k. fst x \<longrightarrow> length (snd x) \<le> k) ls ks \<Longrightarrow> length (concat (map snd (filter fst ls))) \<le> sum_list ks"
  by (induction ls ks rule: list_all2_induct) auto

lemma opus_lines_fit:
  assumes "op_bitrate (cc_opus c) < 2 ^ 31" and "op_complexity (cc_opus c) < 2 ^ 31"
  shows "length (concat (map snd (filter fst (opus_lines c)))) \<le> 133"
proof -
  let ?pl = "cc_opus_expected_loss_pct c"
  have "unat (if 100 < ?pl then 100 else ?pl) \<le> 100" by (auto simp: word_less_nat_alt not_less)
  then have "length (show_nat (unat (if 100 < ?pl then 100 else ?pl))) \<le> 3" by (intro length_show_nat_less) simp_all
  moreover have "0 < op_bitrate (cc_opus c) \<Longrightarrow> length (show_int (op_bitrate (cc_opus c))) \<le> 10"
    "0 \<le> op_complexity (cc_opus c) \<Longrightarrow> length (show_int (op_complexity (cc_opus c))) \<le> 10"
    using assms show_param by simp_all
  ultimately have "list_all2 (\<lambda>x k. fst x \<longrightarrow> length (snd x) \<le> k) (opus_lines c) [24, 27, 13, 13, 19, 21, 16]"
    by (auto simp: opus_lines_def Let_def)
  from wanted_length[OF this] show ?thesis by simp
qed

subsection \<open>A start that fails once audio is set up\<close>

definition audio_prefix :: "init_env \<Rightarrow> core_cfg \<Rightarrow> libre \<Rightarrow> cstep list" where
  "audio_prefix E c L = first_steps E c L @ vox_dns_init (ie_dnsc E) # stack_steps E @
     vox_event_init (ie_ev_thread E) (ie_bevent E) # media_steps E L"

lemma audio_prefix_cfg: "gives (steps (audio_prefix E c L)) (\<lambda>s. k_held s \<and> k_cfg s \<noteq> None)"
proof -
  let ?gs = "tl (first_steps E c L) @ vox_dns_init (ie_dnsc E) # stack_steps E @ vox_event_init (ie_ev_thread E) (ie_bevent E) # media_steps E L"
  have p: "audio_prefix E c L = [] @ init_prepare E c # ?gs" by (simp add: audio_prefix_def group_defs)
  have "gives (init_prepare E c) (\<lambda>s. k_held s \<and> k_cfg s \<noteq> None)" by (auto simp: gives_def init_prepare_def cmd_def)
  moreover have "\<forall>g \<in> set ?gs. quiet (\<lambda>s. k_held s \<and> k_cfg s \<noteq> None) {} g"
    using first_keeps[of E c L] late_keeps(1)[of E "ie_ev_thread E" "ie_bevent E" L] dns_keeps[of "ie_dnsc E"]
    by (auto simp: late_steps_def)
  ultimately show ?thesis unfolding p by (rule gives_steps)
qed

lemma audio_prefix_done:
  assumes "stack_willing E" and "k_pcap s = None" and "ie_ext E = None"
  obtains s1 es where "steps (audio_prefix E c L) s = (None, s1, es)" and "k_ext s1" and "k_tap s1"
proof -
  have "sure (\<lambda>s. k_pcap s = None) (steps (audio_prefix E c L))"
    using willing_sure[OF assms(1)] by (intro sure_steps) (auto simp: audio_prefix_def)
  with assms(2) have "fst (steps (audio_prefix E c L) s) = None" by (simp add: sure_def)
  then obtain s1 es where r: "steps (audio_prefix E c L) s = (None, s1, es)"
    by (cases "steps (audio_prefix E c L) s") auto
  have Q: "Q s1" if "gives (steps (audio_prefix E c L)) Q" for Q using that r unfolding gives_def by blast
  let ?fs = "first_steps E c L @ vox_dns_init (ie_dnsc E) # stack_steps E @ [vox_event_init (ie_ev_thread E) (ie_bevent E)]"
  have p: "audio_prefix E c L = ?fs @ media_steps E L" by (simp add: audio_prefix_def)
  have "k_tap s1" by (rule Q) (simp only: p media_gives(1))
  moreover have "k_ext s1 \<or> k_cfg s1 = None" by (rule Q) (simp only: p media_gives(2)[OF assms(3)])
  moreover have "k_cfg s1 \<noteq> None" using Q[OF audio_prefix_cfg] by simp
  ultimately show ?thesis by (intro that[OF r]) auto
qed

lemma init_body_message:
  assumes "stack_willing E" and "k_pcap s = None" and "ie_ext E = None" and "ie_message E = Some e"
  obtains s1 es where "init_body L E c s = (Some e, s1, es)" and "k_ext s1" and "k_tap s1"
proof -
  obtain s1 es where pre: "steps (audio_prefix E c L) s = (None, s1, es)" "k_ext s1" "k_tap s1"
    using audio_prefix_done[OF assms(1-3)] by blast
  have "init_body L E c = steps (audio_prefix E c L @ notify_steps E @ with_cfg (init_pcap E) # last_steps E)"
    by (simp only: init_body_def audio_prefix_def group_defs append_Cons append_Nil)
  then have "fst (init_body L E c s) = Some e" "fst (snd (init_body L E c s)) = s1"
    using pre assms(4) by (simp_all add: steps_append then_ok_parts notify_steps_def try_call_def)
  then show ?thesis using pre(2,3) by (intro that[of s1 "snd (snd (init_body L E c s))"]) (simp_all add: prod_eq_iff)
qed

lemma init_effects_ran:
  assumes "init_cfg_ok n c" and "\<not> k_initialized s" and "init_once s = s"
    and "k_ext s" and "k_tap s" and "k_once s" and "\<not> k_lock s"
  shows "set (snd (snd (voxsdk_init L n E (Some c) s))) \<inter> audio_again = {}"
proof -
  obtain b s1 es1 where i: "init_body L E c s = (b, s1, es1)" by (metis prod_cases3)
  obtain s2 es2 where f: "init_fail E s1 = (s2, es2)" by (metis prod.exhaust)
  have "set es1 \<inter> audio_again = {}" using init_body_audio_once[of L E c, unfolded quiet_def, rule_format, of s] assms(4,5) i by simp
  moreover have "set es2 \<inter> audio_again = {}" using init_fail_audio[of E s1] f by simp
  moreover have "snd (snd (voxsdk_init L n E (Some c) s)) =
      K_Lock False # es1 @ (if b = None then [K_Unlock (k_lock s1)] else es2 @ [K_Unlock (k_lock s2)])"
    using assms(1-3,7) i f by (simp add: voxsdk_init_def Let_def split: option.splits)
  ultimately show ?thesis by (simp add: Int_Un_distrib2)
qed

lemma init_effects_audio_once:
  assumes "k_ext s" and "k_tap s" and "k_once s" and "\<not> k_lock s"
  shows "set (snd (snd (voxsdk_init L n E cfg s))) \<inter> audio_again = {}"
proof -
  have once: "init_once s = s" using assms by (simp add: init_once_def)
  show ?thesis
  proof (cases "cfg = None \<or> \<not> init_cfg_ok n (the cfg) \<or> k_initialized s")
    case True
    with once assms(4) show ?thesis by (cases cfg) (auto simp: voxsdk_init_def)
  next
    case False
    then obtain c where c: "cfg = Some c" "init_cfg_ok n c" "\<not> k_initialized s" by auto
    show ?thesis unfolding c(1) using c(2,3) once assms by (rule init_effects_ran)
  qed
qed

lemma init_body_once: "quiet k_once {} (init_body L E c)"
proof -
  have "\<forall>f \<in> set (init_prepare E c # tl (first_steps E c L) @ vox_dns_init (ie_dnsc E) # stack_steps E @
      vox_event_init (ie_ev_thread E) (ie_bevent E) # late_steps E L). quiet k_once {} f"
    unfolding late_steps_def group_defs by (auto simp: keep_simps init_prepare_def split: option.splits)
  then show ?thesis unfolding init_body_early by (rule quiet_steps)
qed

subsection \<open>A capture without the trace\<close>

lemma sure_quiet: "sure P f \<Longrightarrow> quiet Q X f \<Longrightarrow> sure (\<lambda>s. P s \<and> Q s) f"
  by (simp add: sure_def quiet_def)

definition capture_prefix :: "init_env \<Rightarrow> core_cfg \<Rightarrow> libre \<Rightarrow> cstep list" where
  "capture_prefix E c L = tl (first_steps E c L) @ vox_dns_init (ie_dnsc E) # stack_steps E @
     vox_event_init (ie_ev_thread E) (ie_bevent E) # media_steps E L @ notify_steps E"

lemma init_body_capture: "init_body L E c = then_ok (init_prepare E c) (steps (capture_prefix E c L @ with_cfg (init_pcap E) # last_steps E))"
  by (simp only: init_body_def capture_prefix_def group_defs append_Cons append_Nil list.sel steps.simps)

lemma capture_prefix_sure:
  assumes "willing E"
  shows "sure (\<lambda>s. k_pcap s = None \<and> cfg_has p False s) (steps (capture_prefix E c L))"
proof (intro sure_steps ballI sure_quiet)
  fix f assume f: "f \<in> set (capture_prefix E c L)"
  then show "sure (\<lambda>s. k_pcap s = None) f"
    using assms willing_stack willing_sure[of E f c L] willing_notify[of E f]
    by (auto simp: capture_prefix_def dest: list.set_sel(2)[rotated] simp: first_steps_def)
  from f show "quiet (cfg_has p False) {K_Trace True} f"
    by (intro untraced[of f E c L]) (auto simp: capture_prefix_def late_steps_def)
qed

lemma capture_opened:
  assumes "willing E" and "k_pcap s = None" and "cfg_has (Some p) False s"
  shows "k_pcap (fst (snd (steps (capture_prefix E c L @ with_cfg (init_pcap E) # last_steps E) s))) = Some write_global_header"
proof -
  from capture_prefix_sure[OF assms(1), of "Some p" c L] assms(2,3)
  have pre: "fst (steps (capture_prefix E c L) s) = None" "k_pcap (fst (snd (steps (capture_prefix E c L) s))) = None"
    "cfg_has (Some p) False (fst (snd (steps (capture_prefix E c L) s)))" by (simp_all add: sure_def)
  have "quiet (\<lambda>s. k_pcap s = Some write_global_header) {} (steps (last_steps E))"
    unfolding last_steps_def by (rule quiet_steps) (auto simp: keep_simps split: option.splits)
  moreover have "fst (with_cfg (init_pcap E) t) = None \<and> k_pcap (fst (snd (with_cfg (init_pcap E) t))) = Some write_global_header"
    if "k_pcap t = None" "cfg_has (Some p) False t" for t
    using that assms(1) by (auto simp: cfg_has_def with_cfg_def init_pcap_def vox_pcap_open_def willing_def)
  ultimately show ?thesis using pre by (simp add: steps_append then_ok_parts quiet_no_effect)
qed

lemma rest_untraced: "quiet (cfg_has p False) {K_Trace True} (steps (capture_prefix E c L @ with_cfg (init_pcap E) # last_steps E))"
  by (intro quiet_steps ballI untraced[of _ E c L]) (auto simp: capture_prefix_def late_steps_def)

section \<open>Properties\<close>




text \<open>C38: with a capture path but without \<open>trace_sip\<close> a start succeeds and opens the capture file with
  its header, but never installs the trace hook that would write to it: the file stays without a
  packet, although \<open>vox_trace_init\<close> itself installs the hook when there is a capture path.\<close>

theorem capture_needs_trace:
  assumes "idle s" and "init_cfg_ok n c" and "willing E" and "\<not> cc_trace_sip c" and "cc_pcap_path c = Some p" and "ie_ok E 16"
  shows "let (r, s', es) = voxsdk_init L n E (Some c) s in
     r = RC_OK \<and> k_pcap s' = Some write_global_header \<and> K_Trace True \<notin> set es \<and> vox_trace_init False (Some p) True False = (None, True)"
proof -
  let ?s = "init_once s" and ?rest = "steps (capture_prefix E c L @ with_cfg (init_pcap E) # last_steps E)"
  have s0: "\<not> k_initialized ?s" "k_pcap ?s = None" using assms(1) by (simp_all add: idle_def init_once_def)
  obtain t where t: "init_prepare E c ?s = (None, t, [])" "k_pcap t = None" "cfg_has (Some p) False t"
    using s0 assms(4-6) by (simp add: init_prepare_def cmd_def cfg_has_def vox_cfg_deep_copy_def vox_strdup_def)
  obtain s1 es where b: "init_body L E c ?s = (None, s1, es)"
    using init_body_willing[OF assms(3) s0(2)] by (metis prod.collapse)
  then have rest: "?rest t = (None, s1, es)" using t(1) by (simp add: init_body_capture then_ok_def split: prod.splits)
  have "k_pcap s1 = Some write_global_header" using capture_opened[OF assms(3) t(2,3), of c L] rest by simp
  moreover have "K_Trace True \<notin> set es"
    using rest_untraced[of "Some p" E c L, unfolded quiet_def, rule_format, OF t(3)] rest by simp
  ultimately show ?thesis using b s0 assms(2) by (simp add: voxsdk_init_def vox_trace_init_def)
qed

text \<open>the settings for the Opus encoder always fit their 256 bytes: the stack is given exactly the
  wanted lines, one after the other, and the length that goes with them, whatever the values
  configured.\<close>

theorem opus_settings_fit:
  assumes "libre_laws L" and "op_bitrate (cc_opus c) < 2 ^ 31" and "op_complexity (cc_opus c) < 2 ^ 31"
  shows "let text = concat (map snd (filter fst (opus_lines c))) in opus_conf L c = (text, int (length text)) \<and> length text \<le> 133"
  using opus_lines_fit[OF assms(2,3)] opus_fold[OF assms(1), of "[]" "opus_lines c"] by (simp add: opus_conf_def Let_def)

section \<open>Witnesses\<close>

definition ex_cfg :: core_cfg where
  "ex_cfg = \<lparr>cc_version = 1, cc_struct_size = 8, cc_event_cb = Some 1, cc_audio_codec_count = 0, cc_audio_codec_name_count = 0,
     cc_local_ip = None, cc_local_port = 0, cc_bind_interface = None, cc_prefer_ipv6 = False, cc_sip_domain = None,
     cc_server_url = None, cc_server_host = None, cc_outbound_proxy = None, cc_ca_cert_path = None, cc_client_cert = None,
     cc_client_key = None, cc_verify_server = True, cc_sni_hostname = None, cc_user_agent = None, cc_ws_origin = None,
     cc_ws_extra_headers = None, cc_stun_server = None, cc_turn_server = None, cc_turn_user = None, cc_turn_pass = None,
     cc_dscp_sip = 0, cc_dscp_rtp = 0,
     cc_opus = \<lparr>op_bitrate = 24000, op_complexity = -1, op_cbr = False, op_dtx = False, op_fec = True, op_stereo = False\<rparr>,
     cc_opus_expected_loss_pct = 10, cc_jbuf_fixed = False, cc_jb_min_ms = 0, cc_jb_max_ms = 0, cc_rtp_timeout_s = 0,
     cc_session_timer = False, cc_stats_interval_ms = 0, cc_net_monitor_interval_s = 0, cc_aec_webrtc = False,
     cc_tmp_dir = None, cc_trace_sip = False, cc_pcap_path = Some ''/tmp/a.pcap''\<rparr>"

definition ex_env :: init_env where
  "ex_env = \<lparr>ie_build = \<lparr>bl_desktop = True, bl_audio = Some ''pulse'', bl_opensles = False, bl_audiounit = False, bl_wasapi = False,
       bl_webrtc = False\<rparr>,
     ie_sles = False, ie_ok = (\<lambda>_. True), ie_strv = (\<lambda>_. True), ie_tmpdir = None, ie_ca = None, ie_libre = None, ie_baresip = None,
     ie_dnsc = True, ie_ua = None, ie_tls = True, ie_ev_thread = True, ie_bevent = None, ie_sip = True, ie_ext = None, ie_ice = True,
     ie_message = None, ie_contacts = True, ie_fopen = F_ok, ie_mq = None, ie_re_thread = True\<rparr>"

lemma ex_holds: "willing ex_env" "stack_willing (ex_env\<lparr>ie_message := Some ENOMEM\<rparr>)" "init_cfg_ok 8 ex_cfg" "idle core_zero"
  by (simp_all add: willing_def stack_willing_def ex_env_def init_cfg_ok_def ex_cfg_def VOXSDK_CONFIG_VERSION_def idle_def core_zero_def)




theorem capture_needs_trace_witness:
  "let (r, s', es) = voxsdk_init libre_ref 8 ex_env (Some ex_cfg) core_zero in
     r = RC_OK \<and> k_pcap s' = Some write_global_header \<and> K_Trace True \<notin> set es \<and>
     vox_trace_init False (Some ''/tmp/a.pcap'') True False = (None, True)"
  by (rule capture_needs_trace) (simp_all add: ex_holds, simp_all add: ex_cfg_def ex_env_def)

theorem opus_settings_fit_witness:
  "let text = concat (map snd (filter fst (opus_lines ex_cfg)))
   in opus_conf libre_ref ex_cfg = (text, int (length text)) \<and> length text \<le> 133"
  by (rule opus_settings_fit) (simp_all add: libre_ref_laws ex_cfg_def)

end
