(* ===== verification/Vox_Ice.thy ===== *)
theory Vox_Ice
  imports Vox_Types
begin

text \<open>
  \<^verbatim>\<open>src/ice_shim.c\<close>: the wrapper around the stack's ICE media-NAT, with its deadline on candidate
  gathering, its ICE restart for network handovers, the connectivity checks that start while a call
  still rings, and the re-offer of a candidate that was never signalled. One session belongs to one
  call; a handler of the code is a function on it, with what the stack shows at that moment as its
  argument. A handler that hands the offer to the stack can be entered again through the update
  handler before it returns; those entries are a list of views.
\<close>

section \<open>Addresses\<close>

text \<open>Socket addresses are libre's; what the code asks of them is a parameter.\<close>

type_synonym sa = nat

record sa_ops =
  so_unspec :: sa
  so_isset_addr :: "sa \<Rightarrow> bool"
  so_isset_all :: "sa \<Rightarrow> bool"
  so_cmp_addr :: "sa \<Rightarrow> sa \<Rightarrow> bool"
  so_cmp_all :: "sa \<Rightarrow> sa \<Rightarrow> bool"
  so_set_port :: "sa \<Rightarrow> sa \<Rightarrow> sa"

definition str_isset :: "cptr \<Rightarrow> bool" where
  "str_isset s \<longleftrightarrow> (case s of None \<Rightarrow> False | Some t \<Rightarrow> t \<noteq> [])"

section \<open>State\<close>

record ice_media =
  im_inner :: bool
  im_sock1 :: bool
  im_sock2 :: bool
  im_sdpm :: bool
  im_connh :: bool
  im_signalled :: sa
  im_selected :: "sa \<times> sa"
  im_rsig :: sa
  im_rufrag :: cptr
  im_sel_set :: bool
  im_held :: bool
  im_reasserted :: bool

record ice_sess =
  is_call :: "nat option"
  is_sdp :: bool
  is_inner :: bool
  is_tmr :: "u32 option"
  is_tmr_reoffer :: "u32 option"
  is_reoffer_due :: u64
  is_released :: bool
  is_reoffered :: bool
  is_restarting :: bool
  is_in_estab :: bool
  is_await_answer :: bool
  is_tmr_rrestart :: "u32 option"
  is_rrestarts :: nat
  is_primed :: bool
  is_medial :: "ice_media list"
  is_srv_host :: cptr
  is_user :: cptr
  is_pass :: cptr

text \<open>
  What the stack shows: for each stream, by its position, the local and remote address in the SDP,
  the peer's \<open>ice-ufrag\<close>, whether there is a fingerprint, whether a copy of the ufrag can be
  allocated, and the local addresses of its sockets; then the state of the call, its streams with
  whether they are secure, the clock, and the outcome of the media-NAT's own update handler.
\<close>

record ice_view =
  iv_laddr :: "nat \<Rightarrow> sa option"
  iv_raddr :: "nat \<Rightarrow> sa option"
  iv_rufrag :: "nat \<Rightarrow> cptr"
  iv_fingerprint :: "nat \<Rightarrow> bool"
  iv_dup :: "nat \<Rightarrow> bool"
  iv_local1 :: "nat \<Rightarrow> sa option"
  iv_local2 :: "nat \<Rightarrow> sa option"
  iv_session_laddr :: "sa option"
  iv_incoming :: bool
  iv_streams :: "bool list option"
  iv_now :: u64
  iv_update :: "errno option"

datatype ice_eff =
    I_estab int u16
  | I_connh nat sa "sa option"
  | I_update
  | I_sess bool
  | I_media nat
  | I_attr nat string string
  | I_drop_media nat
  | I_drop_sess
  | I_session_laddr sa
  | I_clear_candidates nat
  | I_laddr nat sa
  | I_laddr_rtcp nat sa

abbreviation "VOX_ICE_RESTART_DEADLINE_MS \<equiv> (3000 :: u32)"
abbreviation "VOX_ICE_REOFFER_SECURE_DEADLINE_MS \<equiv> (12000 :: u64)"
abbreviation "VOX_ICE_REOFFER_POLL_MS \<equiv> (50 :: u32)"
abbreviation "VOX_ICE_MAX_REMOTE_RESTARTS \<equiv> (2 :: nat)"

type_synonym ice_act = "ice_sess \<Rightarrow> ice_sess \<times> ice_eff list"

text \<open>A loop over the streams, each with its position.\<close>

fun each_media :: "(nat \<Rightarrow> ice_media \<Rightarrow> ice_media \<times> ice_eff list) \<Rightarrow> nat \<Rightarrow> ice_media list \<Rightarrow> ice_media list \<times> ice_eff list" where
  "each_media f i [] = ([], [])"
| "each_media f i (m # ms) = (case f i m of (m', es) \<Rightarrow> case each_media f (Suc i) ms of (ms', es') \<Rightarrow> (m' # ms', es @ es'))"

definition on_media :: "(nat \<Rightarrow> ice_media \<Rightarrow> ice_media \<times> ice_eff list) \<Rightarrow> ice_act" where
  "on_media f s = (case each_media f 0 (is_medial s) of (ms, es) \<Rightarrow> (s\<lparr>is_medial := ms\<rparr>, es))"

section \<open>Lookup and bookkeeping\<close>

definition sess_find :: "nat \<Rightarrow> ice_sess list \<Rightarrow> ice_sess option" where
  "sess_find call ss = find (\<lambda>s. is_call s = Some call) ss"

definition rebase_signalled :: "sa_ops \<Rightarrow> ice_view \<Rightarrow> ice_act" where
  "rebase_signalled S v = on_media (\<lambda>i m.
     (case iv_laddr v i of Some a \<Rightarrow> if so_isset_addr S a then m\<lparr>im_signalled := a\<rparr> else m | None \<Rightarrow> m, []))"

text \<open>The peer's credentials as last decoded; whether they changed on some stream.\<close>

definition ufrag_media :: "ice_view \<Rightarrow> nat \<Rightarrow> ice_media \<Rightarrow> ice_media" where
  "ufrag_media v i m =
     (if \<not> im_sdpm m \<or> \<not> str_isset (iv_rufrag v i) then m else m\<lparr>im_rufrag := (if iv_dup v i then iv_rufrag v i else None)\<rparr>)"

definition ufrag_changed :: "ice_view \<Rightarrow> nat \<Rightarrow> ice_media \<Rightarrow> bool" where
  "ufrag_changed v i m \<longleftrightarrow> im_sdpm m \<and> str_isset (iv_rufrag v i) \<and> str_isset (im_rufrag m) \<and> im_rufrag m \<noteq> iv_rufrag v i"

definition remote_ufrag_sync :: "ice_view \<Rightarrow> ice_sess \<Rightarrow> bool \<times> ice_sess" where
  "remote_ufrag_sync v s =
     (if \<not> is_sdp s then (False, s)
      else (\<exists>i < length (is_medial s). ufrag_changed v i (is_medial s ! i), fst (on_media (\<lambda>i m. (ufrag_media v i m, [])) s)))"

definition forget_selected :: "ice_sess \<Rightarrow> ice_sess" where
  "forget_selected s = s\<lparr>is_medial := map (\<lambda>m. m\<lparr>im_sel_set := False\<rparr>) (is_medial s)\<rparr>"

definition sess_awaiting_secure :: "ice_view \<Rightarrow> ice_sess \<Rightarrow> bool" where
  "sess_awaiting_secure v s \<longleftrightarrow>
     is_sdp s \<and> is_call s \<noteq> None \<and> (\<exists>i < length (is_medial s). im_sdpm (is_medial s ! i) \<and> iv_fingerprint v i) \<and>
     (case iv_streams v of None \<Rightarrow> False | Some bs \<Rightarrow> \<exists>b \<in> set bs. \<not> b)"

section \<open>The update handler\<close>

definition second_of :: "sa_ops \<Rightarrow> sa \<Rightarrow> sa option" where
  "second_of S a = (if so_isset_all S a then Some a else None)"

definition reassert_media :: "sa_ops \<Rightarrow> ice_view \<Rightarrow> nat \<Rightarrow> ice_media \<Rightarrow> ice_media \<times> ice_eff list" where
  "reassert_media S v i m =
     (let give = I_connh i (fst (im_selected m)) (second_of S (snd (im_selected m)))
      in if \<not> im_sel_set m \<or> \<not> im_connh m then (m, [])
         else if im_held m then (m\<lparr>im_held := False\<rparr>, [give])
         else (case iv_raddr v i of
                 None \<Rightarrow> (m\<lparr>im_sel_set := False\<rparr>, [])
               | Some r \<Rightarrow> if \<not> so_cmp_all S r (im_rsig m) then (m\<lparr>im_sel_set := False\<rparr>, [])
                           else (m\<lparr>im_reasserted := True\<rparr>, [give])))"

definition reassert_selected :: "sa_ops \<Rightarrow> ice_view \<Rightarrow> ice_act" where
  "reassert_selected S v = on_media (reassert_media S v)"

definition answer_remote_restart :: "ice_sess \<Rightarrow> ice_sess" where
  "answer_remote_restart s =
     (if is_restarting s \<or> is_tmr_rrestart s \<noteq> None then s
      else if is_rrestarts s < VOX_ICE_MAX_REMOTE_RESTARTS
      then s\<lparr>is_rrestarts := is_rrestarts s + 1, is_tmr_rrestart := Some 0\<rparr> else s)"

definition ice_updateh :: "sa_ops \<Rightarrow> ice_view \<Rightarrow> ice_sess \<Rightarrow> errno option \<times> ice_sess \<times> ice_eff list" where
  "ice_updateh S v s =
     (if is_in_estab s \<and> is_await_answer s then (None, reassert_selected S v s)
      else
        (case remote_ufrag_sync v s of (changed, s1) \<Rightarrow>
           let s2 = s1\<lparr>is_await_answer := False\<rparr>
           in if is_await_answer s1 \<and> changed then (iv_update v, forget_selected s2, [I_update])
              else if changed \<and> sess_awaiting_secure v s2 then (iv_update v, answer_remote_restart (forget_selected s2), [I_update])
              else (iv_update v, (case reassert_selected S v s2 of (s3, es) \<Rightarrow> (s3, I_update # es)))))"

section \<open>Handing the offer over\<close>

text \<open>The entries of the update handler from inside the stack's handler.\<close>

fun updates_within :: "sa_ops \<Rightarrow> ice_view list \<Rightarrow> ice_act" where
  "updates_within S [] s = (s, [])"
| "updates_within S (v # vs) s =
     (case snd (ice_updateh S v s) of (s', es) \<Rightarrow> case updates_within S vs s' of (s'', es') \<Rightarrow> (s'', es @ es'))"

definition estab_release :: "sa_ops \<Rightarrow> int \<Rightarrow> u16 \<Rightarrow> ice_view list \<Rightarrow> ice_act" where
  "estab_release S err scode ups s =
     (if err \<noteq> 0 \<or> scode \<noteq> 0 then (s, [I_estab err scode])
      else (case updates_within S ups (s\<lparr>is_in_estab := True\<rparr>) of (s', es) \<Rightarrow> (s'\<lparr>is_in_estab := False\<rparr>, I_estab 0 0 # es)))"

definition have_remote :: "ice_view \<Rightarrow> ice_sess \<Rightarrow> bool" where
  "have_remote v s \<longleftrightarrow> (\<exists>i < length (is_medial s). im_sdpm (is_medial s ! i) \<and> str_isset (iv_rufrag v i))"

definition prime_conncheck :: "ice_view \<Rightarrow> ice_act" where
  "prime_conncheck v s =
     (if is_primed s \<or> \<not> is_inner s \<or> \<not> is_sdp s \<or> is_call s = None \<or> \<not> iv_incoming v \<or> \<not> have_remote v s then (s, [])
      else (snd (remote_ufrag_sync v (s\<lparr>is_primed := True\<rparr>)), [I_update]))"

text \<open>\<open>ice_estab\<close>: the report of a gather. \<open>v\<close> is seen before the offer, \<open>v'\<close> after it.\<close>

definition estab_offer :: "sa_ops \<Rightarrow> int \<Rightarrow> u16 \<Rightarrow> ice_view \<Rightarrow> ice_view list \<Rightarrow> ice_view \<Rightarrow> ice_act" where
  "estab_offer S err scode v ups v' s =
     (let failed = (err \<noteq> 0 \<or> scode \<noteq> 0) \<and> \<not> is_restarting s;
          s1 = s\<lparr>is_restarting := False\<rparr>;
          s2 = (if failed then s1 else fst (rebase_signalled S v s1))
      in (case estab_release S (if failed then err else 0) (if failed then scode else 0) ups (s2\<lparr>is_released := True\<rparr>) of
            (s3, es) \<Rightarrow> if failed then (s3, es) else (case prime_conncheck v' s3 of (s4, es') \<Rightarrow> (s4, es @ es'))))"

definition ice_estab :: "sa_ops \<Rightarrow> int \<Rightarrow> u16 \<Rightarrow> ice_view \<Rightarrow> ice_view list \<Rightarrow> ice_view \<Rightarrow> ice_act" where
  "ice_estab S err scode v ups v' s =
     (let s1 = s\<lparr>is_tmr := None\<rparr>; s2 = s1\<lparr>is_restarting := False\<rparr>
      in if is_released s1 then (if err \<noteq> 0 \<or> scode \<noteq> 0 then (s2, []) else estab_offer S err scode v ups v' s2)
         else estab_offer S err scode v ups v' s1)"

text \<open>The timer has fired.\<close>

definition gather_deadline :: "sa_ops \<Rightarrow> ice_view list \<Rightarrow> ice_act" where
  "gather_deadline S ups s =
     (let s1 = s\<lparr>is_tmr := None\<rparr>
      in if is_released s1 then (s1, []) else estab_release S 0 0 ups (s1\<lparr>is_restarting := False, is_released := True\<rparr>))"

section \<open>The candidate re-offer\<close>

definition reoffer_release :: "sa_ops \<Rightarrow> ice_view list \<Rightarrow> ice_act" where
  "reoffer_release S ups s = estab_release S 0 0 ups (s\<lparr>is_tmr_reoffer := None\<rparr>)"

definition reoffer_deadline :: "sa_ops \<Rightarrow> ice_view \<Rightarrow> ice_view list \<Rightarrow> ice_act" where
  "reoffer_deadline S v ups s =
     (if sess_awaiting_secure v s
      then (if iv_now v < is_reoffer_due s then (s\<lparr>is_tmr_reoffer := Some VOX_ICE_REOFFER_POLL_MS\<rparr>, [])
            else (s\<lparr>is_tmr_reoffer := None\<rparr>, []))
      else reoffer_release S ups s)"

definition remember_pair :: "sa_ops \<Rightarrow> ice_view \<Rightarrow> nat \<Rightarrow> sa option \<Rightarrow> sa option \<Rightarrow> ice_media \<Rightarrow> ice_media" where
  "remember_pair S v i r1 r2 m =
     (case r1 of
        None \<Rightarrow> m
      | Some a \<Rightarrow>
          if \<not> so_isset_all S a then m
          else m\<lparr>im_selected := (a, (case r2 of None \<Rightarrow> so_unspec S | Some b \<Rightarrow> b)),
                 im_rsig := (case iv_raddr v i of None \<Rightarrow> so_unspec S | Some r \<Rightarrow> r), im_sel_set := True\<rparr>)"

definition never_signalled :: "sa_ops \<Rightarrow> ice_view \<Rightarrow> nat \<Rightarrow> ice_media \<Rightarrow> bool" where
  "never_signalled S v i m \<longleftrightarrow>
     (case iv_laddr v i of
        None \<Rightarrow> False
      | Some a \<Rightarrow> so_isset_addr S (im_signalled m) \<and> so_isset_addr S a \<and> \<not> so_cmp_addr S a (im_signalled m))"

text \<open>\<open>ice_connected\<close> for the stream \<open>i\<close>; \<open>v'\<close> is seen after the stack's handler. A pair without an
  address is passed on as the unspecified one.\<close>

definition ice_connected :: "sa_ops \<Rightarrow> nat \<Rightarrow> sa option \<Rightarrow> sa option \<Rightarrow> ice_view \<Rightarrow> ice_view \<Rightarrow> ice_view list \<Rightarrow> ice_act" where
  "ice_connected S i r1 r2 v v' ups s =
     (let m = remember_pair S v i r1 r2 (is_medial s ! i)
      in if is_call s \<noteq> None \<and> iv_incoming v
         then (s\<lparr>is_medial := (is_medial s)[i := if im_sel_set m then m\<lparr>im_held := True\<rparr> else m]\<rparr>, [])
         else
           (let s1 = s\<lparr>is_medial := (is_medial s)[i := m]\<rparr>;
                es = (if im_connh m then [I_connh i (case r1 of None \<Rightarrow> so_unspec S | Some a \<Rightarrow> a) r2] else [])
            in if \<not> never_signalled S v' i m \<or> is_reoffered s1 then (s1, es)
               else
                 (let s2 = s1\<lparr>is_reoffered := True\<rparr>
                  in if sess_awaiting_secure v' s2
                     then (s2\<lparr>is_reoffer_due := iv_now v' + VOX_ICE_REOFFER_SECURE_DEADLINE_MS,
                              is_tmr_reoffer := Some VOX_ICE_REOFFER_POLL_MS\<rparr>, es)
                     else (case reoffer_release S ups s2 of (s3, es') \<Rightarrow> (s3, es @ es')))))"

section \<open>Restart\<close>

text \<open>The calls that take a stream's old state out of the SDP.\<close>

definition media_clear_stale :: "sa_ops \<Rightarrow> ice_view \<Rightarrow> sa option \<Rightarrow> nat \<Rightarrow> ice_media \<Rightarrow> ice_eff list" where
  "media_clear_stale S v laddr i m =
     I_clear_candidates i #
     (case laddr of
        None \<Rightarrow> []
      | Some a \<Rightarrow>
          if \<not> so_isset_addr S a \<or> \<not> im_sock1 m then []
          else (case iv_local1 v i of
                  None \<Rightarrow> []
                | Some l1 \<Rightarrow>
                    I_laddr i (so_set_port S a l1) #
                    (if im_sock2 m then (case iv_local2 v i of None \<Rightarrow> [] | Some l2 \<Rightarrow> [I_laddr_rtcp i (so_set_port S a l2)]) else [])))"

text \<open>
  \<open>fresh\<close> is the outcome of allocating the replacement session, \<open>built i\<close> whether the media of
  stream \<open>i\<close> could be rebuilt, \<open>timeout\<close> is \<open>cfg.ice_gathering_timeout_ms\<close>.
\<close>

definition restart_media :: "(nat \<Rightarrow> bool) \<Rightarrow> nat \<Rightarrow> ice_media \<Rightarrow> ice_media \<times> ice_eff list" where
  "restart_media built i m = (m\<lparr>im_inner := built i, im_sel_set := False, im_held := False, im_reasserted := False\<rparr>, [I_media i])"

definition restart_deadline :: "u32 \<Rightarrow> u32" where
  "restart_deadline timeout = (if timeout \<noteq> 0 then timeout else VOX_ICE_RESTART_DEADLINE_MS)"

definition restart_sess :: "sa_ops \<Rightarrow> u32 \<Rightarrow> errno option \<Rightarrow> (nat \<Rightarrow> bool) \<Rightarrow> ice_view \<Rightarrow> sa option \<Rightarrow> ice_sess \<Rightarrow>
    errno option \<times> ice_sess \<times> ice_eff list" where
  "restart_sess S timeout fresh built v laddr s =
     (if is_medial s = [] then (Some ENOENT, s, [])
      else if is_restarting s then (Some EALREADY, s, [])
      else if fresh \<noteq> None then (fresh, s, [I_sess True])
      else
        (let addr = (case laddr of None \<Rightarrow> [] | Some a \<Rightarrow> if so_isset_addr S a then [I_session_laddr a] else []);
             drop = snd (each_media (\<lambda>i m. (m, (if im_inner m then [I_drop_media i] else []) @ media_clear_stale S v laddr i m)) 0 (is_medial s));
             s1 = s\<lparr>is_inner := True, is_released := False, is_restarting := True, is_reoffered := False, is_await_answer := True\<rparr>
         in (case on_media (restart_media built) s1 of
               (s2, es) \<Rightarrow> (None, s2\<lparr>is_tmr := Some (restart_deadline timeout)\<rparr>, I_sess True # addr @ drop @ [I_drop_sess] @ es))))"

fun update_sess :: "nat \<Rightarrow> ice_sess \<Rightarrow> ice_sess list \<Rightarrow> ice_sess list" where
  "update_sess call s' [] = []"
| "update_sess call s' (s # ss) = (if is_call s = Some call then s' # ss else s # update_sess call s' ss)"

definition vox_ice_restart :: "sa_ops \<Rightarrow> u32 \<Rightarrow> bool \<Rightarrow> nat \<Rightarrow> errno option \<Rightarrow> (nat \<Rightarrow> bool) \<Rightarrow> ice_view \<Rightarrow> sa option \<Rightarrow>
    ice_sess list \<Rightarrow> errno option \<times> ice_sess list \<times> ice_eff list" where
  "vox_ice_restart S timeout mnat call fresh built v laddr ss =
     (case sess_find call ss of
        None \<Rightarrow> (Some ENOENT, ss, [])
      | Some s \<Rightarrow>
          if \<not> mnat then (Some ENOENT, ss, [])
          else (case restart_sess S timeout fresh built v laddr s of (r, s', es) \<Rightarrow> (r, update_sess call s' ss, es)))"

definition vox_ice_call_active :: "nat \<Rightarrow> ice_sess list \<Rightarrow> bool" where
  "vox_ice_call_active call ss = (case sess_find call ss of None \<Rightarrow> False | Some s \<Rightarrow> is_medial s \<noteq> [])"

text \<open>The deferred answer to a restart of the peer, whose timer has fired.\<close>

definition rrestart_handler :: "sa_ops \<Rightarrow> u32 \<Rightarrow> bool \<Rightarrow> errno option \<Rightarrow> (nat \<Rightarrow> bool) \<Rightarrow> ice_view \<Rightarrow> ice_act" where
  "rrestart_handler S timeout mnat fresh built v s =
     (let s1 = s\<lparr>is_tmr_rrestart := None\<rparr>
      in if \<not> mnat then (s1, []) else snd (restart_sess S timeout fresh built v None s1))"

section \<open>Sessions and streams\<close>

text \<open>\<open>ok\<close>: the allocations, in the order of the code; \<open>inner\<close>: the media-NAT's own allocation.\<close>

definition ice_sessh :: "u32 \<Rightarrow> (nat \<Rightarrow> bool) \<Rightarrow> errno option \<Rightarrow> nat option \<Rightarrow> bool \<Rightarrow> cptr option \<Rightarrow> cptr \<Rightarrow> cptr \<Rightarrow>
    errno option \<times> ice_sess option" where
  "ice_sessh timeout ok inner call sdp srv user pass =
     (let dup_ok = (\<lambda>k p. p = None \<or> ok k);
          host = (case srv of None \<Rightarrow> None | Some h \<Rightarrow> h)
      in if \<not> ok 0 then (Some ENOMEM, None)
         else if \<not> (dup_ok 1 host \<and> dup_ok 2 user \<and> dup_ok 3 pass) then (Some ENOMEM, None)
         else if inner \<noteq> None then (inner, None)
         else (None, Some \<lparr>is_call = call, is_sdp = sdp, is_inner = True,
                 is_tmr = (if timeout \<noteq> 0 then Some timeout else None),
                 is_tmr_reoffer = None, is_reoffer_due = 0, is_released = False, is_reoffered = False, is_restarting = False,
                 is_in_estab = False, is_await_answer = False, is_tmr_rrestart = None, is_rrestarts = 0, is_primed = False,
                 is_medial = [], is_srv_host = host, is_user = user, is_pass = pass\<rparr>))"

definition ice_mediah :: "sa_ops \<Rightarrow> ice_view \<Rightarrow> bool \<Rightarrow> errno option \<Rightarrow> bool \<Rightarrow> bool \<Rightarrow> bool \<Rightarrow> ice_sess \<Rightarrow>
    errno option \<times> ice_sess" where
  "ice_mediah S v ok inner sock1 sock2 connh s =
     (if \<not> ok then (Some ENOMEM, s)
      else if inner \<noteq> None then (inner, s)
      else
        (let i = length (is_medial s);
             seed = (case iv_laddr v i of
                       Some a \<Rightarrow> if so_isset_addr S a then Some a else if is_sdp s then iv_session_laddr v else None
                     | None \<Rightarrow> if is_sdp s then iv_session_laddr v else None);
             m = \<lparr>im_inner = True, im_sock1 = sock1, im_sock2 = sock2, im_sdpm = True, im_connh = connh,
                  im_signalled = (case seed of None \<Rightarrow> so_unspec S | Some a \<Rightarrow> a),
                  im_selected = (so_unspec S, so_unspec S), im_rsig = so_unspec S, im_rufrag = None,
                  im_sel_set = False, im_held = False, im_reasserted = False\<rparr>
         in (None, s\<lparr>is_medial := is_medial s @ [m]\<rparr>)))"

definition ice_attrh :: "nat \<Rightarrow> string \<Rightarrow> string \<Rightarrow> ice_media \<Rightarrow> ice_eff list" where
  "ice_attrh i name value m = (if \<not> im_inner m then [] else [I_attr i name value])"

text \<open>The session goes: its timers, its place in the list, and what the streams that outlive it point to.\<close>

definition sess_destructor :: "ice_sess \<Rightarrow> ice_media list \<times> ice_eff list" where
  "sess_destructor s =
     (case each_media (\<lambda>i m. (m\<lparr>im_inner := False\<rparr>, if im_inner m then [I_drop_media i] else [])) 0 (is_medial s) of
        (ms, es) \<Rightarrow> (ms, es @ (if is_inner s then [I_drop_sess] else [])))"

text \<open>A stream whose session is gone passes the pair on.\<close>

definition ice_connected_detached :: "sa_ops \<Rightarrow> nat \<Rightarrow> sa option \<Rightarrow> sa option \<Rightarrow> ice_media \<Rightarrow> ice_eff list" where
  "ice_connected_detached S i r1 r2 m = (if im_connh m then [I_connh i (case r1 of None \<Rightarrow> so_unspec S | Some a \<Rightarrow> a) r2] else [])"

section \<open>Runs of a session\<close>

text \<open>
  What happens to a session: a report of the media-NAT, a timer that fires, a stream whose checks
  conclude, an SDP exchange, and a restart asked for by the network monitor. Streams are added
  while the call is set up.
\<close>

datatype ice_in =
    II_estab int u16 ice_view "ice_view list" ice_view
  | II_deadline "ice_view list"
  | II_reoffer ice_view "ice_view list"
  | II_rrestart "errno option" "nat \<Rightarrow> bool" ice_view
  | II_connected nat "sa option" "sa option" ice_view ice_view "ice_view list"
  | II_update ice_view
  | II_restart "errno option" "nat \<Rightarrow> bool" ice_view "sa option"
  | II_media ice_view bool "errno option" bool bool bool

fun ice_step :: "sa_ops \<Rightarrow> u32 \<Rightarrow> ice_in \<Rightarrow> ice_act" where
  "ice_step S T (II_estab e c v ups v') s = ice_estab S e c v ups v' s"
| "ice_step S T (II_deadline ups) s = gather_deadline S ups s"
| "ice_step S T (II_reoffer v ups) s = reoffer_deadline S v ups s"
| "ice_step S T (II_rrestart f b v) s = rrestart_handler S T True f b v s"
| "ice_step S T (II_connected i r1 r2 v v' ups) s = ice_connected S i r1 r2 v v' ups s"
| "ice_step S T (II_update v) s = snd (ice_updateh S v s)"
| "ice_step S T (II_restart f b v l) s = snd (restart_sess S T f b v l s)"
| "ice_step S T (II_media v ok i s1 s2 c) s = (snd (ice_mediah S v ok i s1 s2 c s), [])"

text \<open>Timers fire when they are armed, and streams conclude that exist.\<close>

fun ice_ok :: "ice_in \<Rightarrow> ice_sess \<Rightarrow> bool" where
  "ice_ok (II_deadline ups) s = (is_tmr s \<noteq> None)"
| "ice_ok (II_reoffer v ups) s = (is_tmr_reoffer s \<noteq> None)"
| "ice_ok (II_rrestart f b v) s = (is_tmr_rrestart s \<noteq> None)"
| "ice_ok (II_connected i r1 r2 v v' ups) s = (i < length (is_medial s))"
| "ice_ok i s = True"

section \<open>Lemmas\<close>

lemma fst_on_media: "fst (on_media f s) = s\<lparr>is_medial := fst (each_media f 0 (is_medial s))\<rparr>"
  by (simp add: on_media_def split: prod.splits)

lemma snd_on_media: "snd (on_media f s) = snd (each_media f 0 (is_medial s))"
  by (simp add: on_media_def split: prod.splits)

lemma length_each_media [simp]: "length (fst (each_media f i ms)) = length ms"
  by (induction f i ms rule: each_media.induct) (auto split: prod.splits)

lemma each_media_effects: "e \<in> set (snd (each_media f i ms)) \<Longrightarrow> \<exists>j m. e \<in> set (snd (f j m))"
proof (induction ms arbitrary: i)
  case Nil
  then show ?case by simp
next
  case (Cons m ms)
  then have "e \<in> set (snd (f i m)) \<or> e \<in> set (snd (each_media f (Suc i) ms))" by (auto split: prod.splits)
  then show ?case using Cons.IH by blast
qed

text \<open>The update handler and the hand-over by their parts.\<close>

lemma updateh_state:
  "fst (snd (ice_updateh S v s)) =
     (if is_in_estab s \<and> is_await_answer s then fst (reassert_selected S v s)
      else let ch = fst (remote_ufrag_sync v s); s1 = snd (remote_ufrag_sync v s); s2 = s1\<lparr>is_await_answer := False\<rparr>
           in if is_await_answer s1 \<and> ch then forget_selected s2
              else if ch \<and> sess_awaiting_secure v s2 then answer_remote_restart (forget_selected s2)
              else fst (reassert_selected S v s2))"
  by (simp add: ice_updateh_def Let_def split: prod.splits)

lemma updateh_effects:
  "snd (snd (ice_updateh S v s)) =
     (if is_in_estab s \<and> is_await_answer s then snd (reassert_selected S v s)
      else let ch = fst (remote_ufrag_sync v s); s1 = snd (remote_ufrag_sync v s); s2 = s1\<lparr>is_await_answer := False\<rparr>
           in if is_await_answer s1 \<and> ch \<or> ch \<and> sess_awaiting_secure v s2 then [I_update]
              else I_update # snd (reassert_selected S v s2))"
  by (auto simp: ice_updateh_def Let_def split: prod.splits)

lemma updates_parts [simp]:
  "fst (updates_within S (v # vs) s) = fst (updates_within S vs (fst (snd (ice_updateh S v s))))"
  "snd (updates_within S (v # vs) s) = snd (snd (ice_updateh S v s)) @ snd (updates_within S vs (fst (snd (ice_updateh S v s))))"
  by (simp_all split: prod.splits)

lemma release_parts:
  "fst (estab_release S e c ups s) =
     (if e \<noteq> 0 \<or> c \<noteq> 0 then s else (fst (updates_within S ups (s\<lparr>is_in_estab := True\<rparr>)))\<lparr>is_in_estab := False\<rparr>)"
  "snd (estab_release S e c ups s) =
     (if e \<noteq> 0 \<or> c \<noteq> 0 then [I_estab e c] else I_estab 0 0 # snd (updates_within S ups (s\<lparr>is_in_estab := True\<rparr>)))"
  by (simp_all add: estab_release_def split: prod.splits)

text \<open>What a step cannot touch: everything that decides whether an offer is due.\<close>

definition offer_part :: "ice_sess \<Rightarrow> bool \<times> bool \<times> u32 option \<times> bool" where
  "offer_part s = (is_released s, is_restarting s, is_tmr s, is_in_estab s)"

lemma offer_part_other [simp]:
  "offer_part (s\<lparr>is_medial := ms\<rparr>) = offer_part s" "offer_part (s\<lparr>is_await_answer := b\<rparr>) = offer_part s"
  "offer_part (s\<lparr>is_primed := b\<rparr>) = offer_part s" "offer_part (s\<lparr>is_tmr_reoffer := t\<rparr>) = offer_part s"
  "offer_part (s\<lparr>is_reoffered := b\<rparr>) = offer_part s" "offer_part (s\<lparr>is_reoffer_due := d\<rparr>) = offer_part s"
  "offer_part (s\<lparr>is_tmr_rrestart := t\<rparr>) = offer_part s" "offer_part (s\<lparr>is_rrestarts := n\<rparr>) = offer_part s"
  by (simp_all add: offer_part_def)

lemma reassert_offer [simp]: "offer_part (fst (reassert_selected S v s)) = offer_part s"
  by (simp add: reassert_selected_def fst_on_media)

lemma sync_offer [simp]: "offer_part (snd (remote_ufrag_sync v s)) = offer_part s"
  by (simp add: remote_ufrag_sync_def fst_on_media)

lemma forget_offer [simp]: "offer_part (forget_selected s) = offer_part s" "offer_part (answer_remote_restart s) = offer_part s"
  by (simp_all add: forget_selected_def answer_remote_restart_def)

lemma updateh_offer [simp]: "offer_part (fst (snd (ice_updateh S v s))) = offer_part s"
  by (simp add: updateh_state Let_def)

lemma updates_offer [simp]: "offer_part (fst (updates_within S ups s)) = offer_part s"
  by (induction ups arbitrary: s) (simp, simp only: updates_parts updateh_offer)

lemma release_offer: "\<not> is_in_estab s \<Longrightarrow> offer_part (fst (estab_release S e c ups s)) = offer_part s"
  using updates_offer[of S ups "s\<lparr>is_in_estab := True\<rparr>"] unfolding release_parts offer_part_def by simp

lemma prime_offer [simp]: "offer_part (fst (prime_conncheck v s)) = offer_part s"
  by (simp add: prime_conncheck_def)

lemma rebase_offer [simp]: "offer_part (fst (rebase_signalled S v s)) = offer_part s"
  by (simp add: rebase_signalled_def fst_on_media)

text \<open>The offer of a report, by its parts.\<close>

definition offered_state :: "sa_ops \<Rightarrow> bool \<Rightarrow> ice_view \<Rightarrow> ice_act" where
  "offered_state S failed v s = ((let s1 = s\<lparr>is_restarting := False\<rparr> in if failed then s1 else fst (rebase_signalled S v s1))\<lparr>is_released := True\<rparr>, [])"

lemma offered_offer: "offer_part (fst (offered_state S f v s)) = (True, False, is_tmr s, is_in_estab s)"
proof -
  have "offer_part (fst (rebase_signalled S v (s\<lparr>is_restarting := False\<rparr>))) = offer_part (s\<lparr>is_restarting := False\<rparr>)" by simp
  then show ?thesis by (simp add: offered_state_def Let_def offer_part_def)
qed

lemma estab_offer_parts:
  "estab_offer S e c v ups v' s =
     (let failed = (e \<noteq> 0 \<or> c \<noteq> 0) \<and> \<not> is_restarting s;
          r = estab_release S (if failed then e else 0) (if failed then c else 0) ups (fst (offered_state S failed v s))
      in if failed then r else (fst (prime_conncheck v' (fst r)), snd r @ snd (prime_conncheck v' (fst r))))"
  by (simp add: estab_offer_def offered_state_def Let_def split: prod.splits)

lemma estab_offer_offer: "\<not> is_in_estab s \<Longrightarrow> offer_part (fst (estab_offer S e c v ups v' s)) = (True, False, is_tmr s, False)"
proof -
  assume a: "\<not> is_in_estab s"
  then have "\<not> is_in_estab (fst (offered_state S f v s))" for f using offered_offer[of S f v s] by (simp add: offer_part_def)
  then show ?thesis using a by (simp add: estab_offer_parts Let_def release_offer offered_offer)
qed

lemma reoffer_offer: "\<not> is_in_estab s \<Longrightarrow> offer_part (fst (reoffer_release S ups s)) = offer_part s"
  by (simp add: reoffer_release_def release_offer)

lemma poll_offer: "\<not> is_in_estab s \<Longrightarrow> offer_part (fst (reoffer_deadline S v ups s)) = offer_part s"
  by (simp add: reoffer_deadline_def reoffer_offer)

text \<open>\<open>ice_connected\<close> by its parts: the stream it remembers, whether it passes the pair on, and whether it re-offers.\<close>

definition connected_state :: "sa_ops \<Rightarrow> nat \<Rightarrow> sa option \<Rightarrow> sa option \<Rightarrow> ice_view \<Rightarrow> ice_sess \<Rightarrow> ice_sess" where
  "connected_state S i r1 r2 v s = s\<lparr>is_medial := (is_medial s)[i := remember_pair S v i r1 r2 (is_medial s ! i)]\<rparr>"

definition must_reoffer :: "sa_ops \<Rightarrow> nat \<Rightarrow> sa option \<Rightarrow> sa option \<Rightarrow> ice_view \<Rightarrow> ice_view \<Rightarrow> ice_sess \<Rightarrow> bool" where
  "must_reoffer S i r1 r2 v v' s \<longleftrightarrow> never_signalled S v' i (remember_pair S v i r1 r2 (is_medial s ! i)) \<and> \<not> is_reoffered s"

definition hold_reoffer :: "ice_view \<Rightarrow> ice_sess \<Rightarrow> ice_sess" where
  "hold_reoffer v s = s\<lparr>is_reoffered := True, is_reoffer_due := iv_now v + VOX_ICE_REOFFER_SECURE_DEADLINE_MS, is_tmr_reoffer := Some VOX_ICE_REOFFER_POLL_MS\<rparr>"

lemma connected_parts:
  "ice_connected S i r1 r2 v v' ups s =
     (let m = remember_pair S v i r1 r2 (is_medial s ! i); s1 = connected_state S i r1 r2 v s; s2 = s1\<lparr>is_reoffered := True\<rparr>;
          es = (if im_connh m then [I_connh i (case r1 of None \<Rightarrow> so_unspec S | Some a \<Rightarrow> a) r2] else [])
      in if is_call s \<noteq> None \<and> iv_incoming v
         then (s\<lparr>is_medial := (is_medial s)[i := if im_sel_set m then m\<lparr>im_held := True\<rparr> else m]\<rparr>, [])
         else if \<not> must_reoffer S i r1 r2 v v' s then (s1, es)
         else if sess_awaiting_secure v' s2 then (hold_reoffer v' s1, es)
         else (fst (reoffer_release S ups s2), es @ snd (reoffer_release S ups s2)))"
  by (simp add: ice_connected_def connected_state_def must_reoffer_def hold_reoffer_def Let_def split: prod.splits)

lemma connected_offer: "\<not> is_in_estab s \<Longrightarrow> offer_part (fst (ice_connected S i r1 r2 v v' ups s)) = offer_part s"
proof -
  assume a: "\<not> is_in_estab s"
  have "offer_part (connected_state S i r1 r2 v s) = offer_part s" by (simp add: connected_state_def)
  moreover have "\<not> is_in_estab (connected_state S i r1 r2 v s)" using a by (simp add: connected_state_def)
  ultimately show ?thesis by (simp add: connected_parts Let_def hold_reoffer_def reoffer_offer)
qed

lemma restart_parts:
  "restart_sess S T fresh built v laddr s = (r, s', es) \<Longrightarrow> r = None \<and>
     s' = (fst (on_media (restart_media built) (s\<lparr>is_inner := True, is_released := False, is_restarting := True, is_reoffered := False, is_await_answer := True\<rparr>)))
            \<lparr>is_tmr := Some (restart_deadline T)\<rparr> \<or> r \<noteq> None \<and> s' = s"
  by (auto simp: restart_sess_def Let_def split: if_splits prod.splits)

lemma restart_offer:
  assumes "restart_sess S T fresh built v laddr s = (r, s', es)"
  shows "r = None \<and> offer_part s' = (False, True, Some (restart_deadline T), is_in_estab s) \<or> r \<noteq> None \<and> s' = s"
  using restart_parts[OF assms] by (auto simp: offer_part_def fst_on_media)

lemma estab_offers:
  assumes "\<not> is_in_estab s"
  shows "offer_part (fst (ice_estab S e c v ups v' s)) = (True, False, None, False)"
proof -
  have t: "offer_part (fst (estab_offer S e c v ups v' x)) = (True, False, None, False)"
    if "\<not> is_in_estab x" "is_tmr x = None" for x e c using estab_offer_offer[OF that(1)] that(2) by simp
  have "offer_part (s\<lparr>is_tmr := None, is_restarting := False\<rparr>) = (True, False, None, False)" if "is_released s"
    using that assms by (simp add: offer_part_def)
  then show ?thesis using t assms by (simp add: ice_estab_def Let_def)
qed

text \<open>Each step leaves the offer as it is, makes it, or starts waiting for a new one.\<close>

lemma step_offer:
  assumes "\<not> is_in_estab s" and "is_restarting s \<longrightarrow> \<not> is_released s"
  shows "offer_part (fst (ice_step S T i s)) \<in> {offer_part s, (True, False, None, False), (False, True, Some (restart_deadline T), False)}"
proof (cases i)
  case (II_estab e c v ups v')
  then show ?thesis using estab_offers[OF assms(1)] by simp
next
  case (II_deadline ups)
  let ?s = "s\<lparr>is_tmr := None, is_restarting := False, is_released := True\<rparr>"
  have "offer_part (fst (estab_release S 0 0 ups ?s)) = offer_part ?s" using assms by (intro release_offer) simp
  then show ?thesis using assms unfolding II_deadline by (auto simp: gather_deadline_def Let_def offer_part_def)
next
  case (II_reoffer v ups)
  then show ?thesis using poll_offer[OF assms(1)] by simp
next
  case (II_rrestart f b v)
  obtain r s' es where r: "restart_sess S T f b v None (s\<lparr>is_tmr_rrestart := None\<rparr>) = (r, s', es)" by (metis prod_cases3)
  then show ?thesis using restart_offer[OF r] assms unfolding II_rrestart by (auto simp: rrestart_handler_def Let_def)
next
  case (II_connected j r1 r2 v v' ups)
  then show ?thesis using connected_offer[OF assms(1)] by simp
next
  case (II_update v)
  then show ?thesis by simp
next
  case (II_restart f b v l)
  obtain r s' es where r: "restart_sess S T f b v l s = (r, s', es)" by (metis prod_cases3)
  then show ?thesis using restart_offer[OF r] assms unfolding II_restart by auto
next
  case (II_media v ok k s1 s2 c)
  then show ?thesis by (simp add: ice_mediah_def Let_def)
qed

definition offer_due :: "u32 \<Rightarrow> ice_sess \<Rightarrow> bool" where
  "offer_due T s \<longleftrightarrow> \<not> is_in_estab s \<and> (is_restarting s \<longrightarrow> \<not> is_released s) \<and>
     (\<not> is_released s \<and> (T \<noteq> 0 \<or> is_restarting s) \<longrightarrow> is_tmr s = Some (restart_deadline T))"

lemma offer_due_part: "offer_part s' = offer_part s \<Longrightarrow> offer_due T s \<Longrightarrow> offer_due T s'"
  by (simp add: offer_due_def offer_part_def)

lemma offer_due_step: "offer_due T s \<Longrightarrow> offer_due T (fst (ice_step S T i s))"
  using step_offer[of s S T i] offer_due_part[of "fst (ice_step S T i s)" s T] by (auto simp: offer_due_def offer_part_def)

interpretation ice_offer: invariant_machine "ice_step S T" ice_ok "offer_due T"
  by unfold_locales (rule offer_due_step)

subsection \<open>The budget of answered restarts\<close>

definition rr_wf :: "ice_sess \<Rightarrow> bool" where
  "rr_wf s \<longleftrightarrow> is_rrestarts s \<le> VOX_ICE_MAX_REMOTE_RESTARTS \<and> (is_tmr_rrestart s \<noteq> None \<longrightarrow> 1 \<le> is_rrestarts s)"

text \<open>The restarts answered so far: those counted, less the one whose timer is running.\<close>

definition answered :: "ice_sess \<Rightarrow> nat" where
  "answered s = is_rrestarts s - (if is_tmr_rrestart s = None then 0 else 1)"

definition same_budget :: "ice_sess \<Rightarrow> ice_sess \<Rightarrow> bool" where
  "same_budget s s' \<longleftrightarrow> (rr_wf s \<longrightarrow> rr_wf s' \<and> answered s' = answered s)"

lemma same_budget_trans: "same_budget a b \<Longrightarrow> same_budget b c \<Longrightarrow> same_budget a c"
  by (simp add: same_budget_def)

lemma same_budget_fields:
  "is_rrestarts s' = is_rrestarts s \<Longrightarrow> is_tmr_rrestart s' = is_tmr_rrestart s \<Longrightarrow> same_budget s s'"
  by (simp add: same_budget_def rr_wf_def answered_def)

lemma reassert_rr [simp]:
  "is_rrestarts (fst (reassert_selected S v s)) = is_rrestarts s" "is_tmr_rrestart (fst (reassert_selected S v s)) = is_tmr_rrestart s"
  "is_rrestarts (snd (remote_ufrag_sync v s)) = is_rrestarts s" "is_tmr_rrestart (snd (remote_ufrag_sync v s)) = is_tmr_rrestart s"
  "is_rrestarts (fst (prime_conncheck v s)) = is_rrestarts s" "is_tmr_rrestart (fst (prime_conncheck v s)) = is_tmr_rrestart s"
  "is_rrestarts (fst (rebase_signalled S v s)) = is_rrestarts s" "is_tmr_rrestart (fst (rebase_signalled S v s)) = is_tmr_rrestart s"
  by (simp_all add: reassert_selected_def remote_ufrag_sync_def prime_conncheck_def rebase_signalled_def fst_on_media)

lemma answer_budget: "same_budget s (answer_remote_restart s)"
  by (auto simp: same_budget_def answer_remote_restart_def rr_wf_def answered_def)

lemma updateh_budget: "same_budget s (fst (snd (ice_updateh S v s)))"
proof -
  let ?x = "forget_selected ((snd (remote_ufrag_sync v s))\<lparr>is_await_answer := False\<rparr>)"
  have "same_budget s ?x" by (rule same_budget_fields) (simp_all add: forget_selected_def)
  then have "same_budget s (answer_remote_restart ?x)" using answer_budget same_budget_trans by blast
  moreover have "same_budget s (fst (reassert_selected S v s))"
    "same_budget s (fst (reassert_selected S v ((snd (remote_ufrag_sync v s))\<lparr>is_await_answer := False\<rparr>)))"
    by (rule same_budget_fields; simp)+
  ultimately show ?thesis using \<open>same_budget s ?x\<close> by (simp add: updateh_state Let_def)
qed

lemma updates_budget: "same_budget s (fst (updates_within S ups s))"
proof (induction ups arbitrary: s)
  case Nil
  then show ?case by (simp add: same_budget_fields)
next
  case (Cons v ups)
  show ?case unfolding updates_parts using updateh_budget Cons.IH same_budget_trans by blast
qed

lemma release_budget: "same_budget s (fst (estab_release S e c ups s))"
proof -
  let ?u = "fst (updates_within S ups (s\<lparr>is_in_estab := True\<rparr>))"
  have "same_budget s (s\<lparr>is_in_estab := True\<rparr>)" "same_budget ?u (?u\<lparr>is_in_estab := False\<rparr>)" "same_budget s s"
    by (simp_all add: same_budget_fields)
  then have "same_budget s (?u\<lparr>is_in_estab := False\<rparr>)" using updates_budget same_budget_trans by blast
  then show ?thesis using \<open>same_budget s s\<close> by (simp add: release_parts)
qed

lemma release_budget_from: "is_rrestarts t = is_rrestarts s \<Longrightarrow> is_tmr_rrestart t = is_tmr_rrestart s \<Longrightarrow>
    same_budget s (fst (estab_release S e c ups t))"
  using same_budget_fields[of t s] release_budget[of t] same_budget_trans by blast

lemma estab_budget: "same_budget s (fst (ice_estab S e c v ups v' s))"
proof -
  have o: "same_budget s (fst (estab_offer S e c v ups v' t))"
    if "is_rrestarts t = is_rrestarts s" "is_tmr_rrestart t = is_tmr_rrestart s" for t e c
  proof -
    have "same_budget s (fst (estab_release S e' c' ups (fst (offered_state S f v t))))" for e' c' f
      using that by (intro release_budget_from) (simp_all add: offered_state_def Let_def)
    moreover have "same_budget x (fst (prime_conncheck v' x))" for x by (simp add: same_budget_fields)
    ultimately have "same_budget s (fst (prime_conncheck v' (fst (estab_release S e' c' ups (fst (offered_state S f v t))))))" for e' c' f
      using same_budget_trans by blast
    with \<open>\<And>e' c' f. same_budget s (fst (estab_release S e' c' ups (fst (offered_state S f v t))))\<close>
    show ?thesis by (simp add: estab_offer_parts Let_def)
  qed
  show ?thesis using o[of "s\<lparr>is_tmr := None\<rparr>"] o[of "s\<lparr>is_tmr := None, is_restarting := False\<rparr>"]
    by (simp add: ice_estab_def Let_def same_budget_fields)
qed

lemma connected_budget: "same_budget s (fst (ice_connected S i r1 r2 v v' ups s))"
proof -
  have "same_budget s (fst (reoffer_release S ups ((connected_state S i r1 r2 v s)\<lparr>is_reoffered := True\<rparr>)))"
    unfolding reoffer_release_def by (rule release_budget_from) (simp_all add: connected_state_def)
  then show ?thesis by (simp add: connected_parts Let_def same_budget_fields connected_state_def hold_reoffer_def)
qed

lemma restart_budget: "same_budget s (fst (snd (restart_sess S T f b v l s)))"
proof -
  obtain r s' es where r: "restart_sess S T f b v l s = (r, s', es)" by (metis prod_cases3)
  then show ?thesis using restart_parts[OF r] by (auto intro!: same_budget_fields simp: fst_on_media)
qed

fun is_rrestart_step :: "ice_in \<Rightarrow> bool" where
  "is_rrestart_step (II_rrestart f b v) = True"
| "is_rrestart_step i = False"

lemma step_budget:
  assumes "rr_wf s" and "ice_ok i s"
  shows "rr_wf (fst (ice_step S T i s)) \<and> answered (fst (ice_step S T i s)) = answered s + (if is_rrestart_step i then 1 else 0)"
proof (cases i)
  case (II_rrestart f b v)
  have "same_budget (s\<lparr>is_tmr_rrestart := None\<rparr>) (fst (snd (restart_sess S T f b v None (s\<lparr>is_tmr_rrestart := None\<rparr>))))"
    by (rule restart_budget)
  then show ?thesis using assms II_rrestart
    by (auto simp: rrestart_handler_def Let_def same_budget_def rr_wf_def answered_def)
next
  case (II_deadline ups)
  have "same_budget s (fst (estab_release S 0 0 ups (s\<lparr>is_tmr := None, is_restarting := False, is_released := True\<rparr>)))"
    by (rule release_budget_from) simp_all
  then have "same_budget s (fst (gather_deadline S ups s))" by (simp add: gather_deadline_def Let_def same_budget_fields)
  then show ?thesis using assms II_deadline by (simp add: same_budget_def)
next
  case (II_reoffer v ups)
  have "same_budget s (fst (reoffer_release S ups s))"
    unfolding reoffer_release_def by (rule release_budget_from) simp_all
  then have "same_budget s (fst (reoffer_deadline S v ups s))" by (simp add: reoffer_deadline_def same_budget_fields)
  then show ?thesis using assms II_reoffer by (simp add: same_budget_def)
next
  case (II_media v ok k s1 s2 c)
  have "same_budget s (snd (ice_mediah S v ok k s1 s2 c s))"
    by (auto simp: ice_mediah_def Let_def intro!: same_budget_fields)
  then show ?thesis using assms II_media by (simp add: same_budget_def)
qed (use assms estab_budget connected_budget updateh_budget restart_budget in \<open>auto simp: same_budget_def\<close>)

lemma run_budget:
  assumes "rr_wf s" and "legal_run (ice_step S T) ice_ok xs s"
  shows "answered s + length (filter is_rrestart_step xs) \<le> VOX_ICE_MAX_REMOTE_RESTARTS"
  using assms
proof (induction xs arbitrary: s)
  case Nil
  then show ?case by (auto simp: rr_wf_def answered_def)
next
  case (Cons i xs)
  then have "rr_wf (fst (ice_step S T i s))" "answered (fst (ice_step S T i s)) = answered s + (if is_rrestart_step i then 1 else 0)"
    using step_budget[of s i S T] by simp_all
  then show ?case using Cons.IH[of "fst (ice_step S T i s)"] Cons.prems(2) by (simp split: if_splits)
qed

subsection \<open>Between a restart and its answer\<close>

text \<open>A run that leads from states with \<open>P\<close> to states with \<open>P\<close> and never has the effect \<open>e\<close>.\<close>

definition spares :: "(ice_sess \<Rightarrow> bool) \<Rightarrow> ice_eff \<Rightarrow> ice_sess \<times> ice_eff list \<Rightarrow> bool" where
  "spares P e r \<longleftrightarrow> P (fst r) \<and> e \<notin> set (snd r)"

definition awaiting :: "ice_sess \<Rightarrow> bool" where
  "awaiting s \<longleftrightarrow> is_await_answer s"

lemma awaiting_fields: "is_await_answer s' = is_await_answer s \<Longrightarrow> awaiting s' = awaiting s"
  by (simp add: awaiting_def)

lemma reassert_spares: "awaiting s \<Longrightarrow> spares awaiting I_update (reassert_selected S v s)"
proof -
  assume a: "awaiting s"
  have "I_update \<notin> set (snd (reassert_media S v i m))" for i m by (simp add: reassert_media_def Let_def split: option.splits)
  then show ?thesis using a each_media_effects[of I_update "reassert_media S v" 0 "is_medial s"]
    by (auto simp: spares_def reassert_selected_def fst_on_media snd_on_media awaiting_def)
qed

lemma in_estab_kept: "is_in_estab (fst (snd (ice_updateh S v s))) = is_in_estab s"
  using updateh_offer[of S v s] by (simp add: offer_part_def)

lemma updates_spare: "is_in_estab s \<Longrightarrow> awaiting s \<Longrightarrow> spares awaiting I_update (updates_within S ups s)"
proof (induction ups arbitrary: s)
  case Nil
  then show ?case by (simp add: spares_def)
next
  case (Cons v ups)
  have "snd (ice_updateh S v s) = reassert_selected S v s" using Cons.prems by (simp add: ice_updateh_def awaiting_def)
  then have "spares awaiting I_update (snd (ice_updateh S v s))" using reassert_spares Cons.prems(2) by simp
  moreover from this have "spares awaiting I_update (updates_within S ups (fst (snd (ice_updateh S v s))))"
    using Cons.prems(1) by (intro Cons.IH) (simp_all add: in_estab_kept spares_def)
  ultimately show ?case unfolding spares_def updates_parts by simp
qed

lemma release_spares: "awaiting s \<Longrightarrow> spares awaiting I_update (estab_release S e c ups s)"
  using updates_spare[of "s\<lparr>is_in_estab := True\<rparr>" S ups] by (simp add: spares_def release_parts awaiting_def)

lemma estab_spares: "awaiting s \<Longrightarrow> \<not> iv_incoming v' \<Longrightarrow> spares awaiting I_update (ice_estab S e c v ups v' s)"
proof -
  assume a: "awaiting s" and n: "\<not> iv_incoming v'"
  have o: "spares awaiting I_update (estab_offer S e c v ups v' t)" if "awaiting t" for t e c
  proof -
    have "awaiting (fst (offered_state S f v t))" for f
      using that by (simp add: offered_state_def Let_def awaiting_def rebase_signalled_def fst_on_media)
    then have "spares awaiting I_update (estab_release S e' c' ups (fst (offered_state S f v t)))" for e' c' f by (rule release_spares)
    moreover have "prime_conncheck v' x = (x, [])" for x using n by (simp add: prime_conncheck_def)
    ultimately show ?thesis by (simp add: estab_offer_parts Let_def spares_def)
  qed
  show ?thesis using a o[of "s\<lparr>is_tmr := None\<rparr>"] o[of "s\<lparr>is_tmr := None, is_restarting := False\<rparr>"]
    by (simp add: ice_estab_def Let_def awaiting_def) (simp add: spares_def awaiting_def)
qed

lemma connected_spares: "awaiting s \<Longrightarrow> spares awaiting I_update (ice_connected S i r1 r2 v v' ups s)"
proof -
  assume a: "awaiting s"
  then have "spares awaiting I_update (reoffer_release S ups ((connected_state S i r1 r2 v s)\<lparr>is_reoffered := True\<rparr>))"
    unfolding reoffer_release_def by (intro release_spares) (simp add: awaiting_def connected_state_def)
  then show ?thesis using a by (simp add: connected_parts Let_def spares_def awaiting_def connected_state_def hold_reoffer_def)
qed

definition dropped :: "sa_ops \<Rightarrow> ice_view \<Rightarrow> sa option \<Rightarrow> nat \<Rightarrow> ice_media \<Rightarrow> ice_media \<times> ice_eff list" where
  "dropped S v l i m = (m, (if im_inner m then [I_drop_media i] else []) @ media_clear_stale S v l i m)"

lemma restart_effects:
  "snd (snd (restart_sess S T f b v l s)) =
     (if is_medial s = [] \<or> is_restarting s then []
      else if f \<noteq> None then [I_sess True]
      else I_sess True # (case l of None \<Rightarrow> [] | Some a \<Rightarrow> if so_isset_addr S a then [I_session_laddr a] else []) @
        snd (each_media (dropped S v l) 0 (is_medial s)) @ I_drop_sess # snd (each_media (restart_media b) 0 (is_medial s)))"
  by (simp add: restart_sess_def dropped_def [abs_def] Let_def on_media_def case_prod_unfold)

lemma clear_no_update: "I_update \<notin> set (media_clear_stale S v l i m)"
proof -
  have "list_all (\<lambda>e. e \<noteq> I_update) (media_clear_stale S v l i m)"
    by (simp add: media_clear_stale_def split: option.split)
  then show ?thesis by (auto simp: list_all_iff)
qed

lemma restart_spares: "awaiting s \<Longrightarrow> spares awaiting I_update (snd (restart_sess S T f b v l s))"
proof -
  assume a: "awaiting s"
  obtain r s' es where r: "restart_sess S T f b v l s = (r, s', es)" by (metis prod_cases3)
  have "I_update \<notin> set (snd (restart_media b i m))" for i m by (simp add: restart_media_def)
  then have "I_update \<notin> set (snd (each_media (restart_media b) 0 (is_medial s)))"
    using each_media_effects[of I_update "restart_media b"] by blast
  moreover have "I_update \<notin> set (snd (dropped S v l i m))" for i m using clear_no_update by (simp add: dropped_def)
  then have "I_update \<notin> set (snd (each_media (dropped S v l) 0 (is_medial s)))"
    using each_media_effects[of I_update "dropped S v l"] by blast
  ultimately have "I_update \<notin> set es" using restart_effects[of S T f b v l s] r by (auto split: if_splits option.splits)
  moreover have "awaiting s'" using restart_parts[OF r] a by (auto simp: awaiting_def fst_on_media)
  ultimately show ?thesis using r by (simp add: spares_def)
qed

text \<open>Everything but an SDP exchange, and reports that find the call ringing.\<close>

fun before_answer :: "ice_in \<Rightarrow> bool" where
  "before_answer (II_update v) = False"
| "before_answer (II_estab e c v ups v') = (\<not> iv_incoming v')"
| "before_answer i = True"

lemma step_spares: "awaiting s \<Longrightarrow> before_answer i \<Longrightarrow> spares awaiting I_update (ice_step S T i s)"
proof (cases i)
  case (II_deadline ups)
  assume a: "awaiting s"
  have "spares awaiting I_update (estab_release S 0 0 ups (s\<lparr>is_tmr := None, is_restarting := False, is_released := True\<rparr>))"
    using a by (intro release_spares) (simp add: awaiting_def)
  then show ?thesis using a II_deadline by (simp add: gather_deadline_def Let_def spares_def awaiting_def)
next
  case (II_reoffer v ups)
  assume a: "awaiting s"
  then have "spares awaiting I_update (reoffer_release S ups s)"
    unfolding reoffer_release_def by (intro release_spares) (simp add: awaiting_def)
  then show ?thesis using a II_reoffer by (simp add: reoffer_deadline_def spares_def awaiting_def)
next
  case (II_rrestart f b v)
  assume a: "awaiting s"
  then have "spares awaiting I_update (snd (restart_sess S T f b v None (s\<lparr>is_tmr_rrestart := None\<rparr>)))"
    by (intro restart_spares) (simp add: awaiting_def)
  then show ?thesis using II_rrestart by (simp add: rrestart_handler_def Let_def)
next
  case (II_media v ok k s1 s2 c)
  assume a: "awaiting s"
  then show ?thesis using II_media by (simp add: ice_mediah_def Let_def spares_def awaiting_def)
qed (simp_all add: estab_spares connected_spares restart_spares)

lemma run_spares:
  assumes "awaiting s" and "\<forall>i \<in> set xs. before_answer i"
  shows "spares awaiting I_update (run_acts (ice_step S T) xs s)"
  using assms
proof (induction xs arbitrary: s)
  case Nil
  then show ?case by (simp add: spares_def skip_def)
next
  case (Cons i xs)
  then have "spares awaiting I_update (ice_step S T i s)" using step_spares by simp
  with Cons show ?case by (simp add: spares_def)
qed

subsection \<open>Checks that conclude while the call rings\<close>

lemma each_media_Cons:
  "fst (each_media f i (m # ms)) = fst (f i m) # fst (each_media f (Suc i) ms)"
  "snd (each_media f i (m # ms)) = snd (f i m) @ snd (each_media f (Suc i) ms)"
  by (simp_all split: prod.splits)

lemma each_media_concat: "snd (each_media f i ms) = concat (map (\<lambda>k. snd (f (i + k) (ms ! k))) [0..<length ms])"
proof (induction ms arbitrary: i)
  case Nil
  then show ?case by simp
next
  case (Cons m ms)
  have "[0..<length (m # ms)] = 0 # map Suc [0..<length ms]" by (simp add: upt_conv_Cons map_Suc_upt del: upt_Suc)
  then show ?case using Cons.IH[of "Suc i"] unfolding each_media_Cons by (simp add: comp_def del: upt_Suc each_media.simps)
qed

lemma each_media_nth: "k < length ms \<Longrightarrow> fst (each_media f i ms) ! k = fst (f (i + k) (ms ! k))"
proof (induction ms arbitrary: i k)
  case (Cons m ms)
  show ?case
  proof (cases k)
    case 0
    then show ?thesis unfolding each_media_Cons by simp
  next
    case (Suc n)
    then show ?thesis using Cons.IH[of n "Suc i"] Cons.prems unfolding each_media_Cons by simp
  qed
qed simp

text \<open>The pair the checks last concluded on, for each stream.\<close>

fun concluded :: "sa_ops \<Rightarrow> (nat \<Rightarrow> (sa \<times> sa) option) \<Rightarrow> ice_in list \<Rightarrow> nat \<Rightarrow> (sa \<times> sa) option" where
  "concluded S p [] = p"
| "concluded S p (II_connected i (Some a) r2 v v' ups # xs) =
     concluded S (if so_isset_all S a then p(i \<mapsto> (a, case r2 of None \<Rightarrow> so_unspec S | Some b \<Rightarrow> b)) else p) xs"
| "concluded S p (x # xs) = concluded S p xs"

fun ringing_in :: "nat \<Rightarrow> ice_in \<Rightarrow> bool" where
  "ringing_in n (II_connected i r1 r2 v v' ups) = (i < n \<and> iv_incoming v)"
| "ringing_in n i = False"

definition holds_pair :: "(sa \<times> sa) option \<Rightarrow> ice_media \<Rightarrow> bool" where
  "holds_pair p m \<longleftrightarrow> im_connh m \<and> (case p of None \<Rightarrow> \<not> im_sel_set m \<and> \<not> im_held m | Some ab \<Rightarrow> im_sel_set m \<and> im_held m \<and> im_selected m = ab)"

definition holds_pairs :: "(nat \<Rightarrow> (sa \<times> sa) option) \<Rightarrow> ice_sess \<Rightarrow> bool" where
  "holds_pairs p s \<longleftrightarrow> (\<forall>k < length (is_medial s). holds_pair (p k) (is_medial s ! k))"

text \<open>What conclusions during ringing leave as it is.\<close>

definition ring_kept :: "ice_sess \<Rightarrow> ice_sess \<Rightarrow> bool" where
  "ring_kept s s' \<longleftrightarrow> is_call s' = is_call s \<and> length (is_medial s') = length (is_medial s) \<and> is_in_estab s' = is_in_estab s \<and>
     is_sdp s' = is_sdp s \<and> (\<forall>k < length (is_medial s). im_rufrag (is_medial s' ! k) = im_rufrag (is_medial s ! k) \<and>
       im_sdpm (is_medial s' ! k) = im_sdpm (is_medial s ! k))"

lemma ringing_step:
  assumes "holds_pairs p s" and "is_call s \<noteq> None" and "ringing_in (length (is_medial s)) x"
  shows "snd (ice_step S T x s) = []" and "ring_kept s (fst (ice_step S T x s))"
    and "holds_pairs (concluded S p [x]) (fst (ice_step S T x s))"
proof -
  obtain i r1 r2 v v' ups where x: "x = II_connected i r1 r2 v v' ups" "i < length (is_medial s)" "iv_incoming v"
    using assms(3) by (cases x) auto
  let ?m = "remember_pair S v i r1 r2 (is_medial s ! i)"
  define m' where "m' = (if im_sel_set ?m then ?m\<lparr>im_held := True\<rparr> else ?m)"
  have step: "ice_step S T x s = (s\<lparr>is_medial := (is_medial s)[i := m']\<rparr>, [])"
    using x assms(2) by (simp add: ice_connected_def Let_def m'_def)
  have m: "holds_pair (p i) (is_medial s ! i)" using assms(1) x(2) by (simp add: holds_pairs_def)
  have "holds_pair (concluded S p [x] i) m'"
    using m x(1) by (cases r1) (auto simp: m'_def remember_pair_def holds_pair_def split: option.splits)
  moreover have "concluded S p [x] k = p k" if "k \<noteq> i" for k using x(1) that by (cases r1) auto
  ultimately show "holds_pairs (concluded S p [x]) (fst (ice_step S T x s))"
    using assms(1) x(2) by (auto simp: step holds_pairs_def nth_list_update)
  have "im_rufrag m' = im_rufrag (is_medial s ! i) \<and> im_sdpm m' = im_sdpm (is_medial s ! i)"
    by (simp add: m'_def remember_pair_def split: option.splits)
  then show "ring_kept s (fst (ice_step S T x s))" using x(2) by (auto simp: step ring_kept_def nth_list_update)
  show "snd (ice_step S T x s) = []" by (simp add: step)
qed

lemma concluded_Cons: "concluded S p (x # xs) = concluded S (concluded S p [x]) xs"
proof (cases x)
  case (II_connected i r1 r2 v v' ups)
  then show ?thesis by (cases r1) simp_all
qed simp_all

lemma ringing_run:
  assumes "holds_pairs p s" and "is_call s \<noteq> None" and "\<forall>x \<in> set xs. ringing_in (length (is_medial s)) x"
  shows "snd (run_acts (ice_step S T) xs s) = [] \<and> holds_pairs (concluded S p xs) (fst (run_acts (ice_step S T) xs s)) \<and>
    ring_kept s (fst (run_acts (ice_step S T) xs s))"
  using assms
proof (induction xs arbitrary: p s)
  case Nil
  then show ?case by (simp add: skip_def ring_kept_def)
next
  case (Cons x xs)
  let ?t = "fst (ice_step S T x s)"
  have x: "ringing_in (length (is_medial s)) x" using Cons.prems(3) by simp
  note t = ringing_step[OF Cons.prems(1,2) x, of S T]
  have "is_call ?t \<noteq> None" "\<forall>y \<in> set xs. ringing_in (length (is_medial ?t)) y"
    using t(2) Cons.prems(2,3) by (auto simp: ring_kept_def)
  note r = Cons.IH[OF t(3) this]
  have "ring_kept s (fst (run_acts (ice_step S T) xs ?t))" using r t(2) by (auto simp: ring_kept_def)
  then show ?case using r t(1) by (simp add: concluded_Cons[of S p x xs])
qed

lemma reassert_ufrag: "snd (reassert_media S v i (ufrag_media w j m)) = snd (reassert_media S v i m)"
  by (simp add: reassert_media_def ufrag_media_def Let_def split: option.splits)

lemma reassert_held:
  "holds_pair p m \<Longrightarrow> p \<noteq> None \<Longrightarrow> snd (reassert_media S v i m) = [I_connh i (fst (the p)) (second_of S (snd (the p)))]"
  "holds_pair None m \<Longrightarrow> snd (reassert_media S v i m) = []"
  by (auto simp: holds_pair_def reassert_media_def Let_def)

text \<open>What is delivered for a stream.\<close>

definition delivery :: "sa_ops \<Rightarrow> nat \<Rightarrow> (sa \<times> sa) option \<Rightarrow> ice_eff list" where
  "delivery S i p = (case p of None \<Rightarrow> [] | Some (a, b) \<Rightarrow> [I_connh i a (second_of S b)])"

lemma reassert_delivers: "holds_pair p m \<Longrightarrow> snd (reassert_media S v i m) = delivery S i p"
  using reassert_held(1)[of p m S v i] reassert_held(2)[of m S v i] by (cases p) (auto simp: delivery_def)

lemma update_delivers:
  assumes "holds_pairs p s" and "\<not> is_in_estab s" and "\<forall>k < length (is_medial s). \<not> ufrag_changed v k (is_medial s ! k)"
  shows "snd (snd (ice_updateh S v s)) = I_update # concat (map (\<lambda>k. delivery S k (p k)) [0..<length (is_medial s)])"
proof -
  let ?s1 = "(snd (remote_ufrag_sync v s))\<lparr>is_await_answer := False\<rparr>"
  have ch: "\<not> fst (remote_ufrag_sync v s)" using assms(3) by (auto simp: remote_ufrag_sync_def)
  have len: "length (is_medial ?s1) = length (is_medial s)" by (simp add: remote_ufrag_sync_def fst_on_media)
  have "snd (reassert_media S v k (is_medial ?s1 ! k)) = delivery S k (p k)" if "k < length (is_medial s)" for k
    using that assms(1) reassert_ufrag[of S v k v k "is_medial s ! k"]
    by (simp add: remote_ufrag_sync_def fst_on_media each_media_nth reassert_delivers holds_pairs_def)
  then have "snd (reassert_selected S v ?s1) = concat (map (\<lambda>k. delivery S k (p k)) [0..<length (is_medial s)])"
    unfolding reassert_selected_def snd_on_media each_media_concat len by (intro arg_cong[where f = concat] map_cong) simp_all
  then show ?thesis using ch assms(2) by (simp add: updateh_effects Let_def)
qed

text \<open>A new session.\<close>

lemma new_sess:
  assumes "ice_sessh T ok inner call sdp srv user pass = (r, Some s)"
  shows "offer_due T s" and "rr_wf s" and "answered s = 0"
  using assms by (auto simp: ice_sessh_def Let_def offer_due_def restart_deadline_def rr_wf_def answered_def split: if_splits)

lemma restart_clears:
  assumes "restart_sess S T f b v l s = (None, s', es)" and "k < length (is_medial s)"
  shows "I_clear_candidates k \<in> set es"
proof -
  have "I_clear_candidates k \<in> set (snd (dropped S v l k (is_medial s ! k)))"
    by (simp add: dropped_def media_clear_stale_def)
  then have "I_clear_candidates k \<in> set (snd (each_media (dropped S v l) 0 (is_medial s)))"
    unfolding each_media_concat using assms(2) by (auto simp del: upt_Suc)
  moreover have "is_medial s \<noteq> []" "\<not> is_restarting s" "f = None"
    using assms by (auto simp: restart_sess_def split: if_splits)
  ultimately show ?thesis using restart_effects[of S T f b v l s] assms(1) by simp
qed

section \<open>Properties\<close>


text \<open>C25: however often the peer restarts ICE, and however reports, restarts of our own and SDP exchanges
  come in between, a session answers at most two of those restarts with one of its own.\<close>

theorem peer_restarts_bounded:
  assumes "ice_sessh T ok inner call sdp srv user pass = (r, Some s0)" and "legal_run (ice_step S T) ice_ok xs s0"
  shows "length (filter is_rrestart_step xs) \<le> VOX_ICE_MAX_REMOTE_RESTARTS"
  using run_budget[OF new_sess(2)[OF assms(1)] assms(2)] new_sess(3)[OF assms(1)] by simp

text \<open>C6: after an ICE restart the media-NAT's own update handler, which starts the connectivity checks,
  is not run before the SDP exchange that carries the answer, whatever else happens and however often
  the stack enters the update handler while it takes the offer.\<close>

theorem checks_wait_for_answer:
  assumes "restart_sess S T f b v l s = (None, s1, es)" and "\<forall>i \<in> set xs. before_answer i"
  shows "I_update \<notin> set (snd (run_acts (ice_step S T) xs s1)) \<and> is_await_answer (fst (run_acts (ice_step S T) xs s1))"
proof -
  have "awaiting s1" using restart_parts[OF assms(1)] by (auto simp: awaiting_def fst_on_media)
  from run_spares[OF this assms(2)] show ?thesis by (simp add: spares_def awaiting_def)
qed

text \<open>C17: while a call rings nothing of what the checks conclude reaches the stack; the SDP exchange that
  follows, under unchanged credentials of the peer, delivers to each stream exactly the pair its
  checks last concluded on, and nothing to a stream without one.\<close>

theorem ringing_pairs_delivered_at_answer:
  assumes "is_call s \<noteq> None" and "\<not> is_in_estab s"
    and "\<forall>m \<in> set (is_medial s). im_connh m \<and> \<not> im_sel_set m \<and> \<not> im_held m"
    and "\<forall>x \<in> set xs. ringing_in (length (is_medial s)) x"
    and "\<forall>k < length (is_medial s). \<not> ufrag_changed v k (is_medial s ! k)"
  shows "snd (run_acts (ice_step S T) xs s) = [] \<and>
    snd (ice_step S T (II_update v) (fst (run_acts (ice_step S T) xs s))) =
      I_update # concat (map (\<lambda>k. delivery S k (concluded S (\<lambda>_. None) xs k)) [0..<length (is_medial s)])"
proof -
  have "holds_pairs (\<lambda>_. None) s" using assms(3) by (simp add: holds_pairs_def holds_pair_def)
  note r = ringing_run[OF this assms(1,4), of S T]
  let ?t = "fst (run_acts (ice_step S T) xs s)"
  have k: "ring_kept s ?t" and h: "holds_pairs (concluded S (\<lambda>_. None) xs) ?t" using r by auto
  have "\<not> is_in_estab ?t" "\<forall>k < length (is_medial ?t). \<not> ufrag_changed v k (is_medial ?t ! k)" "length (is_medial ?t) = length (is_medial s)"
    using k assms(2,5) by (auto simp: ring_kept_def ufrag_changed_def)
  then show ?thesis using update_delivers[OF h] r by simp
qed

text \<open>C37: a restart does not stop a candidate re-offer that is still held back: its timer stays armed,
  and when it fires with the media secure the offer goes out while the restart is still gathering,
  after the candidates of every stream have been taken out of the SDP.\<close>

theorem held_reoffer_crosses_restart:
  assumes "restart_sess S T f b v l s = (None, s1, es)" and "is_tmr_reoffer s \<noteq> None" and "\<not> is_in_estab s"
    and "\<not> sess_awaiting_secure w s1"
  shows "ice_ok (II_reoffer w []) s1 \<and> (\<forall>k < length (is_medial s). I_clear_candidates k \<in> set es) \<and>
    (let (s2, es') = ice_step S T (II_reoffer w []) s1 in es' = [I_estab 0 0] \<and> is_restarting s2 \<and> \<not> is_released s2)"
  using assms(2-4) restart_parts[OF assms(1)] restart_clears[OF assms(1)]
  by (auto simp: fst_on_media reoffer_deadline_def reoffer_release_def estab_release_def)

section \<open>Witnesses\<close>

definition ex_sa :: sa_ops where
  "ex_sa = \<lparr>so_unspec = 0, so_isset_addr = (\<lambda>a. a \<noteq> 0), so_isset_all = (\<lambda>a. a \<noteq> 0), so_cmp_addr = (=), so_cmp_all = (=),
     so_set_port = (\<lambda>a b. a)\<rparr>"

definition ex_view :: ice_view where
  "ex_view = \<lparr>iv_laddr = (\<lambda>_. Some 1), iv_raddr = (\<lambda>_. Some 2), iv_rufrag = (\<lambda>_. None), iv_fingerprint = (\<lambda>_. True), iv_dup = (\<lambda>_. True),
     iv_local1 = (\<lambda>_. Some 1), iv_local2 = (\<lambda>_. None), iv_session_laddr = Some 1, iv_incoming = True, iv_streams = Some [True],
     iv_now = 0, iv_update = None\<rparr>"

definition ex_media :: ice_media where
  "ex_media = \<lparr>im_inner = True, im_sock1 = True, im_sock2 = False, im_sdpm = True, im_connh = True, im_signalled = 1,
     im_selected = (0, 0), im_rsig = 0, im_rufrag = None, im_sel_set = False, im_held = False, im_reasserted = False\<rparr>"

definition ex_sess :: ice_sess where
  "ex_sess = \<lparr>is_call = Some 7, is_sdp = True, is_inner = True, is_tmr = None, is_tmr_reoffer = Some 50, is_reoffer_due = 12000,
     is_released = True, is_reoffered = True, is_restarting = False, is_in_estab = False, is_await_answer = False,
     is_tmr_rrestart = None, is_rrestarts = 0, is_primed = False, is_medial = [ex_media], is_srv_host = None, is_user = None,
     is_pass = None\<rparr>"

definition ex_new :: ice_sess where
  "ex_new = the (snd (ice_sessh 2000 (\<lambda>_. True) None (Some 7) True None None None))"

lemma ex_new_sess: "ice_sessh 2000 (\<lambda>_. True) None (Some 7) True None None None = (None, Some ex_new)"
  by (simp add: ex_new_def ice_sessh_def)

lemma ex_restart: "restart_sess ex_sa 0 None (\<lambda>_. True) ex_view (Some 9) ex_sess =
    (None, fst (snd (restart_sess ex_sa 0 None (\<lambda>_. True) ex_view (Some 9) ex_sess)),
      snd (snd (restart_sess ex_sa 0 None (\<lambda>_. True) ex_view (Some 9) ex_sess)))"
  by (simp add: restart_sess_def ex_sess_def Let_def split: prod.splits)


theorem peer_restarts_bounded_witness: "length (filter is_rrestart_step [II_update ex_view]) \<le> VOX_ICE_MAX_REMOTE_RESTARTS"
  by (rule peer_restarts_bounded[OF ex_new_sess, where S = ex_sa]) simp

theorem checks_wait_for_answer_witness:
  "let s1 = fst (snd (restart_sess ex_sa 0 None (\<lambda>_. True) ex_view (Some 9) ex_sess)) in
    I_update \<notin> set (snd (run_acts (ice_step ex_sa 0) [II_deadline [ex_view, ex_view]] s1)) \<and>
    is_await_answer (fst (run_acts (ice_step ex_sa 0) [II_deadline [ex_view, ex_view]] s1))"
  unfolding Let_def by (rule checks_wait_for_answer[OF ex_restart]) simp

theorem ringing_pairs_delivered_at_answer_witness:
  "snd (run_acts (ice_step ex_sa 0) [II_connected 0 (Some 5) None ex_view ex_view []] ex_sess) = [] \<and>
    snd (ice_step ex_sa 0 (II_update ex_view) (fst (run_acts (ice_step ex_sa 0) [II_connected 0 (Some 5) None ex_view ex_view []] ex_sess))) =
      I_update # concat (map (\<lambda>k. delivery ex_sa k (concluded ex_sa (\<lambda>_. None) [II_connected 0 (Some 5) None ex_view ex_view []] k))
        [0..<length (is_medial ex_sess)])"
  by (rule ringing_pairs_delivered_at_answer)
    (simp_all add: ex_sess_def ex_media_def ex_view_def ufrag_changed_def str_isset_def)

theorem held_reoffer_crosses_restart_witness:
  "let (r, s1, es) = restart_sess ex_sa 0 None (\<lambda>_. True) ex_view (Some 9) ex_sess in
    ice_ok (II_reoffer ex_view []) s1 \<and> (\<forall>k < length (is_medial ex_sess). I_clear_candidates k \<in> set es) \<and>
    (let (s2, es') = ice_step ex_sa 0 (II_reoffer ex_view []) s1 in es' = [I_estab 0 0] \<and> is_restarting s2 \<and> \<not> is_released s2)"
proof -
  let ?r = "restart_sess ex_sa 0 None (\<lambda>_. True) ex_view (Some 9) ex_sess"
  have "\<not> sess_awaiting_secure ex_view (fst (snd ?r))" by (simp add: sess_awaiting_secure_def ex_view_def)
  then have "ice_ok (II_reoffer ex_view []) (fst (snd ?r)) \<and> (\<forall>k < length (is_medial ex_sess). I_clear_candidates k \<in> set (snd (snd ?r))) \<and>
    (let (s2, es') = ice_step ex_sa 0 (II_reoffer ex_view []) (fst (snd ?r)) in es' = [I_estab 0 0] \<and> is_restarting s2 \<and> \<not> is_released s2)"
    by (intro held_reoffer_crosses_restart[OF ex_restart]) (simp_all add: ex_sess_def)
  then show ?thesis by (simp add: Let_def case_prod_beta del: ice_ok.simps ice_step.simps)
qed

end
