(* ===== verification/Vox_Audio.thy ===== *)
theory Vox_Audio
  imports Vox_Dispatch
begin

text \<open>
  \<^verbatim>\<open>src/audio_external.c\<close>: the audio device the application owns. The application pushes captured
  samples, which the encoder gets in whole frames, and pulls what is to be played; the newest
  device of each kind is the one it talks to. The sample queue is libre's \<open>aubuf\<close>.
  From \<^verbatim>\<open>src/audio.c\<close>: the enumeration of devices and the choice between the platform's device
  and the application's.
\<close>

section \<open>The sample queue\<close>

type_synonym s16 = "16 word"

text \<open>
  The functions of \<open>aubuf\<close> in the mode the code uses (not live), on any representation \<open>'b\<close>, with
  what its state stands for: the samples queued, the fill it waits for before it gives any, and
  its limit, both in bytes. \<open>aubuf_laws\<close> is the documented behaviour.
\<close>

record 'b aubuf =
  ab_alloc :: "nat \<Rightarrow> nat \<Rightarrow> 'b option"
  ab_write :: "'b \<Rightarrow> s16 list \<Rightarrow> errno option \<times> 'b"
  ab_read :: "'b \<Rightarrow> nat \<Rightarrow> s16 list \<times> 'b"
  ab_size :: "'b \<Rightarrow> nat"
  ab_queue :: "'b \<Rightarrow> s16 list"
  ab_wish :: "'b \<Rightarrow> nat"
  ab_limit :: "'b \<Rightarrow> nat"

definition aubuf_laws :: "'b aubuf \<Rightarrow> bool" where
  "aubuf_laws A \<longleftrightarrow>
     (\<forall>lo hi b. ab_alloc A lo hi = Some b \<longrightarrow> ab_queue A b = [] \<and> ab_wish A b = lo \<and> ab_limit A b = hi) \<and>
     (\<forall>b. ab_size A b = 2 * length (ab_queue A b)) \<and>
     (\<forall>b xs. ab_limit A b = 0 \<or> 2 * (length (ab_queue A b) + length xs) \<le> ab_limit A b \<longrightarrow>
        fst (ab_write A b xs) = None \<and> ab_queue A (snd (ab_write A b xs)) = ab_queue A b @ xs \<and>
        ab_wish A (snd (ab_write A b xs)) = ab_wish A b \<and> ab_limit A (snd (ab_write A b xs)) = ab_limit A b) \<and>
     (\<forall>b n. ab_wish A b \<le> ab_size A b \<longrightarrow> 2 * n \<le> ab_size A b \<longrightarrow>
        fst (ab_read A b n) = take n (ab_queue A b) \<and> ab_queue A (snd (ab_read A b n)) = drop n (ab_queue A b) \<and>
        ab_wish A (snd (ab_read A b n)) = ab_wish A b \<and> ab_limit A (snd (ab_read A b n)) = ab_limit A b)"

text \<open>A queue with this behaviour, for evaluating the model: it drops the oldest samples at its limit.\<close>

definition aubuf_ref :: "(nat \<times> nat \<times> s16 list) aubuf" where
  "aubuf_ref = \<lparr>
     ab_alloc = (\<lambda>lo hi. Some (lo, hi, [])),
     ab_write = (\<lambda>(lo, hi, q) xs. (None, (lo, hi, let q' = q @ xs in if hi = 0 then q' else drop (length q' - hi div 2) q'))),
     ab_read = (\<lambda>(lo, hi, q) n. if 2 * length q < lo \<or> length q < n then (replicate n 0, (lo, hi, q)) else (take n q, (lo, hi, drop n q))),
     ab_size = (\<lambda>(lo, hi, q). 2 * length q),
     ab_queue = (\<lambda>(lo, hi, q). q),
     ab_wish = (\<lambda>(lo, hi, q). lo),
     ab_limit = (\<lambda>(lo, hi, q). hi)\<rparr>"

lemma aubuf_ref_laws: "aubuf_laws aubuf_ref"
  by (auto simp: aubuf_laws_def aubuf_ref_def Let_def)

section \<open>Devices\<close>

record aud_prm =
  ap_srate :: u32
  ap_ch :: u8
  ap_ptime :: u32
  ap_s16le :: bool

record 'b ausrc_st =
  as_id :: nat
  as_prm :: aud_prm
  as_ab :: 'b
  as_sampc :: nat

record auplay_st =
  ap_id :: nat
  ap_prm :: aud_prm

text \<open>The devices that are open, the newest last.\<close>

record 'b ext =
  x_ready :: bool
  x_srcl :: "'b ausrc_st list"
  x_playl :: "auplay_st list"

abbreviation "ENODEV \<equiv> EOTHER 19"

abbreviation "EXT_BUF_MAX_MS \<equiv> (500 :: u32)"

definition newest :: "'a list \<Rightarrow> 'a option" where
  "newest xs = (if xs = [] then None else Some (last xs))"

definition cur_src :: "'b ext \<Rightarrow> 'b ausrc_st option" where
  "cur_src x = newest (x_srcl x)"

definition cur_play :: "'b ext \<Rightarrow> auplay_st option" where
  "cur_play x = newest (x_playl x)"

text \<open>The arithmetic is that of \<open>size_t\<close>, 64 bits.\<close>

definition nsamp_for :: "u32 \<Rightarrow> u8 \<Rightarrow> u32 \<Rightarrow> nat" where
  "nsamp_for srate ch ptime = (unat srate * unat ch * unat (if ptime \<noteq> 0 then ptime else 20)) mod 2 ^ 64 div 1000"

text \<open>Opening a device; the stack passes every pointer, so that the check for NULL never fails.\<close>

definition ext_src_alloc :: "'b aubuf \<Rightarrow> bool \<Rightarrow> bool \<Rightarrow> nat \<Rightarrow> aud_prm \<Rightarrow> 'b ext \<Rightarrow> errno option \<times> 'b ext" where
  "ext_src_alloc A ok_st ok_frame h prm x =
     (if \<not> ap_s16le prm then (Some ENOTSUP, x)
      else if \<not> ok_st \<or> \<not> ok_frame then (Some ENOMEM, x)
      else
        (let n = nsamp_for (ap_srate prm) (ap_ch prm) (ap_ptime prm)
         in case ab_alloc A (n * 2) (nsamp_for (ap_srate prm) (ap_ch prm) EXT_BUF_MAX_MS * 2) of
              None \<Rightarrow> (Some ENOMEM, x)
            | Some b \<Rightarrow> (None, x\<lparr>x_srcl := x_srcl x @ [\<lparr>as_id = h, as_prm = prm, as_ab = b, as_sampc = n\<rparr>]\<rparr>)))"

definition ausrc_destructor :: "nat \<Rightarrow> 'b ext \<Rightarrow> 'b ext" where
  "ausrc_destructor h x = x\<lparr>x_srcl := filter (\<lambda>s. as_id s \<noteq> h) (x_srcl x)\<rparr>"

definition ext_play_alloc :: "bool \<Rightarrow> nat \<Rightarrow> aud_prm \<Rightarrow> 'b ext \<Rightarrow> errno option \<times> 'b ext" where
  "ext_play_alloc ok h prm x =
     (if \<not> ap_s16le prm then (Some ENOTSUP, x)
      else if \<not> ok then (Some ENOMEM, x)
      else (None, x\<lparr>x_playl := x_playl x @ [\<lparr>ap_id = h, ap_prm = prm\<rparr>]\<rparr>))"

definition auplay_destructor :: "nat \<Rightarrow> 'b ext \<Rightarrow> 'b ext" where
  "auplay_destructor h x = x\<lparr>x_playl := filter (\<lambda>p. ap_id p \<noteq> h) (x_playl x)\<rparr>"

section \<open>Pushing and pulling\<close>

text \<open>The loop hands whole frames to the encoder and stops when a read does not shrink the queue.\<close>

function hand_frames :: "'b aubuf \<Rightarrow> nat \<Rightarrow> 'b \<Rightarrow> s16 list list \<times> 'b" where
  "hand_frames A n b =
     (if n * 2 \<le> ab_size A b then
        (case ab_read A b n of (f, b') \<Rightarrow>
           if ab_size A b \<le> ab_size A b' then ([], b')
           else (case hand_frames A n b' of (fs, b'') \<Rightarrow> (f # fs, b'')))
      else ([], b))"
  by pat_completeness auto
termination by (relation "measure (\<lambda>(A, n, b). ab_size A b)") auto

declare hand_frames.simps [simp del]

text \<open>The frames the encoder of the device got.\<close>

definition voxsdk_audio_external_push :: "'b aubuf \<Rightarrow> s16 list option \<Rightarrow> 'b ext \<Rightarrow> errno option \<times> 'b ext \<times> s16 list list" where
  "voxsdk_audio_external_push A pcm x =
     (case pcm of
        None \<Rightarrow> (Some EINVAL, x, [])
      | Some xs \<Rightarrow>
          if xs = [] then (Some EINVAL, x, [])
          else if \<not> x_ready x then (Some ENODEV, x, [])
          else (case cur_src x of
                  None \<Rightarrow> (Some ENODEV, x, [])
                | Some st \<Rightarrow>
                    if length xs mod unat (ap_ch (as_prm st)) \<noteq> 0 then (Some EINVAL, x, [])
                    else (case ab_write A (as_ab st) xs of
                            (Some e, b) \<Rightarrow> (Some e, x\<lparr>x_srcl := butlast (x_srcl x) @ [st\<lparr>as_ab := b\<rparr>]\<rparr>, [])
                          | (None, b) \<Rightarrow>
                              (case hand_frames A (as_sampc st) b of
                                 (fs, b') \<Rightarrow> (None, x\<lparr>x_srcl := butlast (x_srcl x) @ [st\<lparr>as_ab := b'\<rparr>]\<rparr>, fs)))))"

text \<open>\<open>wh h n\<close>: the \<open>n\<close> samples the decoder of device \<open>h\<close> writes. The result is what is left in the
  application's buffer, if it gave one.\<close>

definition voxsdk_audio_external_pull :: "(nat \<Rightarrow> nat \<Rightarrow> s16 list) \<Rightarrow> bool \<Rightarrow> nat \<Rightarrow> 'b ext \<Rightarrow> errno option \<times> s16 list option" where
  "voxsdk_audio_external_pull wh has_pcm n x =
     (if \<not> has_pcm \<or> n = 0 then (Some EINVAL, None)
      else
        (let silence = replicate n 0
         in if \<not> x_ready x then (Some ENODEV, Some silence)
            else (case cur_play x of
                    None \<Rightarrow> (Some ENODEV, Some silence)
                  | Some st \<Rightarrow>
                      if n mod unat (ap_ch (ap_prm st)) \<noteq> 0 then (Some EINVAL, Some silence)
                      else (None, Some (wh (ap_id st) n)))))"

definition prm_format :: "aud_prm \<Rightarrow> u32 \<times> u8 \<times> u32" where
  "prm_format p = (ap_srate p, ap_ch p, if ap_ptime p \<noteq> 0 then ap_ptime p else 20)"

definition voxsdk_audio_external_format :: "'b ext \<Rightarrow> errno option \<times> (u32 \<times> u8 \<times> u32) option" where
  "voxsdk_audio_external_format x =
     (if \<not> x_ready x then (Some ENODEV, None)
      else (case cur_src x of
              Some s \<Rightarrow> (None, Some (prm_format (as_prm s)))
            | None \<Rightarrow> (case cur_play x of Some p \<Rightarrow> (None, Some (prm_format (ap_prm p))) | None \<Rightarrow> (Some ENODEV, None))))"

definition voxsdk_audio_external_is_active :: "'b ext \<Rightarrow> bool" where
  "voxsdk_audio_external_is_active x \<longleftrightarrow> x_ready x \<and> (cur_src x \<noteq> None \<or> cur_play x \<noteq> None)"

definition ext_init :: "errno option \<Rightarrow> 'b ext \<Rightarrow> errno option \<times> 'b ext" where
  "ext_init r x = (if x_ready x then (None, x) else if r \<noteq> None then (r, x) else (None, x\<lparr>x_ready := True\<rparr>))"

definition ext_close :: "'b ext \<Rightarrow> 'b ext" where
  "ext_close x = (if \<not> x_ready x then x else x\<lparr>x_ready := False, x_srcl := [], x_playl := []\<rparr>)"

section \<open>Device control\<close>

text \<open>
  The stack's configuration as far as it is set here, the calls with what the stack has for them,
  and the global configuration. Filters and streams are the stack's; changing them is an effect.
\<close>

datatype aec_mode = AEC_OFF | AEC_SUPPRESSOR | AEC_WEBRTC

record acall =
  ac_id :: call_id
  ac_bc :: bool
  ac_established :: bool
  ac_audio :: bool
  ac_strm :: bool
  ac_rtp :: bool
  ac_udp :: bool

record actl =
  al_src_mod :: string
  al_play_mod :: string
  al_src_dev :: string
  al_play_dev :: string
  al_jb_adaptive :: bool
  al_jb_min :: u32
  al_jb_max :: u32
  al_calls :: "acall list"
  al_aec_mode :: aec_mode
  al_platform_aec :: bool
  al_platform_mod :: cptr

datatype au_eff =
    U_mute call_id bool
  | U_enable_rx call_id bool
  | U_tos call_id u8
  | U_source call_id string string
  | U_player call_id string string
  | U_filter string bool

type_synonym 'r au_fn = "actl \<Rightarrow> 'r \<times> actl \<times> au_eff list"
type_synonym au_loop = "(actl, au_eff) re_loop"

definition acall_get :: "call_id \<Rightarrow> actl \<Rightarrow> acall option" where
  "acall_get h s = find (\<lambda>c. ac_id c = h) (al_calls s)"

text \<open>The call's audio object, when it has a stack call and that has one.\<close>

definition acall_audio :: "call_id \<Rightarrow> actl \<Rightarrow> acall option" where
  "acall_audio h s = (case acall_get h s of None \<Rightarrow> None | Some c \<Rightarrow> if ac_bc c \<and> ac_audio c then Some c else None)"

definition mute_fn :: "call_id \<Rightarrow> bool \<Rightarrow> rc au_fn" where
  "mute_fn h mute s = (case acall_audio h s of None \<Rightarrow> (RC_errno ENOENT, s, []) | Some c \<Rightarrow> (RC_OK, s, [U_mute h mute]))"

text \<open>\<open>muted\<close>: what the stack says of the call's audio.\<close>

definition is_muted_fn :: "(call_id \<Rightarrow> bool) \<Rightarrow> call_id \<Rightarrow> bool au_fn" where
  "is_muted_fn muted h s = (case acall_audio h s of None \<Rightarrow> (False, s, []) | Some c \<Rightarrow> (muted h, s, []))"

definition mute_rx_fn :: "errno option \<Rightarrow> call_id \<Rightarrow> bool \<Rightarrow> rc au_fn" where
  "mute_rx_fn r h mute s =
     (case acall_audio h s of
        None \<Rightarrow> (RC_errno ENOENT, s, [])
      | Some c \<Rightarrow> if \<not> ac_strm c then (RC_errno ENOENT, s, []) else (rc_of r, s, [U_enable_rx h (\<not> mute)]))"

definition set_dscp_rtp_fn :: "errno option \<Rightarrow> call_id \<Rightarrow> u8 \<Rightarrow> rc au_fn" where
  "set_dscp_rtp_fn r h dscp s =
     (case acall_audio h s of
        None \<Rightarrow> (RC_errno ENOENT, s, [])
      | Some c \<Rightarrow> if \<not> ac_strm c \<or> \<not> ac_rtp c \<or> \<not> ac_udp c then (RC_errno ENOENT, s, []) else (rc_of r, s, [U_tos h dscp]))"

definition call_sync :: "dispatch_env \<Rightarrow> nat list \<Rightarrow> (call_id \<Rightarrow> rc au_fn) \<Rightarrow> call_id option \<Rightarrow> au_loop \<Rightarrow> rc \<times> au_loop \<times> au_eff list" where
  "call_sync D turns f call lp = (case call of None \<Rightarrow> (RC_vox ERR_INVAL, lp, []) | Some h \<Rightarrow> sync_rc (vox_dispatch_sync D turns (f h) lp))"

definition voxsdk_audio_mute :: "dispatch_env \<Rightarrow> nat list \<Rightarrow> call_id option \<Rightarrow> bool \<Rightarrow> au_loop \<Rightarrow> rc \<times> au_loop \<times> au_eff list" where
  "voxsdk_audio_mute D turns call mute = call_sync D turns (\<lambda>h. mute_fn h mute) call"

definition voxsdk_audio_mute_rx :: "dispatch_env \<Rightarrow> nat list \<Rightarrow> errno option \<Rightarrow> call_id option \<Rightarrow> bool \<Rightarrow> au_loop \<Rightarrow> rc \<times> au_loop \<times> au_eff list" where
  "voxsdk_audio_mute_rx D turns r call mute = call_sync D turns (\<lambda>h. mute_rx_fn r h mute) call"

definition voxsdk_call_set_dscp_rtp :: "dispatch_env \<Rightarrow> nat list \<Rightarrow> errno option \<Rightarrow> call_id option \<Rightarrow> u8 \<Rightarrow> au_loop \<Rightarrow> rc \<times> au_loop \<times> au_eff list" where
  "voxsdk_call_set_dscp_rtp D turns r call dscp = call_sync D turns (\<lambda>h. set_dscp_rtp_fn r h dscp) call"

definition voxsdk_audio_is_muted :: "dispatch_env \<Rightarrow> nat list \<Rightarrow> (call_id \<Rightarrow> bool) \<Rightarrow> call_id option \<Rightarrow> au_loop \<Rightarrow> bool \<times> au_loop \<times> au_eff list" where
  "voxsdk_audio_is_muted D turns muted call lp =
     (case call of
        None \<Rightarrow> (False, lp, [])
      | Some h \<Rightarrow> (case vox_dispatch_sync D turns (is_muted_fn muted h) lp of (Inl e, r) \<Rightarrow> (False, r) | (Inr b, r) \<Rightarrow> (b, r)))"

subsection \<open>Devices\<close>

definition update_call_device :: "bool \<Rightarrow> string \<Rightarrow> string \<Rightarrow> acall \<Rightarrow> au_eff list" where
  "update_call_device is_input md dev c =
     (if \<not> ac_established c \<or> \<not> ac_bc c \<or> \<not> ac_audio c then []
      else if is_input then [U_source (ac_id c) md dev] else [U_player (ac_id c) md dev])"

definition switch_calls :: "bool \<Rightarrow> actl \<Rightarrow> au_eff list" where
  "switch_calls is_input s =
     concat (map (update_call_device is_input (if is_input then al_src_mod s else al_play_mod s)
       (if is_input then al_src_dev s else al_play_dev s)) (al_calls s))"

text \<open>\<open>n\<close> is the size of the stack's buffer.\<close>

definition set_input_fn :: "libre \<Rightarrow> nat \<Rightarrow> cptr \<Rightarrow> rc au_fn" where
  "set_input_fn L n name s =
     (let s' = s\<lparr>al_src_dev := (case name of None \<Rightarrow> [] | Some d \<Rightarrow> lb_ncpy L n d)\<rparr> in (RC_OK, s', switch_calls True s'))"

definition set_output_fn :: "libre \<Rightarrow> nat \<Rightarrow> cptr \<Rightarrow> rc au_fn" where
  "set_output_fn L n name s =
     (let s' = s\<lparr>al_play_dev := (case name of None \<Rightarrow> [] | Some d \<Rightarrow> lb_ncpy L n d)\<rparr> in (RC_OK, s', switch_calls False s'))"

definition voxsdk_audio_set_input_device :: "dispatch_env \<Rightarrow> nat list \<Rightarrow> libre \<Rightarrow> nat \<Rightarrow> cptr \<Rightarrow> au_loop \<Rightarrow> rc \<times> au_loop \<times> au_eff list" where
  "voxsdk_audio_set_input_device D turns L n name lp = sync_rc (vox_dispatch_sync D turns (set_input_fn L n name) lp)"

definition voxsdk_audio_set_output_device :: "dispatch_env \<Rightarrow> nat list \<Rightarrow> libre \<Rightarrow> nat \<Rightarrow> cptr \<Rightarrow> au_loop \<Rightarrow> rc \<times> au_loop \<times> au_eff list" where
  "voxsdk_audio_set_output_device D turns L n name lp = sync_rc (vox_dispatch_sync D turns (set_output_fn L n name) lp)"

definition vox_audio_external_selected :: "actl \<Rightarrow> bool" where
  "vox_audio_external_selected s \<longleftrightarrow> al_src_mod s = ''external''"

definition use_external_fn :: "libre \<Rightarrow> nat \<Rightarrow> bool \<Rightarrow> rc au_fn" where
  "use_external_fn L n enable s =
     (case (if enable then Some ''external'' else al_platform_mod s) of
        None \<Rightarrow> (RC_OK, s, [])
      | Some md \<Rightarrow>
          (let s' = s\<lparr>al_src_mod := lb_ncpy L n md, al_play_mod := lb_ncpy L n md, al_src_dev := [], al_play_dev := []\<rparr>
           in (RC_OK, s', switch_calls True s' @ switch_calls False s' @
                (if \<not> enable \<and> al_platform_aec s then [U_filter ''vox_aec'' False] else []))))"

definition voxsdk_audio_use_external :: "dispatch_env \<Rightarrow> nat list \<Rightarrow> libre \<Rightarrow> nat \<Rightarrow> bool \<Rightarrow> au_loop \<Rightarrow> rc \<times> au_loop \<times> au_eff list" where
  "voxsdk_audio_use_external D turns L n enable lp = sync_rc (vox_dispatch_sync D turns (use_external_fn L n enable) lp)"

subsection \<open>Enumeration\<close>

text \<open>
  A module has a name and the devices it knows, each with whether it is the default for input and
  for output. The stack's lists are walked from their tail; a walk stops when the table is full.
  The name in a slot has 128 bytes.
\<close>

record mediadev =
  md_name :: string
  md_src_default :: bool
  md_play_default :: bool

type_synonym device_mod = "string \<times> mediadev list"
type_synonym audio_device = "string \<times> bool"

definition device_of :: "libre \<Rightarrow> bool \<Rightarrow> mediadev \<Rightarrow> audio_device" where
  "device_of L is_input md = (lb_ncpy L 128 (md_name md), if is_input then md_src_default md else md_play_default md)"

fun fill_mediadev :: "libre \<Rightarrow> bool \<Rightarrow> nat \<Rightarrow> mediadev list \<Rightarrow> audio_device list \<Rightarrow> audio_device list" where
  "fill_mediadev L is_input cap [] out = out"
| "fill_mediadev L is_input cap (d # ds) out =
     (if cap \<le> length out then out else fill_mediadev L is_input cap ds (out @ [device_of L is_input d]))"

fun fill_module_devices :: "libre \<Rightarrow> bool \<Rightarrow> nat \<Rightarrow> device_mod list \<Rightarrow> audio_device list \<Rightarrow> audio_device list" where
  "fill_module_devices L is_input cap [] out = out"
| "fill_module_devices L is_input cap ((name, ds) # ms) out =
     (let out' = (if ds = [] then (if length out < cap then out @ [(lb_ncpy L 128 name, True)] else out)
                  else fill_mediadev L is_input cap (rev ds) out)
      in if cap \<le> length out' then out' else fill_module_devices L is_input cap ms out')"

definition enum_fn :: "libre \<Rightarrow> bool \<Rightarrow> nat \<Rightarrow> device_mod list \<Rightarrow> (audio_device list) au_fn" where
  "enum_fn L is_input cap mods s = (fill_module_devices L is_input cap (rev mods) [], s, [])"

text \<open>The return value is an error or the number of devices written.\<close>

definition voxsdk_audio_list_devices :: "dispatch_env \<Rightarrow> nat list \<Rightarrow> libre \<Rightarrow> bool \<Rightarrow> device_mod list \<Rightarrow> bool \<Rightarrow> int \<Rightarrow> au_loop \<Rightarrow>
    (rc + nat) \<times> audio_device list" where
  "voxsdk_audio_list_devices D turns L is_input mods has_table max_count lp =
     (if \<not> has_table \<or> max_count \<le> 0 then (Inl (RC_vox ERR_INVAL), [])
      else (case vox_dispatch_sync D turns (enum_fn L is_input (nat max_count) mods) lp of
              (Inl e, r) \<Rightarrow> (Inl e, [])
            | (Inr out, r) \<Rightarrow> (Inr (length out), out)))"

subsection \<open>Echo cancelling and the jitter buffer\<close>

definition vox_aec_suppressor_wanted :: "aec_mode \<Rightarrow> actl \<Rightarrow> bool" where
  "vox_aec_suppressor_wanted mode s \<longleftrightarrow> mode = AEC_SUPPRESSOR \<and> \<not> (al_platform_aec s \<and> \<not> vox_audio_external_selected s)"

text \<open>\<open>webrtc\<close>: a desktop build with the canceller.\<close>

definition set_aec_mode_fn :: "bool \<Rightarrow> aec_mode \<Rightarrow> rc au_fn" where
  "set_aec_mode_fn webrtc mode s =
     (RC_OK, s, U_filter ''vox_aec'' (vox_aec_suppressor_wanted mode s) # (if webrtc then [U_filter ''webrtc_aec'' (mode = AEC_WEBRTC)] else []))"

definition voxsdk_set_aec_mode :: "dispatch_env \<Rightarrow> nat list \<Rightarrow> bool \<Rightarrow> aec_mode \<Rightarrow> aec_mode \<Rightarrow> au_loop \<Rightarrow> rc \<times> au_loop \<times> au_eff list" where
  "voxsdk_set_aec_mode D turns webrtc configured mode lp =
     (if mode \<noteq> AEC_OFF \<and> mode \<noteq> configured then (RC_errno EINVAL, lp, [])
      else if \<not> webrtc \<and> mode = AEC_WEBRTC then (RC_errno ENOTSUP, lp, [])
      else sync_rc (vox_dispatch_sync D turns (set_aec_mode_fn webrtc mode) lp))"

definition voxsdk_set_aec :: "dispatch_env \<Rightarrow> nat list \<Rightarrow> bool \<Rightarrow> aec_mode \<Rightarrow> bool \<Rightarrow> au_loop \<Rightarrow> au_loop \<times> au_eff list" where
  "voxsdk_set_aec D turns webrtc configured enable lp =
     snd (voxsdk_set_aec_mode D turns webrtc configured (if enable then configured else AEC_OFF) lp)"

definition set_filter_fn :: "string \<Rightarrow> bool \<Rightarrow> rc au_fn" where
  "set_filter_fn name enable s = (RC_OK, s, [U_filter name enable])"

definition set_jbuf_fn :: "u32 \<Rightarrow> u32 \<Rightarrow> rc au_fn" where
  "set_jbuf_fn lo hi s = (RC_OK, s\<lparr>al_jb_adaptive := True, al_jb_min := lo, al_jb_max := (if hi \<noteq> 0 then hi else 150)\<rparr>, [])"

definition set_jbuf_type_fn :: "bool \<Rightarrow> rc au_fn" where
  "set_jbuf_type_fn fixed s = (RC_OK, s\<lparr>al_jb_adaptive := \<not> fixed\<rparr>, [])"

text \<open>The settings that only dispatch; the copies they keep in the global configuration are not read again here.\<close>

definition set_sync :: "dispatch_env \<Rightarrow> nat list \<Rightarrow> rc au_fn \<Rightarrow> au_loop \<Rightarrow> au_loop \<times> au_eff list" where
  "set_sync D turns f lp = snd (vox_dispatch_sync D turns f lp)"

definition voxsdk_set_ns :: "dispatch_env \<Rightarrow> nat list \<Rightarrow> bool \<Rightarrow> au_loop \<Rightarrow> au_loop \<times> au_eff list" where
  "voxsdk_set_ns D turns enable = set_sync D turns (set_filter_fn ''vox_ns'' enable)"

definition voxsdk_set_agc :: "dispatch_env \<Rightarrow> nat list \<Rightarrow> bool \<Rightarrow> au_loop \<Rightarrow> au_loop \<times> au_eff list" where
  "voxsdk_set_agc D turns enable = set_sync D turns (set_filter_fn ''vox_agc'' enable)"

definition voxsdk_set_jitter_buffer :: "dispatch_env \<Rightarrow> nat list \<Rightarrow> u32 \<Rightarrow> u32 \<Rightarrow> au_loop \<Rightarrow> au_loop \<times> au_eff list" where
  "voxsdk_set_jitter_buffer D turns lo hi = set_sync D turns (set_jbuf_fn lo hi)"

definition voxsdk_set_jitter_buffer_type :: "dispatch_env \<Rightarrow> nat list \<Rightarrow> bool \<Rightarrow> au_loop \<Rightarrow> au_loop \<times> au_eff list" where
  "voxsdk_set_jitter_buffer_type D turns fixed = set_sync D turns (set_jbuf_type_fn fixed)"

section \<open>Lemmas\<close>

lemma aubuf_size: "aubuf_laws A \<Longrightarrow> ab_size A b = 2 * length (ab_queue A b)"
  unfolding aubuf_laws_def by blast

lemma aubuf_write:
  "aubuf_laws A \<Longrightarrow> ab_limit A b = 0 \<or> 2 * (length (ab_queue A b) + length xs) \<le> ab_limit A b \<Longrightarrow>
     fst (ab_write A b xs) = None \<and> ab_queue A (snd (ab_write A b xs)) = ab_queue A b @ xs \<and>
     ab_wish A (snd (ab_write A b xs)) = ab_wish A b \<and> ab_limit A (snd (ab_write A b xs)) = ab_limit A b"
  unfolding aubuf_laws_def by blast

lemma aubuf_read:
  "aubuf_laws A \<Longrightarrow> ab_wish A b \<le> ab_size A b \<Longrightarrow> 2 * n \<le> ab_size A b \<Longrightarrow>
     fst (ab_read A b n) = take n (ab_queue A b) \<and> ab_queue A (snd (ab_read A b n)) = drop n (ab_queue A b) \<and>
     ab_wish A (snd (ab_read A b n)) = ab_wish A b \<and> ab_limit A (snd (ab_read A b n)) = ab_limit A b"
  unfolding aubuf_laws_def by blast

text \<open>The loop cuts the queue into frames and leaves less than one.\<close>

lemma drain_frames:
  assumes "aubuf_laws A" and "ab_wish A b = n * 2" and "0 < n"
  shows "concat (fst (hand_frames A n b)) @ ab_queue A (snd (hand_frames A n b)) = ab_queue A b \<and> (\<forall>f \<in> set (fst (hand_frames A n b)). length f = n) \<and>
    length (ab_queue A (snd (hand_frames A n b))) < n \<and> ab_wish A (snd (hand_frames A n b)) = n * 2 \<and> ab_limit A (snd (hand_frames A n b)) = ab_limit A b"
  using assms(2)
proof (induction "length (ab_queue A b)" arbitrary: b rule: less_induct)
  case less
  note size = aubuf_size[OF assms(1)]
  show ?case
  proof (cases "n * 2 \<le> ab_size A b")
    case False
    then show ?thesis using less.prems by (simp add: hand_frames.simps[of A n b] size)
  next
    case True
    obtain f b' where r: "ab_read A b n = (f, b')" by fastforce
    then have b': "f = take n (ab_queue A b)" "ab_queue A b' = drop n (ab_queue A b)" "ab_wish A b' = n * 2" "ab_limit A b' = ab_limit A b"
      using aubuf_read[OF assms(1), of b n] True less.prems by simp_all
    have len: "n \<le> length (ab_queue A b)" using True by (simp add: size)
    then have lt: "length (ab_queue A b') < length (ab_queue A b)" using assms(3) b'(2) by simp
    obtain fs b'' where d: "hand_frames A n b' = (fs, b'')" by fastforce
    have "hand_frames A n b = (f # fs, b'')" using True r d lt by (subst hand_frames.simps) (simp add: size)
    then show ?thesis using less.hyps[OF lt b'(3)] d b' len by simp
  qed
qed

text \<open>Pushes one after the other: their results and the frames the encoder got.\<close>

fun pushes :: "'b aubuf \<Rightarrow> s16 list list \<Rightarrow> 'b ext \<Rightarrow> errno option list \<times> 'b ext \<times> s16 list list" where
  "pushes A [] x = ([], x, [])"
| "pushes A (p # ps) x =
     (case voxsdk_audio_external_push A (Some p) x of (r, x', fs) \<Rightarrow>
        case pushes A ps x' of (rs, x'', fs') \<Rightarrow> (r # rs, x'', fs @ fs'))"

text \<open>A device whose queue holds less than a frame, and pushes that fit.\<close>

definition open_src :: "'b aubuf \<Rightarrow> nat \<Rightarrow> nat \<Rightarrow> 'b ext \<Rightarrow> 'b ausrc_st \<Rightarrow> bool" where
  "open_src A n room x st \<longleftrightarrow> x_ready x \<and> cur_src x = Some st \<and> as_sampc st = n \<and> ab_wish A (as_ab st) = n * 2 \<and>
     ab_limit A (as_ab st) = room \<and> length (ab_queue A (as_ab st)) < n"

definition fits :: "nat \<Rightarrow> nat \<Rightarrow> u8 \<Rightarrow> s16 list \<Rightarrow> bool" where
  "fits n room ch p \<longleftrightarrow> p \<noteq> [] \<and> length p mod unat ch = 0 \<and> (room = 0 \<or> 2 * (n + length p) \<le> room)"

lemma push_step:
  assumes "aubuf_laws A" and "open_src A n room x st" and "fits n room (ap_ch (as_prm st)) p"
  shows "\<exists>b fs x'. voxsdk_audio_external_push A (Some p) x = (None, x', fs) \<and> open_src A n room x' (st\<lparr>as_ab := b\<rparr>) \<and>
    concat fs @ ab_queue A b = ab_queue A (as_ab st) @ p \<and> (\<forall>f \<in> set fs. length f = n)"
proof -
  obtain b0 where w: "ab_write A (as_ab st) p = (None, b0)" "ab_queue A b0 = ab_queue A (as_ab st) @ p" "ab_wish A b0 = n * 2" "ab_limit A b0 = room"
    using aubuf_write[OF assms(1), of "as_ab st" p] assms(2,3) by (cases "ab_write A (as_ab st) p") (auto simp: open_src_def fits_def)
  obtain fs b where d: "hand_frames A n b0 = (fs, b)" by fastforce
  have n: "0 < n" using assms(2) by (simp add: open_src_def)
  note dr = drain_frames[OF assms(1) w(3) n, unfolded d, simplified]
  let ?x' = "x\<lparr>x_srcl := butlast (x_srcl x) @ [st\<lparr>as_ab := b\<rparr>]\<rparr>"
  have "voxsdk_audio_external_push A (Some p) x = (None, ?x', fs)"
    using assms(2,3) w(1) d by (simp add: voxsdk_audio_external_push_def open_src_def fits_def)
  moreover have "open_src A n room ?x' (st\<lparr>as_ab := b\<rparr>)"
    using assms(2) dr w(4) by (simp add: open_src_def cur_src_def newest_def)
  ultimately show ?thesis using dr w(2) by auto
qed

lemma push_run:
  assumes "aubuf_laws A" and "open_src A n room x st" and "\<forall>p \<in> set ps. fits n room (ap_ch (as_prm st)) p"
  shows "\<exists>b x' fs. pushes A ps x = (replicate (length ps) None, x', fs) \<and> open_src A n room x' (st\<lparr>as_ab := b\<rparr>) \<and>
    concat fs @ ab_queue A b = ab_queue A (as_ab st) @ concat ps \<and> (\<forall>f \<in> set fs. length f = n)"
  using assms(2,3)
proof (induction ps arbitrary: x st)
  case Nil
  then show ?case by (intro exI[of _ "as_ab st"]) simp
next
  case (Cons p ps)
  obtain b x1 fs where s1: "voxsdk_audio_external_push A (Some p) x = (None, x1, fs)" "open_src A n room x1 (st\<lparr>as_ab := b\<rparr>)"
    "concat fs @ ab_queue A b = ab_queue A (as_ab st) @ p" "\<forall>f \<in> set fs. length f = n"
    using push_step[OF assms(1) Cons.prems(1), of p] Cons.prems(2) by auto
  obtain b' x2 fs' where s2: "pushes A ps x1 = (replicate (length ps) None, x2, fs')" "open_src A n room x2 (st\<lparr>as_ab := b'\<rparr>)"
    "concat fs' @ ab_queue A b' = ab_queue A b @ concat ps" "\<forall>f \<in> set fs'. length f = n"
    using Cons.IH[OF s1(2)] Cons.prems(2) by auto
  have "concat (fs @ fs') @ ab_queue A b' = ab_queue A (as_ab st) @ p @ concat ps"
    using s1(3) s2(3) by (metis append.assoc concat_append)
  then show ?case using s1(1,4) s2(1,2,4) by (intro exI[of _ b'] exI[of _ x2] exI[of _ "fs @ fs'"]) auto
qed

lemma opened_src:
  assumes "aubuf_laws A" and "ext_src_alloc A True True h prm x = (None, x0)" and "x_ready x"
    and "n = nsamp_for (ap_srate prm) (ap_ch prm) (ap_ptime prm)" and "0 < n"
  shows "\<exists>st. open_src A n (nsamp_for (ap_srate prm) (ap_ch prm) EXT_BUF_MAX_MS * 2) x0 st \<and> as_prm st = prm \<and> as_id st = h \<and> ab_queue A (as_ab st) = []"
  using assms by (auto simp: ext_src_alloc_def Let_def open_src_def cur_src_def newest_def aubuf_laws_def split: if_splits option.splits)

text \<open>The enumeration without its early stops.\<close>

definition module_devices :: "libre \<Rightarrow> bool \<Rightarrow> device_mod \<Rightarrow> audio_device list" where
  "module_devices L is_input m = (if snd m = [] then [(lb_ncpy L 128 (fst m), True)] else map (device_of L is_input) (rev (snd m)))"

lemma fill_mediadev_take: "length out \<le> cap \<Longrightarrow> fill_mediadev L is_input cap ds out = take cap (out @ map (device_of L is_input) ds)"
proof (induction ds arbitrary: out)
  case (Cons d ds)
  show ?case
  proof (cases "cap \<le> length out")
    case True
    then show ?thesis using Cons.prems by simp
  next
    case False
    then show ?thesis using Cons.IH[of "out @ [device_of L is_input d]"] by simp
  qed
qed simp

lemma fill_modules_take:
  "length out \<le> cap \<Longrightarrow> fill_module_devices L is_input cap ms out = take cap (out @ concat (map (module_devices L is_input) ms))"
proof (induction ms arbitrary: out)
  case (Cons m ms)
  obtain name ds where m: "m = (name, ds)" by fastforce
  define X where "X = (if ds = [] then (if length out < cap then out @ [(lb_ncpy L 128 name, True)] else out)
    else fill_mediadev L is_input cap (rev ds) out)"
  have step: "fill_module_devices L is_input cap (m # ms) out = (if cap \<le> length X then X else fill_module_devices L is_input cap ms X)"
    by (simp add: m X_def Let_def)
  have o: "X = take cap (out @ module_devices L is_input m)"
    using Cons.prems by (simp add: X_def module_devices_def m fill_mediadev_take)
  show ?case
  proof (cases "cap \<le> length X")
    case True
    then have "cap \<le> length (out @ module_devices L is_input m)" unfolding o by simp
    then have "take cap ((out @ module_devices L is_input m) @ concat (map (module_devices L is_input) ms)) = X" unfolding o by simp
    then show ?thesis using True by (simp add: step)
  next
    case False
    then have X: "X = out @ module_devices L is_input m" unfolding o by simp
    moreover from False have "length X \<le> cap" by simp
    ultimately show ?thesis using False Cons.IH[of X] by (simp add: step)
  qed
qed simp

section \<open>Properties\<close>


text \<open>C35: the enumeration of devices, which stops wherever the table is full, gives exactly the first
  \<open>max_count\<close> of all devices: of every module from the last to the first its devices from the last to
  the first, or the module itself when it knows none.\<close>

theorem enumeration_is_prefix:
  assumes "0 < max_count" and "d_initialized D" and "d_async D = None"
  shows "voxsdk_audio_list_devices D turns L is_input mods True max_count lp =
    (let out = take (nat max_count) (concat (map (module_devices L is_input) (rev mods))) in (Inr (length out), out))"
  using assms by (simp add: voxsdk_audio_list_devices_def vox_dispatch_sync_def enum_fn_def fill_modules_take Let_def split: prod.splits)

section \<open>Witnesses\<close>

definition ex_prm :: aud_prm where
  "ex_prm = \<lparr>ap_srate = 200, ap_ch = 1, ap_ptime = 20, ap_s16le = True\<rparr>"

definition ex_ext :: "(nat \<times> nat \<times> s16 list) ext" where
  "ex_ext = \<lparr>x_ready = True, x_srcl = [], x_playl = []\<rparr>"

definition ex_actl :: actl where
  "ex_actl = \<lparr>al_src_mod = ''pulse'', al_play_mod = ''pulse'', al_src_dev = [], al_play_dev = [], al_jb_adaptive = False, al_jb_min = 0,
     al_jb_max = 0, al_calls = [], al_aec_mode = AEC_SUPPRESSOR, al_platform_aec = False, al_platform_mod = Some ''pulse''\<rparr>"


theorem enumeration_is_prefix_witness:
  "voxsdk_audio_list_devices \<lparr>d_initialized = True, d_on_re = True, d_mem = True, d_async = None\<rparr> [] libre_ref True
      [(''pulse'', []), (''external'', [])] True 1
      \<lparr>rl_state = ex_actl, rl_jobs = []\<rparr> =
    (let out = take (nat 1) (concat (map (module_devices libre_ref True) (rev [(''pulse'', []), (''external'', [])]))) in (Inr (length out), out))"
  by (rule enumeration_is_prefix) simp_all

end
