(* ===== verification/Vox_Dsp.thy ===== *)
theory Vox_Dsp
  imports Vox_Float Vox_Dispatch
begin

text \<open>
  \<^verbatim>\<open>src/audio_processing.c\<close>: the filters between the device and the codec, on frames of 16-bit
  samples in single precision: the two gains, the noise gate, the level control and the echo
  suppressor, with the settings that \<^verbatim>\<open>src/audio.c\<close> changes while they run. Each filter keeps its
  state from frame to frame; the suppressor's two directions share the power of what was played.
\<close>

section \<open>Arithmetic\<close>

type_synonym s16 = "16 word"

abbreviation fadd :: "rat \<Rightarrow> rat \<Rightarrow> rat" where "fadd a b \<equiv> f32_round (a + b)"
abbreviation fsub :: "rat \<Rightarrow> rat \<Rightarrow> rat" where "fsub a b \<equiv> f32_round (a - b)"
abbreviation fmul :: "rat \<Rightarrow> rat \<Rightarrow> rat" where "fmul a b \<equiv> f32_round (a * b)"
abbreviation fdiv :: "rat \<Rightarrow> rat \<Rightarrow> rat" where "fdiv a b \<equiv> f32_round (a / b)"

text \<open>A literal of the code, rounded to single precision.\<close>

abbreviation flit :: "rat \<Rightarrow> rat" where "flit x \<equiv> f32_round x"

definition trunc :: "rat \<Rightarrow> int" where
  "trunc v = (if 0 \<le> v then \<lfloor>v\<rfloor> else \<lceil>v\<rceil>)"

text \<open>\<open>(float)p\<close> of a sample is exact.\<close>

definition f_of :: "s16 \<Rightarrow> rat" where
  "f_of p = of_int (sint p)"

text \<open>The sample loop that the gate, the level control and the suppressor share.\<close>

definition scale_sample :: "rat \<Rightarrow> s16 \<Rightarrow> s16" where
  "scale_sample g p =
     (let v = fmul (f_of p) g
      in if 32767 < v then 32767 else if v < -32768 then -32768 else word_of_int (trunc v))"

text \<open>
  The loop of the two gains converts to \<open>int32_t\<close> first, which is undefined outside its range;
  \<open>ub\<close> is what the platform makes of that.
\<close>

definition gain_sample :: "(rat \<Rightarrow> int) \<Rightarrow> rat \<Rightarrow> s16 \<Rightarrow> s16" where
  "gain_sample ub g p =
     (let v = fmul (f_of p) g; s = (if - 2147483649 < v \<and> v < 2147483648 then trunc v else ub v)
      in if 32767 < s then 32767 else if s < -32768 then -32768 else word_of_int s)"

definition apply_gain :: "(rat \<Rightarrow> int) \<Rightarrow> rat \<Rightarrow> s16 list \<Rightarrow> s16 list" where
  "apply_gain ub g = map (gain_sample ub g)"

text \<open>The mean power of a frame.\<close>

definition frame_power :: "s16 list \<Rightarrow> rat" where
  "frame_power ps = fdiv (foldl (\<lambda>s p. fadd s (fmul (f_of p) (f_of p))) 0 ps) (f32_round (of_nat (length ps)))"

section \<open>The filters\<close>

text \<open>The state: the two gains, the suppressor's floor and the power of what was played; the gate's
  noise floor and gain, the level control's gain, the suppressor's gain.\<close>

record dsp =
  g_mic_gain :: rat
  g_spk_gain :: rat
  g_aec_floor :: rat
  g_aec_rx_power :: rat
  ns_floor_sq :: rat
  ns_gain :: rat
  agc_gain :: rat
  aec_gain :: rat

definition gain_filter :: "(rat \<Rightarrow> int) \<Rightarrow> rat \<Rightarrow> bool \<Rightarrow> s16 list \<Rightarrow> s16 list" where
  "gain_filter ub g s16le ps = (if \<not> s16le \<or> g = 1 then ps else apply_gain ub g ps)"

definition mic_gain_encode :: "(rat \<Rightarrow> int) \<Rightarrow> bool \<Rightarrow> s16 list \<Rightarrow> dsp \<Rightarrow> s16 list" where
  "mic_gain_encode ub s16le ps d = gain_filter ub (g_mic_gain d) s16le ps"

definition spk_gain_decode :: "(rat \<Rightarrow> int) \<Rightarrow> bool \<Rightarrow> s16 list \<Rightarrow> dsp \<Rightarrow> s16 list" where
  "spk_gain_decode ub s16le ps d = gain_filter ub (g_spk_gain d) s16le ps"

text \<open>One step of an exponential mean.\<close>

definition smooth :: "rat \<Rightarrow> rat \<Rightarrow> rat \<Rightarrow> rat \<Rightarrow> rat" where
  "smooth a b x y = fadd (fmul (flit a) x) (fmul (flit b) y)"

definition ns_target :: "rat \<Rightarrow> rat" where
  "ns_target snr =
     (if 4 \<le> snr then 1 else if snr \<le> 1 then flit (1 / 10)
      else fadd (flit (1 / 10)) (fdiv (fmul (flit (9 / 10)) (fsub snr 1)) 3))"

definition ns_next_floor :: "rat \<Rightarrow> rat \<Rightarrow> rat" where
  "ns_next_floor pw nf = (if pw < nf then smooth (97 / 100) (3 / 100) nf pw else smooth (9998 / 10000) (2 / 10000) nf pw)"

definition ns_next_gain :: "rat \<Rightarrow> rat \<Rightarrow> rat" where
  "ns_next_gain t g = (if t < g then smooth (70 / 100) (30 / 100) g t else smooth (95 / 100) (5 / 100) g t)"

definition ns_encode :: "bool \<Rightarrow> s16 list \<Rightarrow> dsp \<Rightarrow> dsp \<times> s16 list" where
  "ns_encode s16le ps d =
     (if \<not> s16le \<or> ps = [] then (d, ps)
      else
        (let pw = frame_power ps; nf = ns_next_floor pw (ns_floor_sq d); g = ns_next_gain (ns_target (fdiv pw (fadd nf 1))) (ns_gain d)
         in (d\<lparr>ns_floor_sq := nf, ns_gain := g\<rparr>, map (scale_sample g) ps)))"

definition agc_next :: "rat \<Rightarrow> rat \<Rightarrow> rat" where
  "agc_next pw g =
     (let target = flit 10730000; out = fmul pw (fmul g g);
          g' = (if flit 10700 < pw
                then (if fmul target (flit (15 / 10)) < out then fmul g (flit (85 / 100))
                      else if out < fmul target (flit (67 / 100)) then fmul g (flit (102 / 100)) else g)
                else g);
          g'' = (if g' < flit (1 / 10) then flit (1 / 10) else g')
      in if 10 < g'' then 10 else g'')"

definition agc_encode :: "bool \<Rightarrow> s16 list \<Rightarrow> dsp \<Rightarrow> dsp \<times> s16 list" where
  "agc_encode s16le ps d =
     (if \<not> s16le \<or> ps = [] then (d, ps)
      else (let g = agc_next (frame_power ps) (agc_gain d) in (d\<lparr>agc_gain := g\<rparr>, map (scale_sample g) ps)))"

abbreviation "rx_low \<equiv> (40000 :: rat)"
abbreviation "rx_high \<equiv> (9000000 :: rat)"

definition aec_target :: "rat \<Rightarrow> rat \<Rightarrow> rat" where
  "aec_target fl rx =
     (if rx \<le> rx_low then 1 else if rx_high \<le> rx then fl
      else fsub 1 (fdiv (fmul (fsub 1 fl) (fsub rx rx_low)) (fsub rx_high rx_low)))"

definition aec_next_gain :: "rat \<Rightarrow> rat \<Rightarrow> rat" where
  "aec_next_gain t g = (if t < g then smooth (60 / 100) (40 / 100) g t else smooth (95 / 100) (5 / 100) g t)"

definition aec_encode :: "bool \<Rightarrow> s16 list \<Rightarrow> dsp \<Rightarrow> dsp \<times> s16 list" where
  "aec_encode s16le ps d =
     (if \<not> s16le \<or> ps = [] then (d, ps)
      else (let g = aec_next_gain (aec_target (g_aec_floor d) (g_aec_rx_power d)) (aec_gain d) in (d\<lparr>aec_gain := g\<rparr>, map (scale_sample g) ps)))"

definition aec_decode :: "bool \<Rightarrow> s16 list \<Rightarrow> dsp \<Rightarrow> dsp" where
  "aec_decode s16le ps d =
     (if \<not> s16le \<or> ps = [] then d
      else (let pw = frame_power ps; prev = g_aec_rx_power d
            in d\<lparr>g_aec_rx_power := (if prev < pw then smooth (80 / 100) (20 / 100) prev pw else smooth (95 / 100) (5 / 100) prev pw)\<rparr>))"

section \<open>Settings\<close>

text \<open>\<open>pow10 db\<close> is \<open>powf(10.0f, db / 20.0f)\<close> of the mathematics library.\<close>

definition aec_floor_of :: "rat \<Rightarrow> rat" where
  "aec_floor_of level = fsub 1 (fmul level (flit (85 / 100)))"

definition voxsdk_set_aec_suppression_level :: "rat \<Rightarrow> dsp \<Rightarrow> dsp" where
  "voxsdk_set_aec_suppression_level level d =
     (let l1 = (if level < 0 then 0 else level); l2 = (if 1 < l1 then 1 else l1) in d\<lparr>g_aec_floor := aec_floor_of l2\<rparr>)"

definition clamp_db :: "rat \<Rightarrow> rat" where
  "clamp_db db = (let d1 = (if db < -20 then -20 else db) in if 20 < d1 then 20 else d1)"

definition voxsdk_set_mic_gain_db :: "(rat \<Rightarrow> rat) \<Rightarrow> rat \<Rightarrow> dsp \<Rightarrow> dsp" where
  "voxsdk_set_mic_gain_db pow10 db d = d\<lparr>g_mic_gain := pow10 (clamp_db db)\<rparr>"

definition voxsdk_set_speaker_gain_db :: "(rat \<Rightarrow> rat) \<Rightarrow> rat \<Rightarrow> dsp \<Rightarrow> dsp" where
  "voxsdk_set_speaker_gain_db pow10 db d = d\<lparr>g_spk_gain := pow10 (clamp_db db)\<rparr>"

text \<open>The filters as they are registered, in this order, and which of them are enabled.\<close>

definition vox_audio_processing_init :: "(rat \<Rightarrow> rat) \<Rightarrow> bool \<Rightarrow> bool \<Rightarrow> bool \<Rightarrow> rat \<Rightarrow> rat \<Rightarrow> rat \<Rightarrow> dsp \<Rightarrow> dsp \<times> (string \<times> bool) list" where
  "vox_audio_processing_init pow10 ns agc aec_wanted level mic_db spk_db d =
     (d\<lparr>g_mic_gain := (if mic_db \<noteq> 0 then pow10 mic_db else g_mic_gain d),
        g_spk_gain := (if spk_db \<noteq> 0 then pow10 spk_db else g_spk_gain d),
        g_aec_floor := aec_floor_of level\<rparr>,
      [(''vox_mic_gain'', True), (''vox_ns'', ns), (''vox_agc'', agc), (''vox_aec'', aec_wanted), (''vox_spk_gain'', True)])"

text \<open>
  A filter's state for a new stream; \<open>mem\<close> is whether it could be allocated. Without a state the
  stack does not open the stream, and what is kept here is not used.
\<close>

definition ns_encupd :: "bool \<Rightarrow> dsp \<Rightarrow> errno option \<times> dsp" where
  "ns_encupd mem d = (if \<not> mem then (Some ENOMEM, d) else (None, d\<lparr>ns_floor_sq := 0, ns_gain := 1\<rparr>))"

definition agc_encupd :: "bool \<Rightarrow> dsp \<Rightarrow> errno option \<times> dsp" where
  "agc_encupd mem d = (if \<not> mem then (Some ENOMEM, d) else (None, d\<lparr>agc_gain := 1\<rparr>))"

definition aec_encupd :: "bool \<Rightarrow> dsp \<Rightarrow> errno option \<times> dsp" where
  "aec_encupd mem d = (if \<not> mem then (Some ENOMEM, d) else (None, d\<lparr>aec_gain := 1\<rparr>))"

definition dsp_zero :: dsp where
  "dsp_zero = \<lparr>g_mic_gain = 1, g_spk_gain = 1, g_aec_floor = flit (15 / 100), g_aec_rx_power = 0, ns_floor_sq = 0, ns_gain = 1,
     agc_gain = 1, aec_gain = 1\<rparr>"

section \<open>Rounding is monotone\<close>

lemma round_even_mono: "m \<le> m' \<Longrightarrow> round_even m \<le> round_even m'"
proof (cases "\<lfloor>m\<rfloor> = \<lfloor>m'\<rfloor>")
  case True
  assume "m \<le> m'"
  then show ?thesis using True by (auto simp: round_even_def Let_def)
next
  case False
  assume "m \<le> m'"
  then have "\<lfloor>m\<rfloor> + 1 \<le> \<lfloor>m'\<rfloor>" using False floor_mono[of m m'] by simp
  moreover have "round_even m \<le> \<lfloor>m\<rfloor> + 1" "\<lfloor>m'\<rfloor> \<le> round_even m'" by (auto simp: round_even_def Let_def)
  ultimately show ?thesis by simp
qed

lemma ilog2_less: "0 < x \<Longrightarrow> x < pow2 (ilog2 x + 1)"
proof (cases "1 \<le> x")
  case True
  let ?n = "\<lfloor>x\<rfloor>"
  have "ilog2 x + 1 = int (bits ?n)" using True by (simp add: ilog2_def)
  then have "pow2 (ilog2 x + 1) = of_int (2 ^ bits ?n)" by simp
  moreover have "?n + 1 \<le> 2 ^ bits ?n" using bits_less[of ?n] True by simp
  then have "of_int (?n + 1) \<le> (of_int (2 ^ bits ?n) :: rat)" by (simp only: of_int_le_iff)
  moreover have "x < of_int (?n + 1)" by linarith
  ultimately show ?thesis by linarith
next
  case False
  assume x: "0 < x"
  let ?n = "\<lceil>1 / x\<rceil> - 1"
  have "1 < 1 / x" using x False by simp
  then have n: "0 < ?n" by (simp add: less_ceiling_iff)
  have e: "ilog2 x + 1 = - int (bits ?n - 1)" using False bits_ge[OF n] by (simp add: ilog2_def)
  have "of_int (2 ^ (bits ?n - 1)) \<le> (of_int ?n :: rat)" using bits_ge[OF n] of_int_le_iff by blast
  also have "\<dots> < 1 / x" by linarith
  finally have "2 ^ (bits ?n - 1) < 1 / x" by simp
  then show ?thesis using x unfolding e pow2_neg pow2_nat by (simp add: field_simps)
qed

lemma pow2_mono: "a \<le> b \<Longrightarrow> pow2 a \<le> pow2 b"
proof -
  assume "a \<le> b"
  then have "pow2 b = pow2 a * 2 ^ nat (b - a)" using pow2_add[of a "int (nat (b - a))"] unfolding pow2_nat by simp
  moreover have "(1 :: rat) \<le> 2 ^ nat (b - a)" by simp
  ultimately show ?thesis using mult_left_mono[of 1 "2 ^ nat (b - a)" "pow2 a"] pow2_pos[of a] by simp
qed

lemma pow2_less_iff: "pow2 a < pow2 b \<longleftrightarrow> a < b"
proof
  assume "pow2 a < pow2 b"
  then show "a < b" using pow2_mono[of b a] by (cases "a < b") auto
next
  assume "a < b"
  then have "pow2 (a + 1) \<le> pow2 b" by (intro pow2_mono) simp
  moreover have "pow2 (a + 1) = 2 * pow2 a" using pow2_add[of a 1] by (simp add: pow2_def[of 1])
  ultimately show "pow2 a < pow2 b" using pow2_pos[of a] by linarith
qed

lemma round_top: "0 < x \<Longrightarrow> f32_round x \<le> pow2 (ilog2 x + 1)"
proof -
  assume x: "0 < x"
  let ?e = "ilog2 x - 23"
  have p: "pow2 (ilog2 x + 1) = 2 ^ 24 * pow2 ?e" using pow2_add[of ?e "int 24"] unfolding pow2_nat by (simp add: ac_simps)
  then have "x / pow2 ?e \<le> of_int (2 ^ 24)" using ilog2_less[OF x] by (simp add: pos_divide_le_eq)
  then have "round_even (x / pow2 ?e) \<le> 2 ^ 24" by (rule round_even_mono_int)
  then have "of_int (round_even (x / pow2 ?e)) \<le> (of_int (2 ^ 24) :: rat)" by (simp only: of_int_le_iff)
  then have "of_int (round_even (x / pow2 ?e)) * pow2 ?e \<le> of_int (2 ^ 24) * pow2 ?e" by (rule mult_right_mono) (simp add: less_imp_le)
  then show ?thesis using x p by (simp add: f32_round_pos)
qed

lemma round_bottom: "0 < x \<Longrightarrow> pow2 (ilog2 x) \<le> f32_round x"
proof -
  assume x: "0 < x"
  let ?e = "ilog2 x - 23"
  have p: "pow2 (ilog2 x) = 2 ^ 23 * pow2 ?e" using pow2_add[of ?e "int 23"] unfolding pow2_nat by (simp add: ac_simps)
  then have "of_int (2 ^ 23) \<le> x / pow2 ?e" using ilog2_le[OF x] by (simp add: pos_le_divide_eq)
  then have "round_even (of_int (2 ^ 23)) \<le> round_even (x / pow2 ?e)" by (rule round_even_mono)
  then have "2 ^ 23 \<le> round_even (x / pow2 ?e)" by (simp only: round_even_int)
  then have "of_int (2 ^ 23) \<le> (of_int (round_even (x / pow2 ?e)) :: rat)" by (simp only: of_int_le_iff)
  then have "of_int (2 ^ 23) * pow2 ?e \<le> of_int (round_even (x / pow2 ?e)) * pow2 ?e" by (rule mult_right_mono) (simp add: less_imp_le)
  then show ?thesis using x p by (simp add: f32_round_pos)
qed

lemma f32_round_mono_pos: "0 < x \<Longrightarrow> x \<le> y \<Longrightarrow> f32_round x \<le> f32_round y"
proof -
  assume x: "0 < x" and y: "x \<le> y"
  then have y0: "0 < y" by simp
  have "pow2 (ilog2 x) < pow2 (ilog2 y + 1)" using ilog2_le[OF x] ilog2_less[OF y0] y by linarith
  then have le: "ilog2 x \<le> ilog2 y" by (simp add: pow2_less_iff)
  show ?thesis
  proof (cases "ilog2 x = ilog2 y")
    case True
    let ?e = "ilog2 y - 23"
    have "x / pow2 ?e \<le> y / pow2 ?e" using y by (intro divide_right_mono) (simp_all add: less_imp_le)
    then have "of_int (round_even (x / pow2 ?e)) \<le> (of_int (round_even (y / pow2 ?e)) :: rat)"
      unfolding of_int_le_iff by (rule round_even_mono)
    then show ?thesis using x y0 True by (simp add: f32_round_pos mult_right_mono less_imp_le)
  next
    case False
    then have "pow2 (ilog2 x + 1) \<le> pow2 (ilog2 y)" using le by (intro pow2_mono) simp
    then show ?thesis using round_top[OF x] round_bottom[OF y0] by linarith
  qed
qed

lemma f32_round_minus: "f32_round (- x) = - f32_round x"
  by (simp add: f32_round_def)

lemma f32_round_mono: "x \<le> y \<Longrightarrow> f32_round x \<le> f32_round y"
proof -
  assume xy: "x \<le> y"
  consider "0 < x" | "x \<le> 0" "0 \<le> y" | "y < 0" by linarith
  then show ?thesis
  proof cases
    case 1
    then show ?thesis using xy by (rule f32_round_mono_pos)
  next
    case 2
    then show ?thesis using f32_round_nonneg[of y] f32_round_nonneg[of "- x"] by (simp add: f32_round_minus)
  next
    case 3
    then show ?thesis using f32_round_mono_pos[of "- y" "- x"] xy by (simp add: f32_round_minus)
  qed
qed

section \<open>Gains stay between silence and one\<close>

definition unit :: "rat \<Rightarrow> bool" where
  "unit g \<longleftrightarrow> 0 \<le> g \<and> g \<le> 1"

lemma f32_1 [simp]: "f32_round 1 = 1"
  using f32_round_nat[of 1] by simp

lemma round_le1: "x \<le> 1 \<Longrightarrow> f32_round x \<le> 1"
  using f32_round_mono[of x 1] by simp

text \<open>The weights of each mean are those for which even the rounded sum of both is one.\<close>

lemma smooth_unit:
  assumes "0 \<le> flit a" and "0 \<le> flit b" and "fadd (flit a) (flit b) = 1" and "flit (flit a) = flit a" and "flit (flit b) = flit b"
    and "unit x" and "unit y"
  shows "unit (smooth a b x y)"
proof -
  have "flit a * x \<le> flit a * 1" using assms by (intro mult_left_mono) (simp_all add: unit_def)
  moreover have "flit b * y \<le> flit b * 1" using assms by (intro mult_left_mono) (simp_all add: unit_def)
  ultimately have "flit a * x \<le> flit a" "flit b * y \<le> flit b" by simp_all
  then have m: "fmul (flit a) x \<le> flit a" "fmul (flit b) y \<le> flit b"
    using f32_round_mono[of "flit a * x" "flit a"] f32_round_mono[of "flit b * y" "flit b"] assms(4,5) by simp_all
  have "smooth a b x y \<le> fadd (flit a) (flit b)" unfolding smooth_def using m by (intro f32_round_mono) simp
  moreover have "0 \<le> smooth a b x y" unfolding smooth_def using assms by (intro f32_round_nonneg add_nonneg_nonneg) (simp_all add: unit_def)
  ultimately show ?thesis using assms(3) by (simp add: unit_def)
qed

lemma weights:
  "unit x \<Longrightarrow> unit y \<Longrightarrow> unit (smooth (70 / 100) (30 / 100) x y)"
  "unit x \<Longrightarrow> unit y \<Longrightarrow> unit (smooth (95 / 100) (5 / 100) x y)"
  "unit x \<Longrightarrow> unit y \<Longrightarrow> unit (smooth (60 / 100) (40 / 100) x y)"
  by (rule smooth_unit; (assumption | code_simp))+

lemma ns_target_unit: "unit (ns_target snr)"
proof -
  have k: "0 \<le> flit (1 / 10)" "flit (1 / 10) \<le> 1" "0 \<le> flit (9 / 10)"
    "fadd (flit (1 / 10)) (fdiv (fmul (flit (9 / 10)) 3) 3) \<le> 1" by code_simp+
  show ?thesis
  proof (cases "4 \<le> snr \<or> snr \<le> 1")
    case True
    then show ?thesis using k by (auto simp: unit_def ns_target_def)
  next
    case False
    let ?d = "fsub snr 1"
    have "f32_round 3 = 3" using f32_round_nat[of 3] by simp
    then have d: "0 \<le> ?d" "?d \<le> 3" using False f32_round_nonneg[of "snr - 1"] f32_round_mono[of "snr - 1" 3] by simp_all
    then have "flit (9 / 10) * ?d \<le> flit (9 / 10) * 3" using k(3) by (intro mult_left_mono)
    then have "fmul (flit (9 / 10)) ?d / 3 \<le> fmul (flit (9 / 10)) 3 / 3" by (intro divide_right_mono f32_round_mono) simp_all
    then have "fdiv (fmul (flit (9 / 10)) ?d) 3 \<le> fdiv (fmul (flit (9 / 10)) 3) 3" by (rule f32_round_mono)
    then have "fadd (flit (1 / 10)) (fdiv (fmul (flit (9 / 10)) ?d) 3) \<le> fadd (flit (1 / 10)) (fdiv (fmul (flit (9 / 10)) 3) 3)"
      by (intro f32_round_mono) simp
    moreover have "0 \<le> fadd (flit (1 / 10)) (fdiv (fmul (flit (9 / 10)) ?d) 3)"
    proof -
      have "0 \<le> fmul (flit (9 / 10)) ?d" by (rule f32_round_nonneg) (rule mult_nonneg_nonneg[OF k(3) d(1)])
      then have "0 \<le> fdiv (fmul (flit (9 / 10)) ?d) 3" by (intro f32_round_nonneg) simp
      then show ?thesis using k(1) by (intro f32_round_nonneg) simp
    qed
    ultimately show ?thesis using False k(4) by (simp add: unit_def ns_target_def)
  qed
qed

lemma aec_target_unit: "unit fl \<Longrightarrow> unit (aec_target fl rx)"
proof -
  assume fl: "unit fl"
  show ?thesis
  proof (cases "rx \<le> rx_low \<or> rx_high \<le> rx")
    case True
    then show ?thesis using fl by (auto simp: unit_def aec_target_def)
  next
    case False
    have span: "fsub rx_high rx_low = 8960000" "f32_round 8960000 = 8960000" using f32_round_nat[of 8960000] by simp_all
    have a: "0 \<le> fsub 1 fl" "fsub 1 fl \<le> 1" using fl f32_round_nonneg[of "1 - fl"] round_le1[of "1 - fl"] by (simp_all add: unit_def)
    have b: "0 \<le> fsub rx rx_low" "fsub rx rx_low \<le> 8960000"
      using False f32_round_nonneg[of "rx - rx_low"] f32_round_mono[of "rx - rx_low" 8960000] span by simp_all
    have "fsub 1 fl * fsub rx rx_low \<le> 1 * 8960000" using a b by (intro mult_mono) simp_all
    then have m: "0 \<le> fmul (fsub 1 fl) (fsub rx rx_low)" "fmul (fsub 1 fl) (fsub rx rx_low) \<le> 8960000"
      using a b f32_round_nonneg f32_round_mono[of _ 8960000] span by simp_all
    then have "0 \<le> fdiv (fmul (fsub 1 fl) (fsub rx rx_low)) 8960000" "fdiv (fmul (fsub 1 fl) (fsub rx rx_low)) 8960000 \<le> 1"
      using f32_round_nonneg round_le1 by simp_all
    then have "unit (fsub 1 (fdiv (fmul (fsub 1 fl) (fsub rx rx_low)) 8960000))"
      using f32_round_nonneg round_le1 by (simp add: unit_def)
    then show ?thesis using False span by (simp add: aec_target_def)
  qed
qed

lemma aec_floor_unit: "unit level \<Longrightarrow> unit (aec_floor_of level)"
proof -
  assume l: "unit level"
  have k: "0 \<le> flit (85 / 100)" "flit (85 / 100) \<le> 1" by code_simp+
  have "level * flit (85 / 100) \<le> 1 * 1" using l k by (intro mult_mono) (simp_all add: unit_def)
  moreover have "0 \<le> level * flit (85 / 100)" using l k by (intro mult_nonneg_nonneg) (simp_all add: unit_def)
  ultimately have "0 \<le> fmul level (flit (85 / 100))" "fmul level (flit (85 / 100)) \<le> 1" using f32_round_nonneg round_le1 by simp_all
  then show ?thesis using f32_round_nonneg round_le1 by (simp add: unit_def aec_floor_of_def)
qed

section \<open>Samples\<close>

lemma sint_bounds: "- 32768 \<le> sint (p :: s16)" "sint p \<le> 32767"
  using sint_greater_eq[of p] sint_less[of p] by simp_all

lemma sample_exact: "f32_round (f_of p) = f_of p"
proof (cases "0 \<le> sint p")
  case True
  then have "f_of p = of_nat (nat (sint p))" by (simp add: f_of_def)
  moreover have "nat (sint p) \<le> 2 ^ 24" using sint_bounds(2)[of p] by simp
  ultimately show ?thesis using f32_round_nat[of "nat (sint p)"] by simp
next
  case False
  then have "f_of p = - of_nat (nat (- sint p))" by (simp add: f_of_def)
  moreover have "nat (- sint p) \<le> 2 ^ 24" using sint_bounds(1)[of p] by simp
  ultimately show ?thesis using f32_round_nat[of "nat (- sint p)"] by (simp add: f32_round_minus)
qed

text \<open>The sample loop saturates: it never wraps around.\<close>

lemma s16_of_int: "- 32768 \<le> k \<Longrightarrow> k \<le> 32767 \<Longrightarrow> sint (word_of_int k :: s16) = k"
  by (simp add: signed_of_int signed_take_bit_int_eq_self)

lemma scale_saturates:
  "sint (scale_sample g p) = (if 32767 < trunc (fmul (f_of p) g) then 32767 else if trunc (fmul (f_of p) g) < -32768 then -32768 else trunc (fmul (f_of p) g))"
proof -
  let ?v = "fmul (f_of p) g"
  have up: "32767 < ?v \<Longrightarrow> 32767 \<le> trunc ?v" and lo: "?v < -32768 \<Longrightarrow> trunc ?v \<le> -32768" by (auto simp: trunc_def le_floor_iff ceiling_le_iff)
  have mid: "\<not> 32767 < ?v \<Longrightarrow> trunc ?v \<le> 32767" "\<not> ?v < -32768 \<Longrightarrow> -32768 \<le> trunc ?v"
    by (auto simp: trunc_def floor_le_iff ceiling_le_iff le_floor_iff le_ceiling_iff not_less)
  have c: "sint (32767 :: s16) = 32767" "sint (- 32768 :: s16) = - 32768" by simp_all
  show ?thesis
  proof (cases "32767 < ?v \<or> ?v < -32768")
    case True
    then show ?thesis using up lo c by (auto simp: scale_sample_def Let_def)
  next
    case False
    then show ?thesis using mid s16_of_int[of "trunc ?v"] by (auto simp: scale_sample_def Let_def)
  qed
qed

lemma scale_shrinks:
  assumes "unit g"
  shows "0 \<le> sint p \<Longrightarrow> 0 \<le> sint (scale_sample g p) \<and> sint (scale_sample g p) \<le> sint p"
    and "sint p \<le> 0 \<Longrightarrow> sint p \<le> sint (scale_sample g p) \<and> sint (scale_sample g p) \<le> 0"
proof -
  let ?v = "fmul (f_of p) g"
  note s = sint_bounds[of p]
  show "0 \<le> sint p \<Longrightarrow> 0 \<le> sint (scale_sample g p) \<and> sint (scale_sample g p) \<le> sint p"
  proof -
    assume p: "0 \<le> sint p"
    have f: "0 \<le> f_of p" using p unfolding f_of_def of_int_0_le_iff .
    have "f_of p * g \<le> f_of p * 1" using assms f by (intro mult_left_mono) (simp_all add: unit_def)
    moreover have "0 \<le> f_of p * g" using assms f by (simp add: unit_def)
    ultimately have "0 \<le> ?v" "?v \<le> of_int (sint p)" using f32_round_nonneg f32_round_mono[of "f_of p * g" "f_of p"] sample_exact[of p] by (simp_all add: f_of_def)
    then have "0 \<le> trunc ?v" "trunc ?v \<le> sint p" by (auto simp: trunc_def floor_le_iff)
    then show ?thesis using s by (simp add: scale_saturates)
  qed
  show "sint p \<le> 0 \<Longrightarrow> sint p \<le> sint (scale_sample g p) \<and> sint (scale_sample g p) \<le> 0"
  proof -
    assume p: "sint p \<le> 0"
    have f: "f_of p \<le> 0" using p unfolding f_of_def of_int_le_0_iff .
    have "f_of p * 1 \<le> f_of p * g" using assms f by (intro mult_left_mono_neg) (simp_all add: unit_def)
    moreover have "f_of p * g \<le> 0" using assms f by (intro mult_nonpos_nonneg) (simp_all add: unit_def)
    ultimately have "?v \<le> 0" "of_int (sint p) \<le> ?v"
      using f32_round_mono[of "f_of p * g" 0] f32_round_mono[of "f_of p" "f_of p * g"] sample_exact[of p] by (simp_all add: f_of_def)
    moreover have "(of_int (sint p) :: rat) \<le> of_int \<lceil>?v\<rceil>" using calculation(2) le_of_int_ceiling[of ?v] by (rule order_trans)
    then have "sint p \<le> \<lceil>?v\<rceil>" unfolding of_int_le_iff .
    ultimately have "trunc ?v \<le> 0" "sint p \<le> trunc ?v" using p by (auto simp: trunc_def)
    then show ?thesis using s by (simp add: scale_saturates)
  qed
qed

section \<open>Runs\<close>

text \<open>
  Frames through the gate, the level control and the suppressor in any order, frames that are
  played, new streams, and the application changing the suppression. The effects are the frames
  that the gate and the suppressor were given and what they made of them.
\<close>

datatype dsp_in =
    D_ns bool "s16 list"
  | D_agc bool "s16 list"
  | D_aec bool "s16 list"
  | D_played bool "s16 list"
  | D_stream bool bool bool
  | D_level rat

fun dsp_step :: "dsp_in \<Rightarrow> (dsp, s16 list \<times> s16 list) act" where
  "dsp_step (D_ns b ps) d = (case ns_encode b ps d of (d', qs) \<Rightarrow> (d', [(ps, qs)]))"
| "dsp_step (D_agc b ps) d = (fst (agc_encode b ps d), [])"
| "dsp_step (D_aec b ps) d = (case aec_encode b ps d of (d', qs) \<Rightarrow> (d', [(ps, qs)]))"
| "dsp_step (D_played b ps) d = (aec_decode b ps d, [])"
| "dsp_step (D_stream m1 m2 m3) d = (snd (aec_encupd m3 (snd (agc_encupd m2 (snd (ns_encupd m1 d))))), [])"
| "dsp_step (D_level l) d = (voxsdk_set_aec_suppression_level l d, [])"

definition dsp_wf :: "dsp \<Rightarrow> bool" where
  "dsp_wf d \<longleftrightarrow> unit (ns_gain d) \<and> unit (aec_gain d) \<and> unit (g_aec_floor d) \<and> flit (1 / 10) \<le> agc_gain d \<and> agc_gain d \<le> 10"

text \<open>A sample that keeps its sign and does not grow.\<close>

definition attenuated :: "s16 \<Rightarrow> s16 \<Rightarrow> bool" where
  "attenuated p q \<longleftrightarrow> (0 \<le> sint p \<longrightarrow> 0 \<le> sint q \<and> sint q \<le> sint p) \<and> (sint p \<le> 0 \<longrightarrow> sint p \<le> sint q \<and> sint q \<le> 0)"

lemma attenuated_refl: "attenuated p p"
  by (simp add: attenuated_def)

lemma attenuated_scale: "unit g \<Longrightarrow> attenuated p (scale_sample g p)"
  using scale_shrinks[of g p] by (simp add: attenuated_def)

lemma attenuated_frame: "unit g \<Longrightarrow> list_all2 attenuated ps (map (scale_sample g) ps)"
  by (simp add: list_all2_conv_all_nth attenuated_scale)

lemma attenuated_same: "list_all2 attenuated ps ps"
  by (simp add: list_all2_same attenuated_refl)

lemma agc_next_range: "flit (1 / 10) \<le> agc_next pw g \<and> agc_next pw g \<le> 10"
proof -
  have "flit (1 / 10) \<le> 10" by code_simp
  then show ?thesis by (simp add: agc_next_def Let_def)
qed

lemma next_gain_unit:
  "unit t \<Longrightarrow> unit g \<Longrightarrow> unit (ns_next_gain t g)" "unit t \<Longrightarrow> unit g \<Longrightarrow> unit (aec_next_gain t g)"
  using weights[of g t] by (simp_all only: ns_next_gain_def aec_next_gain_def split: if_split) blast+

lemma ns_keeps:
  assumes "dsp_wf d"
  shows "dsp_wf (fst (ns_encode b ps d)) \<and> list_all2 attenuated ps (snd (ns_encode b ps d))"
proof -
  have "unit (ns_next_gain (ns_target x) (ns_gain d))" for x
    using assms by (intro next_gain_unit ns_target_unit) (simp add: dsp_wf_def)
  then show ?thesis using assms by (simp add: ns_encode_def Let_def dsp_wf_def attenuated_same attenuated_frame)
qed

lemma aec_keeps:
  assumes "dsp_wf d"
  shows "dsp_wf (fst (aec_encode b ps d)) \<and> list_all2 attenuated ps (snd (aec_encode b ps d))"
proof -
  have "unit (aec_next_gain (aec_target (g_aec_floor d) x) (aec_gain d))" for x
    using assms by (intro next_gain_unit aec_target_unit) (simp_all add: dsp_wf_def)
  then show ?thesis using assms by (simp add: aec_encode_def Let_def dsp_wf_def attenuated_same attenuated_frame)
qed

lemma level_keeps: "dsp_wf d \<Longrightarrow> dsp_wf (voxsdk_set_aec_suppression_level l d)"
proof -
  assume d: "dsp_wf d"
  have "unit (if 1 < (if l < 0 then 0 else l) then 1 else if l < 0 then 0 else l)" by (simp add: unit_def)
  from aec_floor_unit[OF this] d show ?thesis by (simp add: voxsdk_set_aec_suppression_level_def Let_def dsp_wf_def)
qed

lemma dsp_step_wf: "dsp_wf d \<Longrightarrow> dsp_wf (fst (dsp_step i d)) \<and> (\<forall>(ps, qs) \<in> set (snd (dsp_step i d)). list_all2 attenuated ps qs)"
proof (cases i)
  case (D_ns b ps)
  assume "dsp_wf d"
  from ns_keeps[OF this, of b ps] show ?thesis by (auto simp: D_ns split: prod.splits)
next
  case (D_aec b ps)
  assume "dsp_wf d"
  from aec_keeps[OF this, of b ps] show ?thesis by (auto simp: D_aec split: prod.splits)
next
  case (D_agc b ps)
  assume "dsp_wf d"
  then show ?thesis using agc_next_range by (simp add: D_agc agc_encode_def Let_def dsp_wf_def)
next
  case (D_played b ps)
  assume "dsp_wf d"
  then show ?thesis by (simp add: D_played aec_decode_def Let_def dsp_wf_def)
next
  case (D_stream m1 m2 m3)
  assume "dsp_wf d"
  moreover have "flit (1 / 10) \<le> 1" by code_simp
  ultimately show ?thesis by (simp add: D_stream aec_encupd_def agc_encupd_def ns_encupd_def dsp_wf_def unit_def)
next
  case (D_level l)
  assume "dsp_wf d"
  then show ?thesis using level_keeps by (simp add: D_level)
qed

lemma dsp_zero_wf: "dsp_wf dsp_zero"
proof -
  have "unit (flit (15 / 100))" "flit (1 / 10) \<le> 1" by (simp only: unit_def, code_simp, code_simp)
  then show ?thesis by (simp add: dsp_wf_def dsp_zero_def unit_def)
qed

section \<open>Properties\<close>

text \<open>C27: the gate and the echo suppressor never amplify: along every run of frames in any order, with the
  suppression changed to any level while they run and every rounding of single precision counted,
  each sample they pass keeps its sign and is at most what it was, and the level control's gain
  stays between 0.1 and 10.\<close>

theorem suppressors_never_amplify:
  "let (d, frames) = run_acts dsp_step is dsp_zero in
     (\<forall>(ps, qs) \<in> set frames. list_all2 attenuated ps qs) \<and> flit (1 / 10) \<le> agc_gain d \<and> agc_gain d \<le> 10"
proof -
  have "dsp_wf (fst (run_acts dsp_step is d)) \<and> (\<forall>(ps, qs) \<in> set (snd (run_acts dsp_step is d)). list_all2 attenuated ps qs)"
    if "dsp_wf d" for d
    using that
  proof (induction "is" arbitrary: d)
    case (Cons i "is")
    then show ?case using dsp_step_wf[of d i] by auto
  qed (simp add: skip_def)
  from this[OF dsp_zero_wf] show ?thesis by (auto simp: dsp_wf_def split: prod.splits)
qed

theorem suppressors_never_amplify_witness:
  "let (d, frames) = run_acts dsp_step [D_played True [20000, -20000], D_level 2, D_aec True [100, -5]] dsp_zero in
     (\<forall>(ps, qs) \<in> set frames. list_all2 attenuated ps qs) \<and> flit (1 / 10) \<le> agc_gain d \<and> agc_gain d \<le> 10"
  by (rule suppressors_never_amplify)

text \<open>the filters' sample loop saturates: with any gain, a result beyond the 16 bits becomes the
  largest or smallest sample, and any other is the product cut towards zero, never wrapped around.\<close>

theorem filters_saturate:
  "sint (scale_sample g p) = max (-32768) (min 32767 (trunc (fmul (f_of p) g)))"
  by (simp add: scale_saturates)

end
