(* ===== verification/Vox_Tap.thy ===== *)
theory Vox_Tap
  imports Vox_Record Vox_Dispatch Vox_Float
begin

text \<open>
  \<^verbatim>\<open>src/media_tap.c\<close>: the filter that sees every audio frame of a call, on its way out
  (encode) and in (decode). It measures the level, and hands 16-bit frames to the callback of
  the application and to the recording. It never changes a frame.
\<close>

section \<open>The level of a frame\<close>

text \<open>Double precision, as \<open>f32_round\<close> is single precision: 53 bits, to nearest even.\<close>

definition f64_pos :: "rat \<Rightarrow> rat" where
  "f64_pos x = (let e = ilog2 x - 52 in of_int (round_even (x / pow2 e)) * pow2 e)"

definition f64_round :: "rat \<Rightarrow> rat" where
  "f64_round x = (if x = 0 then 0 else if 0 < x then f64_pos x else - f64_pos (- x))"

text \<open>
  The samples of a frame by format. \<open>S24_3LE\<close> holds three bytes for a sample; the samples of a
  \<open>FLOAT\<close> frame are finite.
\<close>

datatype samples =
    S16LE "s16 list" | S32LE "32 word list" | FLOAT "rat list" | S24_3LE "(u8 \<times> u8 \<times> u8) list"
  | OTHER_FMT nat nat

fun sampc :: "samples \<Rightarrow> nat" where
  "sampc (S16LE xs) = length xs"
| "sampc (S32LE xs) = length xs"
| "sampc (FLOAT xs) = length xs"
| "sampc (S24_3LE xs) = length xs"
| "sampc (OTHER_FMT _ n) = n"

text \<open>\<open>p[0] | p[1] << 8 | (int8_t)p[2] << 16\<close>, in \<open>int32_t\<close>.\<close>

definition s24_value :: "u8 \<times> u8 \<times> u8 \<Rightarrow> 32 word" where
  "s24_value p = (case p of (a, b, c) \<Rightarrow> ucast a OR push_bit 8 (ucast b) OR push_bit 16 (scast c))"

definition square_sum :: "rat list \<Rightarrow> rat" where
  "square_sum vs = fold (\<lambda>v acc. f64_round (acc + f64_round (v * v))) vs 0"

text \<open>The sum of the squares and the full scale of a format that is measured.\<close>

fun level_parts :: "samples \<Rightarrow> (rat \<times> rat) option" where
  "level_parts (S16LE xs) = Some (square_sum (map (\<lambda>x. of_int (sint x)) xs), 32768)"
| "level_parts (S32LE xs) = Some (square_sum (map (\<lambda>x. of_int (sint x)) xs), 2147483648)"
| "level_parts (FLOAT xs) = Some (square_sum xs, 1)"
| "level_parts (S24_3LE xs) = Some (square_sum (map (\<lambda>p. of_int (sint (s24_value p))) xs), 8388608)"
| "level_parts (OTHER_FMT _ _) = None"

text \<open>\<open>sqrt\<close> and \<open>log10\<close> of the mathematics library, and the pattern of a float in memory.\<close>

record fmath =
  fm_sqrt :: "rat \<Rightarrow> rat"
  fm_log10 :: "rat \<Rightarrow> rat"
  fm_bits :: "rat \<Rightarrow> u32"

text \<open>\<open>tap_compute_dbov\<close>; \<open>sampv\<close> is \<open>None\<close> for NULL.\<close>

definition tap_compute_dbov :: "fmath \<Rightarrow> samples option \<Rightarrow> rat" where
  "tap_compute_dbov M sampv =
     (case sampv of
        None \<Rightarrow> - 127
      | Some xs \<Rightarrow>
          if sampc xs = 0 then - 127
          else (case level_parts xs of
                  None \<Rightarrow> - 127
                | Some (sum_sq, full) \<Rightarrow>
                    (let rms = fm_sqrt M (f64_round (sum_sq / f64_round (of_nat (sampc xs))))
                     in if rms \<le> 0 then - 127
                        else f32_round (f64_round (20 * fm_log10 M (f64_round (rms / full)))))))"

section \<open>State\<close>

text \<open>
  What the filter uses of a call wrapper: \<open>tp_listed\<close> whether it is in the list of calls,
  \<open>tp_audio\<close> the audio object of its baresip call, if it has one, the callback with its
  argument, the two level fields and the recording. The filter keeps a state for each direction
  of an audio object, with the wrapper once it has found it.
\<close>

record tap_call =
  tp_call :: call_id
  tp_listed :: bool
  tp_audio :: "nat option"
  tap_cb :: "nat option"
  tap_userdata :: nat
  tp_tx_level :: u32
  tp_rx_level :: u32
  tp_rec :: rec_st

record tap =
  ts_calls :: "tap_call list"
  ts_enc :: "call_id option"
  ts_dec :: "call_id option"
  s_tap_registered :: bool

record auframe =
  af_sampv :: samples
  af_srate :: u32
  af_ch :: u8
  af_timestamp :: u64

text \<open>A call of the application's callback, with all it is told, and the registration.\<close>

datatype tap_eff =
    TE_Callback nat call_id media_dir "s16 list" u32 u8 u64 nat
  | TE_Filter bool

definition on_tap_call :: "call_id \<Rightarrow> (tap_call \<Rightarrow> tap_call) \<Rightarrow> tap \<Rightarrow> tap" where
  "on_tap_call h f s = s\<lparr>ts_calls := map (\<lambda>c. if tp_call c = h then f c else c) (ts_calls s)\<rparr>"

definition tap_call_at :: "call_id \<Rightarrow> tap \<Rightarrow> tap_call option" where
  "tap_call_at h s = find (\<lambda>c. tp_call c = h) (ts_calls s)"

section \<open>Finding the call of a stream\<close>

definition tap_find_fn :: "nat \<Rightarrow> tap_call \<Rightarrow> call_id option \<Rightarrow> call_id option" where
  "tap_find_fn au c found = (if found = None \<and> tp_audio c = Some au then Some (tp_call c) else found)"

definition tap_find_call :: "nat \<Rightarrow> tap \<Rightarrow> call_id option" where
  "tap_find_call au s = fold (tap_find_fn au) (filter tp_listed (ts_calls s)) None"

text \<open>\<open>tap_encupd\<close> and \<open>tap_decupd\<close>; \<open>mem\<close> is whether the state could be allocated.\<close>

definition tap_encupd :: "bool \<Rightarrow> nat \<Rightarrow> tap \<Rightarrow> errno option \<times> tap" where
  "tap_encupd mem au s = (if \<not> mem then (Some ENOMEM, s) else (None, s\<lparr>ts_enc := tap_find_call au s\<rparr>))"

definition tap_decupd :: "bool \<Rightarrow> nat \<Rightarrow> tap \<Rightarrow> errno option \<times> tap" where
  "tap_decupd mem au s = (if \<not> mem then (Some ENOMEM, s) else (None, s\<lparr>ts_dec := tap_find_call au s\<rparr>))"

section \<open>Frames\<close>

text \<open>
  What encode and decode do with a frame once the call is known: the level of the direction,
  then, for 16-bit samples, the callback as it is read under the lock, and the recording.
\<close>

definition set_level :: "media_dir \<Rightarrow> u32 \<Rightarrow> tap_call \<Rightarrow> tap_call" where
  "set_level dir lv c = (case dir of DIR_TX \<Rightarrow> c\<lparr>tp_tx_level := lv\<rparr> | DIR_RX \<Rightarrow> c\<lparr>tp_rx_level := lv\<rparr>)"

definition run_callback :: "media_dir \<Rightarrow> call_id \<Rightarrow> s16 list \<Rightarrow> auframe \<Rightarrow> tap_call option \<Rightarrow> tap_eff list" where
  "run_callback dir h xs af c =
     (case c of
        None \<Rightarrow> []
      | Some x \<Rightarrow>
          (case tap_cb x of
             None \<Rightarrow> []
           | Some cb \<Rightarrow> [TE_Callback cb h dir xs (af_srate af) (af_ch af) (af_timestamp af) (tap_userdata x)]))"

definition tap_deliver :: "fmath \<Rightarrow> media_dir \<Rightarrow> call_id \<Rightarrow> auframe \<Rightarrow> (tap, tap_eff) act" where
  "tap_deliver M dir h af s =
     (let s1 = on_tap_call h (set_level dir (fm_bits M (tap_compute_dbov M (Some (af_sampv af))))) s
      in case af_sampv af of
           S16LE xs \<Rightarrow>
             (on_tap_call h (\<lambda>c. c\<lparr>tp_rec := vox_record_write_frame dir xs (af_srate af) (af_ch af) (tp_rec c)\<rparr>) s1,
              run_callback dir h xs af (tap_call_at h s1))
         | _ \<Rightarrow> (s1, []))"

definition tap_encode :: "fmath \<Rightarrow> nat \<Rightarrow> auframe \<Rightarrow> (tap, tap_eff) act" where
  "tap_encode M au af s =
     (let lc = (if ts_enc s = None then tap_find_call au s else ts_enc s);
          s1 = s\<lparr>ts_enc := lc\<rparr>
      in case lc of None \<Rightarrow> (s1, []) | Some h \<Rightarrow> tap_deliver M DIR_TX h af s1)"

definition tap_decode :: "fmath \<Rightarrow> nat \<Rightarrow> auframe \<Rightarrow> (tap, tap_eff) act" where
  "tap_decode M au af s =
     (let lc = (if ts_dec s = None then tap_find_call au s else ts_dec s);
          s1 = s\<lparr>ts_dec := lc\<rparr>
      in case lc of None \<Rightarrow> (s1, []) | Some h \<Rightarrow> tap_deliver M DIR_RX h af s1)"

section \<open>Setting the tap\<close>

definition set_tap_fn :: "call_id \<Rightarrow> nat option \<Rightarrow> nat \<Rightarrow> (tap, tap_eff) act" where
  "set_tap_fn h cb ud s =
     (let reg = cb \<noteq> None \<and> \<not> s_tap_registered s
      in (on_tap_call h (\<lambda>c. c\<lparr>tap_cb := cb, tap_userdata := ud\<rparr>)
            (if reg then s\<lparr>s_tap_registered := True\<rparr> else s),
          if reg then [TE_Filter True] else []))"

definition voxsdk_call_set_media_tap ::
  "dispatch_env \<Rightarrow> nat list \<Rightarrow> call_id option \<Rightarrow> nat option \<Rightarrow> nat \<Rightarrow> (tap, tap_eff) re_loop \<Rightarrow> rc \<times> (tap, tap_eff) re_loop \<times> tap_eff list" where
  "voxsdk_call_set_media_tap D turns call cb ud lp =
     (case call of
        None \<Rightarrow> (RC_vox ERR_INVAL, lp, [])
      | Some h \<Rightarrow> sync_rc (vox_dispatch_sync D turns (\<lambda>s. (RC_OK, set_tap_fn h cb ud s)) lp))"

section \<open>Every frame reaches its call\<close>

text \<open>The frames of the two directions of one audio object, interleaved.\<close>

type_synonym tap_in = "media_dir \<times> auframe"

definition tap_frame :: "fmath \<Rightarrow> nat \<Rightarrow> tap_in \<Rightarrow> (tap, tap_eff) act" where
  "tap_frame M au i = (case i of (DIR_TX, af) \<Rightarrow> tap_encode M au af | (DIR_RX, af) \<Rightarrow> tap_decode M au af)"

text \<open>What the application and the recording should get, and the level that should be left.\<close>

fun pcm_frames :: "tap_in list \<Rightarrow> (media_dir \<times> s16 list \<times> auframe) list" where
  "pcm_frames [] = []"
| "pcm_frames ((dir, af) # is) =
     (case af_sampv af of S16LE xs \<Rightarrow> [(dir, xs, af)] | _ \<Rightarrow> []) @ pcm_frames is"

definition last_level :: "fmath \<Rightarrow> media_dir \<Rightarrow> tap_in list \<Rightarrow> u32 \<Rightarrow> u32" where
  "last_level M dir is = fold (\<lambda>(d, af) l. if d = dir then fm_bits M (tap_compute_dbov M (Some (af_sampv af))) else l) is"

definition recorded :: "tap_in list \<Rightarrow> rec_st \<Rightarrow> rec_st" where
  "recorded is = fold (\<lambda>(dir, xs, af). write_frame (dir, xs, af_srate af, af_ch af)) (pcm_frames is)"

text \<open>The wrapper after frames, all fields considered.\<close>

definition tapped :: "fmath \<Rightarrow> tap_in list \<Rightarrow> tap_call \<Rightarrow> tap_call" where
  "tapped M is c = c\<lparr>tp_tx_level := last_level M DIR_TX is (tp_tx_level c),
                     tp_rx_level := last_level M DIR_RX is (tp_rx_level c), tp_rec := recorded is (tp_rec c)\<rparr>"

text \<open>The call of an audio object: the first one listed, for a filter that knows it or not yet.\<close>

definition stream_call :: "nat \<Rightarrow> call_id \<Rightarrow> tap \<Rightarrow> bool" where
  "stream_call au h s \<longleftrightarrow> tap_find_call au s = Some h \<and> ts_enc s \<in> {None, Some h} \<and> ts_dec s \<in> {None, Some h}"

lemma tap_find_fn_simps:
  "tap_find_fn au c None = (if tp_audio c = Some au then Some (tp_call c) else None)"
  "tap_find_fn au c (Some h) = Some h"
  by (simp_all add: tap_find_fn_def)

lemma fold_found: "fold (tap_find_fn au) cs (Some h) = Some h"
  by (induction cs) (simp_all add: tap_find_fn_simps)

lemma tap_find_call_first:
  "tap_find_call au s = map_option tp_call (find (\<lambda>c. tp_listed c \<and> tp_audio c = Some au) (ts_calls s))"
proof -
  have "fold (tap_find_fn au) (filter tp_listed cs) None = map_option tp_call (find (\<lambda>c. tp_listed c \<and> tp_audio c = Some au) cs)" for cs
    by (induction cs) (simp_all add: tap_find_fn_simps fold_found)
  then show ?thesis by (simp add: tap_find_call_def)
qed

lemma tapped_frame:
  "tapped M [(dir, af)] c =
     (let c1 = set_level dir (fm_bits M (tap_compute_dbov M (Some (af_sampv af)))) c
      in case af_sampv af of
           S16LE xs \<Rightarrow> c1\<lparr>tp_rec := vox_record_write_frame dir xs (af_srate af) (af_ch af) (tp_rec c1)\<rparr> | _ \<Rightarrow> c1)"
  by (cases dir; cases "af_sampv af")
    (simp_all add: tapped_def last_level_def recorded_def set_level_def write_frame_def Let_def)

lemma tapped_Cons: "tapped M (i # is) c = tapped M is (tapped M [i] c)"
  by (cases i; cases "af_sampv (snd i)") (simp_all add: tapped_def last_level_def recorded_def)

lemma tapped_same [simp]:
  "tp_call (tapped M is c) = tp_call c" "tp_listed (tapped M is c) = tp_listed c" "tp_audio (tapped M is c) = tp_audio c"
  "tap_cb (tapped M is c) = tap_cb c" "tap_userdata (tapped M is c) = tap_userdata c"
  by (simp_all add: tapped_def)

lemma tapped_Nil [simp]: "tapped M [] c = c"
  by (simp add: tapped_def last_level_def recorded_def)

lemma on_tap_call_twice:
  assumes "\<And>c. tp_call (f c) = tp_call c"
  shows "on_tap_call h g (on_tap_call h f s) = on_tap_call h (g \<circ> f) s"
  using assms by (simp add: on_tap_call_def)

lemma find_on:
  assumes "\<And>c. tp_call (f c) = tp_call c"
  shows "tap_call_at h (on_tap_call h f s) = map_option f (tap_call_at h s)"
proof -
  have "find (\<lambda>c. tp_call c = h) (map (\<lambda>c. if tp_call c = h then f c else c) cs) = map_option f (find (\<lambda>c. tp_call c = h) cs)" for cs
    by (induction cs) (simp_all add: assms)
  then show ?thesis by (simp add: tap_call_at_def on_tap_call_def)
qed

lemma find_other:
  assumes "k \<noteq> h" and "\<And>c. tp_call (f c) = tp_call c"
  shows "tap_call_at k (on_tap_call h f s) = tap_call_at k s"
proof -
  have "find (\<lambda>c. tp_call c = k) (map (\<lambda>c. if tp_call c = h then f c else c) cs) = find (\<lambda>c. tp_call c = k) cs" for cs
    by (induction cs) (simp_all add: assms)
  then show ?thesis by (simp add: tap_call_at_def on_tap_call_def)
qed

lemma find_call_on:
  assumes "\<And>c. tp_call (f c) = tp_call c" "\<And>c. tp_listed (f c) = tp_listed c" "\<And>c. tp_audio (f c) = tp_audio c"
  shows "tap_find_call au (on_tap_call h f s) = tap_find_call au s"
proof -
  let ?g = "\<lambda>c. if tp_call c = h then f c else c"
  let ?P = "\<lambda>c. tp_listed c \<and> tp_audio c = Some au"
  have m: "find ?P (map ?g cs) = map_option ?g (find (?P \<circ> ?g) cs)" for cs by (induction cs) simp_all
  have "?P \<circ> ?g = ?P" by (rule ext) (simp add: assms)
  moreover have "tp_call \<circ> ?g = tp_call" by (rule ext) (simp add: assms)
  ultimately have "map_option tp_call (find ?P (map ?g (ts_calls s))) = map_option tp_call (find ?P (ts_calls s))"
    by (simp only: m option.map_comp)
  then show ?thesis by (simp add: tap_find_call_first on_tap_call_def)
qed

lemma set_level_call [simp]:
  "tp_call (set_level dir b c) = tp_call c" "tap_cb (set_level dir b c) = tap_cb c"
  "tap_userdata (set_level dir b c) = tap_userdata c"
  by (cases dir; simp add: set_level_def)+

definition callbacks :: "call_id \<Rightarrow> tap_call \<Rightarrow> tap_in list \<Rightarrow> tap_eff list" where
  "callbacks h c is = concat (map (\<lambda>(dir, xs, af). run_callback dir h xs af (Some c)) (pcm_frames is))"

lemma concat_one: "concat (map (\<lambda>(a, b, c). [f a b c]) xs) = map (\<lambda>(a, b, c). f a b c) xs"
  by (induction xs) auto

lemma callbacks_Cons: "callbacks h c (i # is) = callbacks h c [i] @ callbacks h c is"
  by (cases i) (simp add: callbacks_def)

lemma run_callback_cong:
  assumes "tap_cb c = tap_cb c'" and "tap_userdata c = tap_userdata c'"
  shows "run_callback dir h xs af (Some c) = run_callback dir h xs af (Some c')"
  using assms by (simp add: run_callback_def split: option.split)

lemma callbacks_tapped [simp]: "callbacks h (tapped M js c) is = callbacks h c is"
  unfolding callbacks_def by (subst run_callback_cong [of "tapped M js c" c]) simp_all

lemma deliver_frame:
  assumes "tap_call_at h s = Some c"
  shows "tap_deliver M dir h af s = (on_tap_call h (tapped M [(dir, af)]) s, callbacks h c [(dir, af)])"
proof -
  let ?l = "set_level dir (fm_bits M (tap_compute_dbov M (Some (af_sampv af))))"
  have t: "tap_call_at h (on_tap_call h (set_level dir b) s) = Some (set_level dir b c)" for b by (simp add: find_on assms)
  have r: "run_callback dir h xs af (Some (set_level dir b c)) = run_callback dir h xs af (Some c)" for xs b
    by (rule run_callback_cong) simp_all
  have f: "tapped M [(dir, af)] =
      (\<lambda>c. case af_sampv af of
           S16LE xs \<Rightarrow> (?l c)\<lparr>tp_rec := vox_record_write_frame dir xs (af_srate af) (af_ch af) (tp_rec (?l c))\<rparr> | _ \<Rightarrow> ?l c)"
    by (rule ext) (simp add: tapped_frame Let_def)
  show ?thesis
    by (cases "af_sampv af")
      (simp_all add: tap_deliver_def Let_def t r f on_tap_call_twice comp_def callbacks_def)
qed

lemma frame_step:
  assumes "stream_call au h s" and "tap_call_at h s = Some c"
  shows "snd (tap_frame M au i s) = callbacks h c [i]"
    and "ts_calls (fst (tap_frame M au i s)) = ts_calls (on_tap_call h (tapped M [i]) s)"
    and "stream_call au h (fst (tap_frame M au i s))"
    and "s_tap_registered (fst (tap_frame M au i s)) = s_tap_registered s"
proof -
  obtain dir af where i: "i = (dir, af)" by fastforce
  let ?s = "case dir of DIR_TX \<Rightarrow> s\<lparr>ts_enc := Some h\<rparr> | DIR_RX \<Rightarrow> s\<lparr>ts_dec := Some h\<rparr>"
  have f: "tap_frame M au (dir, af) s = tap_deliver M dir h af ?s"
    using assms(1) by (cases dir) (auto simp: i tap_frame_def tap_encode_def tap_decode_def stream_call_def Let_def)
  have "tap_call_at h ?s = Some c" using assms(2) by (cases dir) (simp_all add: tap_call_at_def)
  note d = f deliver_frame [OF this]
  show "snd (tap_frame M au i s) = callbacks h c [i]" by (simp add: d i)
  show "ts_calls (fst (tap_frame M au i s)) = ts_calls (on_tap_call h (tapped M [i]) s)"
    unfolding i d by (cases dir) (simp_all add: on_tap_call_def)
  show "s_tap_registered (fst (tap_frame M au i s)) = s_tap_registered s"
    unfolding i d by (cases dir) (simp_all add: on_tap_call_def)
  have "tap_find_call au ?s = tap_find_call au s" by (cases dir) (simp_all add: tap_find_call_def)
  then show "stream_call au h (fst (tap_frame M au i s))"
    using assms(1) unfolding i d by (cases dir) (auto simp: stream_call_def find_call_on, auto simp: on_tap_call_def)
qed

lemma frames_run:
  assumes "stream_call au h s" and "tap_call_at h s = Some c"
  shows "snd (run_acts (tap_frame M au) is s) = callbacks h c is \<and>
    ts_calls (fst (run_acts (tap_frame M au) is s)) = ts_calls (on_tap_call h (tapped M is) s)"
  using assms
proof (induction "is" arbitrary: s c)
  case Nil
  then show ?case by (simp add: skip_def callbacks_def on_tap_call_def)
next
  case (Cons i "is")
  let ?s = "fst (tap_frame M au i s)"
  note st = frame_step [OF Cons.prems, of M i]
  have at: "tap_call_at h ?s = Some (tapped M [i] c)"
    using st(2) find_on [of "tapped M [i]" h s] Cons.prems(2) by (simp add: tap_call_at_def)
  note ih = Cons.IH [OF st(3) at]
  have "ts_calls (on_tap_call h (tapped M is) ?s) = ts_calls (on_tap_call h (tapped M (i # is)) s)"
    using st(2) by (simp add: on_tap_call_def tapped_Cons [of M i "is"])
  then show ?case using ih st(1) callbacks_Cons [of h c i "is"] by simp
qed

section \<open>Properties\<close>

definition stream_frames :: "fmath \<Rightarrow> nat \<Rightarrow> tap_in list \<Rightarrow> (tap, tap_eff) act" where
  "stream_frames M au = run_acts (tap_frame M au)"

text \<open>
  C33: every frame of a call reaches it. For a stream whose audio object belongs to the call \<open>h\<close>,
  found when the filter was opened or only now, and any interleaving of frames sent and
  received: the application's callback, if there is one, is given exactly the 16-bit frames, in
  their order and with their direction, format and time stamp; the recording is that of the same
  frames; each level is that of the last frame of its direction, whatever the format; nothing
  else of the call changes, and no other call sees anything.
\<close>

theorem tap_delivers_every_frame:
  assumes "stream_call au h s" and "tap_call_at h s = Some c"
  shows "(let (s', es) = stream_frames M au is s
      in es = (case tap_cb c of
                 None \<Rightarrow> []
               | Some cb \<Rightarrow> map (\<lambda>(dir, xs, af). TE_Callback cb h dir xs (af_srate af) (af_ch af) (af_timestamp af) (tap_userdata c)) (pcm_frames is)) \<and>
         tap_call_at h s' = Some (c\<lparr>tp_tx_level := last_level M DIR_TX is (tp_tx_level c),
                                    tp_rx_level := last_level M DIR_RX is (tp_rx_level c),
                                    tp_rec := recorded is (tp_rec c)\<rparr>) \<and>
         (\<forall>k. k \<noteq> h \<longrightarrow> tap_call_at k s' = tap_call_at k s))"
proof -
  obtain s' es where r: "run_acts (tap_frame M au) is s = (s', es)" by fastforce
  note run = frames_run [OF assms, of M "is", unfolded r, simplified]
  have "callbacks h c is = (case tap_cb c of None \<Rightarrow> []
      | Some cb \<Rightarrow> map (\<lambda>(dir, xs, af). TE_Callback cb h dir xs (af_srate af) (af_ch af) (af_timestamp af) (tap_userdata c)) (pcm_frames is))"
    by (cases "tap_cb c") (auto simp: callbacks_def run_callback_def concat_one)
  moreover have "tap_call_at h s' = Some (tapped M is c)"
    using run find_on [of "tapped M is" h s] assms(2) by (simp add: tap_call_at_def)
  moreover have "tap_call_at k s' = tap_call_at k s" if "k \<noteq> h" for k
    using run find_other [OF that, of "tapped M is" s] by (simp add: tap_call_at_def)
  ultimately show ?thesis using run by (simp add: stream_frames_def r tapped_def)
qed

text \<open>The full path: a stream opened before its call is known, a callback set, frames both ways.\<close>

definition demo_tap :: tap where
  "demo_tap = \<lparr>ts_calls = [\<lparr>tp_call = 1, tp_listed = True, tp_audio = Some 7, tap_cb = Some 5, tap_userdata = 9,
       tp_tx_level = 0, tp_rx_level = 0, tp_rec = snd (record_start_fn None rec_zero)\<rparr>],
     ts_enc = None, ts_dec = None, s_tap_registered = True\<rparr>"

definition demo_af :: "samples \<Rightarrow> auframe" where
  "demo_af xs = \<lparr>af_sampv = xs, af_srate = 8000, af_ch = 1, af_timestamp = 20\<rparr>"

definition demo_math :: fmath where
  "demo_math = \<lparr>fm_sqrt = id, fm_log10 = (\<lambda>_. 0), fm_bits = (\<lambda>x. of_int \<lfloor>x\<rfloor>)\<rparr>"

theorem tap_delivers_every_frame_witness:
  "snd (stream_frames demo_math 7 [(DIR_RX, demo_af (S16LE [1, 2])), (DIR_TX, demo_af (OTHER_FMT 6 2)), (DIR_TX, demo_af (S16LE [3]))] demo_tap)
   = [TE_Callback 5 1 DIR_RX [1, 2] 8000 1 20 9, TE_Callback 5 1 DIR_TX [3] 8000 1 20 9]"
proof -
  have "stream_call 7 1 demo_tap" by (simp add: stream_call_def tap_find_call_def tap_find_fn_def demo_tap_def)
  moreover have "tap_call_at 1 demo_tap = Some (hd (ts_calls demo_tap))" by (simp add: tap_call_at_def demo_tap_def)
  ultimately show ?thesis
    using tap_delivers_every_frame [of 7 1 demo_tap "hd (ts_calls demo_tap)" demo_math
        "[(DIR_RX, demo_af (S16LE [1, 2])), (DIR_TX, demo_af (OTHER_FMT 6 2)), (DIR_TX, demo_af (S16LE [3]))]"]
    by (simp add: case_prod_beta Let_def) (simp add: demo_tap_def demo_af_def)
qed

end
