(* ===== verification/Vox_Call_Api.thy ===== *)
theory Vox_Call_Api
  imports Vox_Call Vox_Dispatch
begin

text \<open>
  \<^verbatim>\<open>src/call.c\<close>, \<^verbatim>\<open>src/adapt.c\<close>: the public functions on calls, as an application thread calls
  them: the checks on the arguments, the bridge to the re_main thread and what comes back.
\<close>

section \<open>Handles\<close>

text \<open>
  A handle is the address of a wrapper. While the wrapper is listed its fields are those in the
  list at the moment the function runs; \<open>w\<close> is what the wrapper holds once it is not listed any
  more, and it is a wrapper without a baresip call then.
\<close>

definition behind :: "vcall \<Rightarrow> calls \<Rightarrow> vcall" where
  "behind w cs = (case call_get (lc_handle w) cs of Some lc \<Rightarrow> lc | None \<Rightarrow> w)"

definition errno_rc :: "conn_err \<Rightarrow> rc" where
  "errno_rc e = RC_errno (case e of E_AFNOSUPPORT \<Rightarrow> EOTHER 97 | E_NOTCONN \<Rightarrow> EOTHER 107 | E_conn x \<Rightarrow> x)"

type_synonym call_loop = "(calls, call_eff) re_loop"

section \<open>Functions that wait\<close>

text \<open>\<open>out\<close> is whether the application gives a place for the handle.\<close>

definition voxsdk_call_invite ::
  "libre \<Rightarrow> vox_cfg \<Rightarrow> u32 \<Rightarrow> dial_env \<Rightarrow> acct_db \<Rightarrow> dispatch_env \<Rightarrow> nat list \<Rightarrow> account option \<Rightarrow> cptr \<Rightarrow> bool \<Rightarrow> call_loop \<Rightarrow>
     (rc \<times> call_id option) \<times> call_loop \<times> call_eff list" where
  "voxsdk_call_invite L G timer_b V db D turns acct uri out lp =
     (case (acct, uri) of
        (Some a, Some u) \<Rightarrow>
          if \<not> out then ((RC_vox ERR_INVAL, None), lp, [])
          else (case vox_dispatch_sync D turns (invite_fn L G timer_b V db a (lb_ncpy L 512 u)) lp of
                  (Inl e, lp', es) \<Rightarrow> ((e, None), lp', es)
                | (Inr (Inl e), lp', es) \<Rightarrow> ((errno_rc e, None), lp', es)
                | (Inr (Inr h), lp', es) \<Rightarrow> ((RC_OK, Some h), lp', es))
      | _ \<Rightarrow> ((RC_vox ERR_INVAL, None), lp, []))"

text \<open>\<open>r\<close> is what the stack answers in each of the following.\<close>

definition voxsdk_call_answer ::
  "dispatch_env \<Rightarrow> nat list \<Rightarrow> vcall option \<Rightarrow> errno option \<Rightarrow> call_loop \<Rightarrow> rc \<times> call_loop \<times> call_eff list" where
  "voxsdk_call_answer D turns call r lp =
     (case call of
        None \<Rightarrow> (RC_vox ERR_INVAL, lp, [])
      | Some w \<Rightarrow>
          sync_rc (vox_dispatch_sync D turns
            (\<lambda>cs. case answer_fn (behind w cs) r of (e, es) \<Rightarrow> (rc_of e, cs, es)) lp))"

definition voxsdk_call_hold ::
  "dispatch_env \<Rightarrow> nat list \<Rightarrow> vcall option \<Rightarrow> errno option \<Rightarrow> call_loop \<Rightarrow> rc \<times> call_loop \<times> call_eff list" where
  "voxsdk_call_hold D turns call r lp =
     (case call of
        None \<Rightarrow> (RC_vox ERR_INVAL, lp, [])
      | Some w \<Rightarrow>
          sync_rc (vox_dispatch_sync D turns
            (\<lambda>cs. case hold_fn (behind w cs) True r cs of (e, x) \<Rightarrow> (rc_of e, x)) lp))"

definition voxsdk_call_resume ::
  "dispatch_env \<Rightarrow> nat list \<Rightarrow> vcall option \<Rightarrow> errno option \<Rightarrow> call_loop \<Rightarrow> rc \<times> call_loop \<times> call_eff list" where
  "voxsdk_call_resume D turns call r lp =
     (case call of
        None \<Rightarrow> (RC_vox ERR_INVAL, lp, [])
      | Some w \<Rightarrow>
          sync_rc (vox_dispatch_sync D turns
            (\<lambda>cs. case hold_fn (behind w cs) False r cs of (e, x) \<Rightarrow> (rc_of e, x)) lp))"

definition voxsdk_call_send_dtmf ::
  "dispatch_env \<Rightarrow> nat list \<Rightarrow> vcall option \<Rightarrow> char \<Rightarrow> errno option \<Rightarrow> call_loop \<Rightarrow> rc \<times> call_loop \<times> call_eff list" where
  "voxsdk_call_send_dtmf D turns call digit r lp =
     (case call of
        None \<Rightarrow> (RC_vox ERR_INVAL, lp, [])
      | Some w \<Rightarrow>
          sync_rc (vox_dispatch_sync D turns
            (\<lambda>cs. case dtmf_fn (behind w cs) digit r of (e, es) \<Rightarrow> (rc_of e, cs, es)) lp))"

definition voxsdk_call_transfer ::
  "libre \<Rightarrow> dispatch_env \<Rightarrow> nat list \<Rightarrow> vcall option \<Rightarrow> cptr \<Rightarrow> errno option \<Rightarrow> call_loop \<Rightarrow> rc \<times> call_loop \<times> call_eff list" where
  "voxsdk_call_transfer L D turns call uri r lp =
     (case (call, uri) of
        (Some w, Some u) \<Rightarrow>
          sync_rc (vox_dispatch_sync D turns
            (\<lambda>cs. case transfer_fn (behind w cs) (lb_ncpy L 512 u) r of (e, es) \<Rightarrow> (rc_of e, cs, es)) lp)
      | _ \<Rightarrow> (RC_vox ERR_INVAL, lp, []))"

text \<open>The struct is cleared before the bridge is tried.\<close>

definition voxsdk_call_get_info ::
  "libre \<Rightarrow> u64 \<Rightarrow> (nat \<Rightarrow> bc_info) \<Rightarrow> dispatch_env \<Rightarrow> nat list \<Rightarrow> vcall option \<Rightarrow> call_info option \<Rightarrow> call_loop \<Rightarrow>
     rc \<times> call_info option \<times> call_loop \<times> call_eff list" where
  "voxsdk_call_get_info L now bi D turns call out lp =
     (case (call, out) of
        (Some w, Some _) \<Rightarrow>
          (case vox_dispatch_sync D turns (\<lambda>cs. (call_info_fn L now bi (behind w cs) call_info_zero, cs, [])) lp of
             (Inl e, lp', es) \<Rightarrow> (e, Some call_info_zero, lp', es)
           | (Inr o1, lp', es) \<Rightarrow> (RC_OK, Some o1, lp', es))
      | _ \<Rightarrow> (RC_vox ERR_INVAL, out, lp, []))"

definition voxsdk_call_add_header ::
  "(nat \<Rightarrow> bool) \<Rightarrow> dispatch_env \<Rightarrow> nat list \<Rightarrow> vcall option \<Rightarrow> cptr \<Rightarrow> cptr \<Rightarrow> call_loop \<Rightarrow> rc \<times> call_loop \<times> call_eff list" where
  "voxsdk_call_add_header ok D turns call name val lp =
     (case (call, name, val) of
        (Some w, Some n, Some v) \<Rightarrow>
          sync_rc (vox_dispatch_sync D turns
            (\<lambda>cs. case add_call_hdr_fn (behind w cs) ok n v cs of (e, cs') \<Rightarrow> (rc_of e, cs', [])) lp)
      | _ \<Rightarrow> (RC_vox ERR_INVAL, lp, []))"

text \<open>
  \<open>set_rtp_timeout_fn\<close>: the timeout of the call and, when it has one, of its audio stream, in
  milliseconds of 32 bits. The call and its stream are named by the baresip call.
\<close>

datatype rtp_eff = RT_Call nat u32 | RT_Stream nat u32

definition set_rtp_timeout_fn :: "(nat \<Rightarrow> bool) \<Rightarrow> u32 \<Rightarrow> vcall \<Rightarrow> rc \<times> rtp_eff list" where
  "set_rtp_timeout_fn has_strm seconds lc =
     (case lc_bc lc of
        None \<Rightarrow> (RC_vox ERR_STATE, [])
      | Some bc \<Rightarrow>
          (RC_OK, RT_Call bc (seconds * 1000) # (if has_strm bc then [RT_Stream bc (seconds * 1000)] else [])))"

definition voxsdk_call_set_rtp_timeout ::
  "(nat \<Rightarrow> bool) \<Rightarrow> dispatch_env \<Rightarrow> nat list \<Rightarrow> vcall option \<Rightarrow> u32 \<Rightarrow> (calls, rtp_eff) re_loop \<Rightarrow> rc \<times> (calls, rtp_eff) re_loop \<times> rtp_eff list" where
  "voxsdk_call_set_rtp_timeout has_strm D turns call seconds lp =
     (case call of
        None \<Rightarrow> (RC_vox ERR_INVAL, lp, [])
      | Some w \<Rightarrow>
          sync_rc (vox_dispatch_sync D turns
            (\<lambda>cs. case set_rtp_timeout_fn has_strm seconds (behind w cs) of (e, es) \<Rightarrow> (e, cs, es)) lp))"

section \<open>Functions that do not wait\<close>

definition voxsdk_call_hangup :: "acct_db \<Rightarrow> dispatch_env \<Rightarrow> vcall option \<Rightarrow> call_loop \<Rightarrow> rc \<times> call_loop" where
  "voxsdk_call_hangup db D call lp =
     (case call of
        None \<Rightarrow> (RC_vox ERR_INVAL, lp)
      | Some w \<Rightarrow> vox_dispatch D (\<lambda>cs. hangup_fn db (behind w cs) cs) lp)"

text \<open>\<open>mem\<close> is whether the context with the reason could be allocated.\<close>

definition voxsdk_call_reject ::
  "libre \<Rightarrow> acct_db \<Rightarrow> bool \<Rightarrow> dispatch_env \<Rightarrow> vcall option \<Rightarrow> u16 \<Rightarrow> cptr \<Rightarrow> call_loop \<Rightarrow> rc \<times> call_loop" where
  "voxsdk_call_reject L db mem D call scode reason lp =
     (case call of
        None \<Rightarrow> (RC_vox ERR_INVAL, lp)
      | Some w \<Rightarrow>
          if \<not> mem then (RC_vox ERR_NOMEM, lp)
          else vox_dispatch D
                 (\<lambda>cs. reject_fn db (behind w cs) scode (case reason of None \<Rightarrow> [] | Some t \<Rightarrow> lb_ncpy L 128 t) cs) lp)"

text \<open>The calls the application's function is called with, in order, under the lock of the list.\<close>

definition voxsdk_call_foreach :: "'f option \<Rightarrow> 'a \<Rightarrow> calls \<Rightarrow> ('f \<times> call_id \<times> 'a) list" where
  "voxsdk_call_foreach fn arg cs =
     (case fn of None \<Rightarrow> [] | Some f \<Rightarrow> map (\<lambda>lc. (f, lc_handle lc, arg)) (s_calls cs))"

section \<open>What the caller learns\<close>

text \<open>
  The state and the effects when the function itself gets its turn: the jobs that the caller's
  wait lets run first, none when it is the re_main thread itself or the bridge refuses.
\<close>

definition before_turn :: "dispatch_env \<Rightarrow> nat list \<Rightarrow> ('s, 'e) re_loop \<Rightarrow> ('s, 'e) re_loop \<times> 'e list" where
  "before_turn D turns lp =
     (if d_initialized D \<and> \<not> d_on_re D \<and> d_async D = None then run_acts dispatch_cb turns lp else (lp, []))"

definition refused :: "dispatch_env \<Rightarrow> bool" where
  "refused D \<longleftrightarrow> \<not> d_initialized D \<or> (\<not> d_on_re D \<and> d_async D \<noteq> None)"

lemma sync_rc_ran:
  assumes "sync_rc (vox_dispatch_sync D turns f lp) = (r, lp', es)" and "before_turn D turns lp = (lp1, es1)"
  shows "if refused D then r \<noteq> RC_OK \<and> lp' = lp \<and> es = []
    else \<exists>s es2. f (rl_state lp1) = (r, s, es2) \<and> lp' = lp1\<lparr>rl_state := s\<rparr> \<and> es = es1 @ es2"
  using assms
  by (auto simp: sync_rc_def vox_dispatch_sync_def before_turn_def refused_def split: if_splits option.splits prod.splits)

lemma rc_of_OK [simp]: "rc_of e = RC_OK \<longleftrightarrow> e = None"
  by (cases e) (simp_all add: rc_of_def)

text \<open>The requests of a run to the stack, as one of the waiting functions makes them.\<close>

definition asks :: "(nat \<Rightarrow> call_eff) \<Rightarrow> vcall \<Rightarrow> calls \<Rightarrow> call_eff list" where
  "asks f w cs = (case lc_bc (behind w cs) of None \<Rightarrow> [] | Some bc \<Rightarrow> [f bc])"

lemma get_after_write:
  "call_get h (call_write h (\<lambda>x. x\<lparr>local_hold := b\<rparr>) cs) = map_option (\<lambda>x. x\<lparr>local_hold := b\<rparr>) (call_get h cs)"
proof -
  have "lc_handle x = h" if "call_get h cs = Some x" for x
    using that by (auto simp: call_get_def find_Some_iff)
  then show ?thesis by (cases "call_get h cs") simp_all
qed

lemma hold_turn:
  assumes "hold_fn (behind w cs) b r cs = (e, cs', es)"
  shows "es = asks (\<lambda>bc. C_Hold bc b) w cs"
    and "e \<noteq> None \<Longrightarrow> cs' = cs" and "e = None \<Longrightarrow> lc_bc (behind w cs) \<noteq> None"
    and "e = None \<Longrightarrow> lc_handle w = lc_handle (behind w cs) \<Longrightarrow>
      call_get (lc_handle w) cs' = map_option (\<lambda>x. x\<lparr>local_hold := b\<rparr>) (call_get (lc_handle w) cs)"
  using assms by (auto simp: hold_fn_def asks_def get_after_write split: option.splits if_splits)

lemma behind_handle [simp]: "lc_handle (behind w cs) = lc_handle w"
  by (auto simp: behind_def call_get_def find_Some_iff split: option.split)



end
