(* ===== verification/Spec2Isabelle.thy ===== *)
theory Spec2Isabelle
  imports Vox_Dns Vox_Ws Vox_Reg_Events Vox_Retry Vox_Account_Api Vox_Event_Queue Vox_Record Vox_Netmon Vox_Producers Vox_Stats Vox_Core Vox_Ice Vox_Audio Vox_Dsp Vox_Tap Vox_Call_Api
begin

text \<open>
  A verification of the core of VoxSDK, a SIP user agent in C on top of the baresip and libre
  stack. Paths are under \<^verbatim>\<open>src/\<close>.

  \<^bold>\<open>The program and its parts.\<close> Everything that changes SIP state runs on one thread, the loop
  of the stack (\<open>re_main\<close>); the public functions check their arguments and hand their work to it
  (\<^verbatim>\<open>src/dispatch.c\<close>). Accounts (\<^verbatim>\<open>src/account.c\<close>) register with a server found by its URL
  (\<^verbatim>\<open>src/transport.c\<close>) or through DNS (\<^verbatim>\<open>src/dns.c\<close>), over WebSockets if need be
  (\<^verbatim>\<open>src/ws_path.c\<close>), and keep the registration alive with a retry timer, a watchdog and
  OPTIONS probes. The stack reports what happens to accounts and calls to one handler
  (\<^verbatim>\<open>src/event.c\<close>, with \<^verbatim>\<open>src/sdp.c\<close> and \<^verbatim>\<open>src/transfer.c\<close>), which updates accounts and call
  wrappers (\<^verbatim>\<open>src/call.c\<close>) and posts events. Events go through a bounded queue to a thread of
  their own, which calls the application. Established calls are adapted to the link
  (\<^verbatim>\<open>src/adapt.c\<close>) and may be recorded (\<^verbatim>\<open>src/record.c\<close>). When the network changes, the
  monitor (\<^verbatim>\<open>src/netmon.c\<close>) rebuilds the transports, registers again and moves the calls.
  The ICE shim (\<^verbatim>\<open>src/ice_shim.c\<close>) stands between the stack and its ICE module: it puts a
  deadline on the gathering of candidates and lets a ringing call check paths early. Statistics
  (\<^verbatim>\<open>src/stats.c\<close>) poll every call, score it and raise alerts. Audio comes from a device of the
  application (\<^verbatim>\<open>src/audio_external.c\<close>) or of the platform, and passes filters
  (\<^verbatim>\<open>src/audio_processing.c\<close>). SIP traffic can be traced and captured
  (\<^verbatim>\<open>src/trace.c\<close>, \<^verbatim>\<open>src/pcap.c\<close>). Start-up and shutdown (\<^verbatim>\<open>src/core.c\<close>) bring the parts up
  in order and take them down again.

  \<^bold>\<open>How it is modelled.\<close> A C string is a \<open>string\<close> without its NUL, a \<open>const char *\<close> that may be
  NULL a \<open>cptr\<close>; integers have the width the code gives them, and their arithmetic wraps;
  floats are rationals with an explicit rounding (\<open>Vox_Float\<close>). A function of the \<open>re_main\<close>
  thread is an action: it maps the state to a new state and the list of its visible effects
  (events posted, requests to the stack, timers). Code outside the repository is a parameter:
  the string and formatting functions of libre are the record \<open>libre\<close>, with the few laws the
  proofs need as \<open>libre_laws\<close> (\<open>libre_ref\<close> satisfies them); what the stack, the allocator and
  the clock answer comes with each input. A sequence of inputs is a run of the machine
  (\<open>run_acts\<close>), and \<open>legal_run\<close> restricts it to inputs the environment can give.

  \<^bold>\<open>The theories.\<close>
  \<^item> \<open>Vox_Prelude\<close>: C strings and numbers, the \<open>libre\<close> record, actions and runs, and the locale
    \<open>invariant_machine\<close> of invariants kept by every step.
  \<^item> \<open>Vox_Types\<close> (\<^verbatim>\<open>include/voxsdk.h\<close>, \<^verbatim>\<open>src/error.c\<close>): error codes, states, the event union.
  \<^item> \<open>Vox_Transport\<close> (\<^verbatim>\<open>src/transport.c\<close>): the server URL parser with its buffer bounds, and the
    outbound URI that parses back.
  \<^item> \<open>Vox_Dns\<close> (\<^verbatim>\<open>src/dns.c\<close>): NAPTR, SRV and A lookups as callbacks of a resolver; the sort is
    correct and every lookup ends in one answer.
  \<^item> \<open>Vox_Ws\<close> (\<^verbatim>\<open>src/ws_path.c\<close>): the registry of WebSocket servers, which pins an origin and a
    path for the accounts alive; a refinement of the list of live accounts.
  \<^item> \<open>Vox_Float\<close>: single precision as rationals with rounding to nearest even.
  \<^item> \<open>Vox_Config\<close>, \<open>Vox_Account\<close>, \<open>Vox_Account_Cfg\<close>, \<open>Vox_Account_Api\<close> (\<^verbatim>\<open>src/account.c\<close>,
    \<^verbatim>\<open>src/core.c\<close>): configuration and defaults, the account object and its handlers, the URI
    handed to the stack, creation and destruction with every error path.
  \<^item> \<open>Vox_Reg_Fsm\<close>, \<open>Vox_Reg_Events\<close>, \<open>Vox_Retry\<close>: theorems on the registration machine. A
    reconnecting account always has something that drives it on; a reconnect event is never
    repeated unchanged; delays and attempts keep their bounds; the watchdog ends a silence.
  \<^item> \<open>Vox_Event_Queue\<close> (\<^verbatim>\<open>src/event.c\<close>, \<^verbatim>\<open>src/log.c\<close>): the queue and its thread as interleaved
    steps; references balance, order is kept (a refinement of a queue), shutdown drains.
  \<^item> \<open>Vox_Record\<close> (\<^verbatim>\<open>src/record.c\<close>): the recording is a WAV file that reads back as the mix.
  \<^item> \<open>Vox_Call\<close> and \<open>Vox_Call_Api\<close> (\<^verbatim>\<open>src/call.c\<close>): wrappers, dialling, the setup watchdog, and
    the public functions, whose results say what the stack was asked and what is read later.
  \<^item> \<open>Vox_Adapt\<close> (\<^verbatim>\<open>src/adapt.c\<close>): parameter rewriting against a reference, bitrate bounds,
    alternation of stall alerts.
  \<^item> \<open>Vox_Bevent\<close> (\<^verbatim>\<open>src/event.c\<close>, \<^verbatim>\<open>src/sdp.c\<close>): every branch of the stack's event handler; a
    call ends once.
  \<^item> \<open>Vox_Dispatch\<close> (\<^verbatim>\<open>src/dispatch.c\<close>) and \<open>Vox_Transfer\<close> (\<^verbatim>\<open>src/transfer.c\<close>): the bridge to
    the loop, and answers to transfer requests; a request is answered once and no wrapper is
    freed twice or lost.
  \<^item> \<open>Vox_Mig\<close> and \<open>Vox_Netmon\<close> (\<^verbatim>\<open>src/netmon.c\<close>): the move of a call to a new network and the
    monitor that starts it; a migration ends within its budget with one verdict, and whatever is
    pending in the monitor has a timer that drives it.
  \<^item> \<open>Vox_Pcap\<close> (\<^verbatim>\<open>src/pcap.c\<close>): the capture file, which reads back as the messages traced.
  \<^item> \<open>Vox_Producers\<close> (\<^verbatim>\<open>src/trace.c\<close>, \<^verbatim>\<open>src/log.c\<close>, \<^verbatim>\<open>src/message.c\<close>, \<^verbatim>\<open>src/presence.c\<close>,
    \<^verbatim>\<open>src/headers.c\<close>): the other sources of events; what they post fits the event union.
  \<^item> \<open>Vox_Stats\<close> (\<^verbatim>\<open>src/stats.c\<close>): scores, windowed counters, samples and alerts; loss is that
    of the window, alerts alternate, and a sample stays in range.
  \<^item> \<open>Vox_Core\<close> (\<^verbatim>\<open>src/core.c\<close>, \<^verbatim>\<open>src/re_loop.c\<close>, \<^verbatim>\<open>src/timers.c\<close>, \<^verbatim>\<open>src/modules_init.c\<close>):
    start-up with every step that can fail, and shutdown. The SDK is idle or running, never in
    between, but what a failed start leaves behind is stated as well.
  \<^item> \<open>Vox_Ice\<close> (\<^verbatim>\<open>src/ice_shim.c\<close>): the gathering deadline, early checks on a ringing call,
    restarts of either side, and the re-offer of candidates; an offer is always due, and checks
    wait for an answer.
  \<^item> \<open>Vox_Audio\<close> (\<^verbatim>\<open>src/audio_external.c\<close>, \<^verbatim>\<open>src/audio.c\<close>) and \<open>Vox_Dsp\<close>
    (\<^verbatim>\<open>src/audio_processing.c\<close>): the device of the application, which loses and reorders no
    sample, the audio settings, and the filters with their rounding.
  \<^item> \<open>Vox_Tap\<close> (\<^verbatim>\<open>src/media_tap.c\<close>): the filter that meters frames and hands them to the
    application and the recording; it drops and reorders none.

  \<^bold>\<open>Bounds.\<close> All functions are total; loops of the code are structural recursions or have a
  termination proof, and no fuel is used. Buffer sizes, queue lengths and snapshot sizes are
  those of the code.

  \<^bold>\<open>Not modelled.\<close> Locks and condition variables are only the granularity of the steps.
  Allocation failures are inputs; releasing memory is an effect. Left out are
  \<^verbatim>\<open>src/webrtc_shim.c\<close> and \<^verbatim>\<open>src/glibc_symver.c\<close>, which forward each call to a symbol of
  another library; the branches of \<^verbatim>\<open>src/modules_init.c\<close> and \<^verbatim>\<open>src/netmon.c\<close> that systems
  other than Linux compile; \<^verbatim>\<open>platform/\<close>, which holds certificate data, device drivers
  written against the audio and JNI interfaces of each system, and the look-up of certificate
  files; and the bindings, whose code wraps the functions modelled here.
\<close>

end
